(* ===== verification/Prelude.thy ===== *)
theory Prelude
  imports Main "HOL-Library.Char_ord" "HOL-Library.List_Lexorder" "HOL-Library.Signed_Division"
begin

text \<open>
  Shared vocabulary of the development: byte strings, Go's 64-bit integer arithmetic, Go's
  error trees (\<open>fmt.Errorf\<close> with \<open>%w\<close>, \<open>errors.Join\<close>, \<open>errors.Is\<close>), and the
  collections of rewrite and introduction rules the components extend.
\<close>

named_theorems byte_simps \<open>rewrite rules for byte-string operations\<close>
named_theorems db_simps \<open>rewrite rules for catalog tables\<close>
named_theorems succeeds_intros \<open>introduction rules for programs that succeed when nothing fails\<close>
named_theorems keeps_intros \<open>introduction rules for invariants of effectful programs\<close>

section \<open>Byte strings and integers\<close>

text \<open>
  A Go \<open>[]byte\<close> or \<open>string\<close> is a list of bytes; HOL's \<open>char\<close> is exactly the 256 byte
  values. With List_Lexorder the order on \<open>bytes\<close> is \<open>memcmp\<close> order, shorter first,
  which is how SQLite compares BLOBs.
\<close>

type_synonym byte = char
type_synonym bytes = "char list"

definition byte_val :: "byte \<Rightarrow> nat" where
  "byte_val b = of_char b"

definition mk_byte :: "nat \<Rightarrow> byte" where
  "mk_byte n = char_of n"

lemma mk_byte_val [simp]: "mk_byte (byte_val b) = b"
  by (simp add: mk_byte_def byte_val_def)

lemma byte_val_mk [simp]: "n < 256 \<Longrightarrow> byte_val (mk_byte n) = n"
  by (simp add: mk_byte_def byte_val_def of_char_of)

lemma byte_val_less [simp]: "byte_val b < 256"
proof -
  have "of_char b mod (256::nat) = of_char b"
    using char_of_eq_iff [of "of_char b" b] by simp
  then show ?thesis
    by (metis byte_val_def mod_less_divisor zero_less_numeral)
qed

lemma byte_val_inject [simp]: "byte_val a = byte_val b \<longleftrightarrow> a = b"
  by (metis mk_byte_val)

lemma byte_less_iff: "a < b \<longleftrightarrow> byte_val a < byte_val b" for a b :: byte
  by (simp add: less_char_def byte_val_def)

lemma byte_le_iff: "a \<le> b \<longleftrightarrow> byte_val a \<le> byte_val b" for a b :: byte
  by (simp add: less_eq_char_def byte_val_def)

text \<open>
  Go's \<open>int64\<close> wraps. Values are kept as \<open>int\<close> and every arithmetic step that can leave
  the range is written \<open>i64 (...)\<close>.
\<close>

definition max_i64 :: int where "max_i64 = 9223372036854775807"
definition min_i64 :: int where "min_i64 = -9223372036854775808"

definition i64 :: "int \<Rightarrow> int" where
  "i64 x = (x + 9223372036854775808) mod 18446744073709551616 - 9223372036854775808"

definition in_i64 :: "int \<Rightarrow> bool" where
  "in_i64 x \<longleftrightarrow> min_i64 \<le> x \<and> x \<le> max_i64"

lemma i64_in_range [simp]: "in_i64 x \<Longrightarrow> i64 x = x"
  by (simp add: in_i64_def i64_def min_i64_def max_i64_def)

lemma in_i64_i64 [simp]: "in_i64 (i64 x)"
proof -
  have "0 \<le> (x + 9223372036854775808) mod 18446744073709551616"
    "(x + 9223372036854775808) mod 18446744073709551616 < 18446744073709551616"
    by simp_all
  then show ?thesis unfolding in_i64_def i64_def min_i64_def max_i64_def by linarith
qed

section \<open>Errors\<close>

text \<open>
  Go error values as trees. The constructors without arguments are the sentinels the code
  compares with; \<open>SqlErr c\<close> is an SQLite error with result code \<open>c\<close>; \<open>SysErr\<close> is any
  other failure of a system call or library routine; \<open>Msg\<close> an \<open>errors.New\<close> or a
  \<open>fmt.Errorf\<close> that wraps nothing; \<open>Wrap\<close> a \<open>fmt.Errorf\<close> with its \<open>%w\<close> operands
  (also \<open>errors.Join\<close>, whose message is empty here). \<open>Panic\<close> is a Go panic: no code of the
  repository recovers from one.
\<close>

datatype err =
    ErrNotExist
  | ErrExist
  | ErrNoRows
  | ErrTagMismatch
  | ErrInvalidCacheEntry
  | ErrEOF
  | ErrUnexpectedEOF
  | ErrClosed
  | ErrBufferFull
  | SqlErr int
  | SysErr string
  | Msg string
  | Wrap string "err list"
  | Panic string

text \<open>\<open>errors.Is\<close>: depth-first search of the tree for a sentinel.\<close>

fun errors_is :: "err \<Rightarrow> err \<Rightarrow> bool" where
  "errors_is t (Wrap m es) = (t = Wrap m es \<or> list_ex (errors_is t) es)"
| "errors_is t e = (t = e)"

text \<open>\<open>errors.As\<close> for the interface \<open>Code() int\<close>: the first match, depth first.\<close>

definition first_some :: "'a option list \<Rightarrow> 'a option" where
  "first_some xs = (case dropWhile (\<lambda>x. x = None) xs of [] \<Rightarrow> None | x # _ \<Rightarrow> x)"

fun errors_as_code :: "err \<Rightarrow> int option" where
  "errors_as_code (SqlErr c) = Some c"
| "errors_as_code (Wrap m es) = first_some (map errors_as_code es)"
| "errors_as_code _ = None"

text \<open>\<open>errors.Join\<close> of two possibly-nil errors.\<close>

definition join_err :: "err option \<Rightarrow> err option \<Rightarrow> err option" where
  "join_err a b = (case a of
     None \<Rightarrow> (case b of None \<Rightarrow> None | Some y \<Rightarrow> Some (Wrap [] [y]))
   | Some x \<Rightarrow> (case b of None \<Rightarrow> Some (Wrap [] [x]) | Some y \<Rightarrow> Some (Wrap [] [x, y])))"

lemma join_err_None [simp]: "join_err a b = None \<longleftrightarrow> a = None \<and> b = None"
  by (simp add: join_err_def split: option.splits)

section \<open>Lists\<close>

definition the_default :: "'a \<Rightarrow> 'a option \<Rightarrow> 'a" where
  "the_default d x = (case x of None \<Rightarrow> d | Some y \<Rightarrow> y)"

lemma the_default_simps [simp]: "the_default d None = d" "the_default d (Some x) = x"
  by (simp_all add: the_default_def)

lemma sum_list_filter_le:
  "(\<And>x. x \<in> set xs \<Longrightarrow> 0 \<le> f x) \<Longrightarrow>
    sum_list (map f (filter P xs)) \<le> sum_list (map f xs)" for f :: "'a \<Rightarrow> int"
  by (induction xs) (auto simp: add_increasing)

lemma distinct_map_filter_eq:
  "distinct (map f xs) \<Longrightarrow> x \<in> set xs \<Longrightarrow> y \<in> set xs \<Longrightarrow> f x = f y \<Longrightarrow> x = y"
  by (auto simp: distinct_map inj_on_def)

lemma find_Some_key:
  "find (\<lambda>x. f x = k) xs = Some r \<Longrightarrow> r \<in> set xs \<and> f r = k"
  by (induction xs) (auto split: if_splits)

lemma find_key_unique:
  "distinct (map f xs) \<Longrightarrow> r \<in> set xs \<Longrightarrow> find (\<lambda>x. f x = f r) xs = Some r"
  by (induction xs) auto

lemma find_None_key: "find (\<lambda>x. f x = k) xs = None \<longleftrightarrow> k \<notin> f ` set xs"
  by (auto simp: find_None_iff)

end
