(* ===== verification/Go_Bytes.thy ===== *)
theory Go_Bytes
  imports Prelude
begin

text \<open>
  The operations of Go's packages \<open>bytes\<close>, \<open>strings\<close>, \<open>strconv\<close> and \<open>unicode/utf8\<close>
  that gocachez uses, on lists of bytes: prefix, suffix and substring tests, splitting,
  trimming of Unicode white space in UTF-8, integer parsing with its 64-bit range check and
  UTF-8 validity. These are the standard library, not the repository; the components build
  on them.
\<close>

section \<open>Prefixes, suffixes, substrings\<close>

definition has_prefix :: "bytes \<Rightarrow> bytes \<Rightarrow> bool" where
  "has_prefix s p \<longleftrightarrow> take (length p) s = p"

definition has_suffix :: "bytes \<Rightarrow> bytes \<Rightarrow> bool" where
  "has_suffix s p \<longleftrightarrow> length p \<le> length s \<and> drop (length s - length p) s = p"

fun contains_bytes :: "bytes \<Rightarrow> bytes \<Rightarrow> bool" where
  "contains_bytes [] p = (p = [])"
| "contains_bytes (x # xs) p = (has_prefix (x # xs) p \<or> contains_bytes xs p)"

definition contains_any :: "bytes \<Rightarrow> bytes \<Rightarrow> bool" where
  "contains_any s cs \<longleftrightarrow> list_ex (\<lambda>c. c \<in> set cs) s"

definition trim_suffix :: "bytes \<Rightarrow> bytes \<Rightarrow> bytes" where
  "trim_suffix s p = (if has_suffix s p then take (length s - length p) s else s)"

lemma has_prefix_append [byte_simps]: "has_prefix (p @ s) p"
  by (simp add: has_prefix_def)

lemma has_prefix_iff: "has_prefix s p \<longleftrightarrow> (\<exists>t. s = p @ t)"
  by (metis append_eq_conv_conj append_take_drop_id has_prefix_def)

lemma has_suffix_iff: "has_suffix s p \<longleftrightarrow> (\<exists>t. s = t @ p)"
proof
  assume "has_suffix s p"
  then have "s = take (length s - length p) s @ p"
    by (metis append_take_drop_id has_suffix_def)
  then show "\<exists>t. s = t @ p" by blast
next
  assume "\<exists>t. s = t @ p"
  then show "has_suffix s p" by (auto simp: has_suffix_def)
qed

lemma trim_suffix_append [byte_simps]: "trim_suffix (s @ p) p = s"
  by (simp add: trim_suffix_def has_suffix_def)

lemma contains_bytes_iff: "contains_bytes s p \<longleftrightarrow> (\<exists>u v. s = u @ p @ v)"
proof (induction s)
  case Nil
  then show ?case by simp
next
  case (Cons x xs)
  show ?case
  proof
    assume "contains_bytes (x # xs) p"
    then consider "has_prefix (x # xs) p" | "contains_bytes xs p" by auto
    then show "\<exists>u v. x # xs = u @ p @ v"
    proof cases
      case 1
      then obtain t where "x # xs = [] @ p @ t" by (auto simp: has_prefix_iff)
      then show ?thesis by blast
    next
      case 2
      then obtain u v where "xs = u @ p @ v" using Cons.IH by blast
      then have "x # xs = (x # u) @ p @ v" by simp
      then show ?thesis by blast
    qed
  next
    assume "\<exists>u v. x # xs = u @ p @ v"
    then obtain u v where eq: "x # xs = u @ p @ v" by blast
    show "contains_bytes (x # xs) p"
    proof (cases u)
      case Nil
      with eq have "has_prefix (x # xs) p" by (simp add: has_prefix_def)
      then show ?thesis by simp
    next
      case (Cons y ys)
      with eq have "xs = ys @ p @ v" by simp
      then have "contains_bytes xs p" using Cons.IH by blast
      then show ?thesis by simp
    qed
  qed
qed

section \<open>Splitting\<close>

text \<open>\<open>bytes.Split\<close> for a one-byte separator, and \<open>bytes.Cut\<close> for a one-byte separator.\<close>

fun split_byte :: "byte \<Rightarrow> bytes \<Rightarrow> bytes list" where
  "split_byte c [] = [[]]"
| "split_byte c (x # xs) =
     (if x = c then [] # split_byte c xs
      else case split_byte c xs of [] \<Rightarrow> [[x]] | w # ws \<Rightarrow> (x # w) # ws)"

definition cut_byte :: "byte \<Rightarrow> bytes \<Rightarrow> bytes \<times> bytes \<times> bool" where
  "cut_byte c s = (takeWhile (\<lambda>x. x \<noteq> c) s, drop 1 (dropWhile (\<lambda>x. x \<noteq> c) s), c \<in> set s)"

lemma split_byte_nonempty [simp]: "split_byte c s \<noteq> []"
  by (induction s) (auto split: list.splits)

fun join_byte :: "byte \<Rightarrow> bytes list \<Rightarrow> bytes" where
  "join_byte c [] = []"
| "join_byte c [w] = w"
| "join_byte c (w # ws) = w @ c # join_byte c ws"

lemma join_split_byte: "join_byte c (split_byte c s) = s"
proof (induction s)
  case Nil
  then show ?case by simp
next
  case (Cons x xs)
  obtain w ws where ws: "split_byte c xs = w # ws"
    by (cases "split_byte c xs") auto
  from ws Cons show ?case by (cases ws) auto
qed

lemma split_byte_no_sep: "w \<in> set (split_byte c s) \<Longrightarrow> c \<notin> set w"
proof (induction s arbitrary: w)
  case Nil
  then show ?case by simp
next
  case (Cons x xs)
  then show ?case
    by (cases "split_byte c xs") (auto split: if_splits)
qed

lemma length_split_byte: "length (split_byte c s) = Suc (count_list s c)"
proof (induction s)
  case Nil
  then show ?case by simp
next
  case (Cons x xs)
  then show ?case by (cases "split_byte c xs") auto
qed

lemma cut_byte_append:
  "c \<notin> set s \<Longrightarrow> cut_byte c (s @ c # t) = (s, t, True)"
  by (induction s) (auto simp: cut_byte_def)

lemma cut_byte_none: "c \<notin> set s \<Longrightarrow> cut_byte c s = (s, [], False)"
  by (induction s) (auto simp: cut_byte_def)

lemma cut_byte_found:
  "c \<in> set s \<Longrightarrow> s = fst (cut_byte c s) @ c # fst (snd (cut_byte c s)) \<and> c \<notin> set (fst (cut_byte c s))"
  by (induction s) (auto simp: cut_byte_def)

section \<open>White space\<close>

text \<open>
  \<open>unicode.IsSpace\<close> on UTF-8: each token is the encoding of one white-space rune. Lead
  bytes of these encodings never occur inside another valid encoding, so matching them at
  a byte position is matching them at a rune position.
\<close>

definition space_tokens :: "bytes list" where
  "space_tokens =
     [[CHR 0x09], [CHR 0x0A], [CHR 0x0B], [CHR 0x0C], [CHR 0x0D], [CHR 0x20],
      [CHR 0xC2, CHR 0x85], [CHR 0xC2, CHR 0xA0], [CHR 0xE1, CHR 0x9A, CHR 0x80],
      [CHR 0xE2, CHR 0x80, CHR 0x80], [CHR 0xE2, CHR 0x80, CHR 0x81],
      [CHR 0xE2, CHR 0x80, CHR 0x82], [CHR 0xE2, CHR 0x80, CHR 0x83],
      [CHR 0xE2, CHR 0x80, CHR 0x84], [CHR 0xE2, CHR 0x80, CHR 0x85],
      [CHR 0xE2, CHR 0x80, CHR 0x86], [CHR 0xE2, CHR 0x80, CHR 0x87],
      [CHR 0xE2, CHR 0x80, CHR 0x88], [CHR 0xE2, CHR 0x80, CHR 0x89],
      [CHR 0xE2, CHR 0x80, CHR 0x8A], [CHR 0xE2, CHR 0x80, CHR 0xA8],
      [CHR 0xE2, CHR 0x80, CHR 0xA9], [CHR 0xE2, CHR 0x80, CHR 0xAF],
      [CHR 0xE2, CHR 0x81, CHR 0x9F], [CHR 0xE3, CHR 0x80, CHR 0x80]]"

definition token_width :: "bytes list \<Rightarrow> bytes \<Rightarrow> nat" where
  "token_width toks s = (case find (has_prefix s) toks of None \<Rightarrow> 0 | Some t \<Rightarrow> length t)"

lemma token_width_le: "token_width toks s \<le> length s"
proof (cases "find (has_prefix s) toks")
  case None
  then show ?thesis by (simp add: token_width_def)
next
  case (Some t)
  then have "has_prefix s t" by (auto simp: find_Some_iff)
  then have "length t \<le> length s"
    by (metis has_prefix_def length_take min.cobounded1)
  with Some show ?thesis by (simp add: token_width_def)
qed

function trim_tokens :: "bytes list \<Rightarrow> bytes \<Rightarrow> bytes" where
  "trim_tokens toks s =
     (let w = token_width toks s in if w = 0 then s else trim_tokens toks (drop w s))"
  by pat_completeness auto
termination
proof (relation "measure (\<lambda>(toks, s). length s)")
  fix toks s w
  assume "w = token_width toks s" "w \<noteq> 0"
  then show "((toks, drop w s), (toks, s)) \<in> measure (\<lambda>(toks, s). length s)"
    using token_width_le [of toks s] by auto
qed simp

declare trim_tokens.simps [simp del]

definition trim_left_space :: "bytes \<Rightarrow> bytes" where
  "trim_left_space s = trim_tokens space_tokens s"

definition trim_right_space :: "bytes \<Rightarrow> bytes" where
  "trim_right_space s = rev (trim_tokens (map rev space_tokens) (rev s))"

definition trim_space :: "bytes \<Rightarrow> bytes" where
  "trim_space s = trim_right_space (trim_left_space s)"

text \<open>\<open>bytes.TrimLeft\<close> with an ASCII cut set, and \<open>bytes.Fields\<close>.\<close>

definition trim_left_set :: "bytes \<Rightarrow> bytes \<Rightarrow> bytes" where
  "trim_left_set s cs = dropWhile (\<lambda>c. c \<in> set cs) s"

definition flush_field :: "bytes \<Rightarrow> bytes list" where
  "flush_field cur = (if cur = [] then [] else [rev cur])"

function fields_from :: "bytes \<Rightarrow> bytes \<Rightarrow> bytes list" where
  "fields_from cur s =
     (case s of
        [] \<Rightarrow> flush_field cur
      | x # xs \<Rightarrow>
          (let w = token_width space_tokens s
           in if w = 0 then fields_from (x # cur) xs
              else flush_field cur @ fields_from [] (drop w s)))"
  by pat_completeness auto
termination
proof (relation "measure (\<lambda>(cur, s). length s)")
  fix cur s x xs w
  assume "s = x # xs" "w = token_width space_tokens s" "w \<noteq> 0"
  then show "(([], drop w s), (cur, s)) \<in> measure (\<lambda>(cur, s). length s)" by simp
qed auto

declare fields_from.simps [simp del]

definition bytes_fields :: "bytes \<Rightarrow> bytes list" where
  "bytes_fields s = fields_from [] s"

lemma trim_tokens_le: "length (trim_tokens toks s) \<le> length s"
proof (induction toks s rule: trim_tokens.induct)
  case (1 toks s)
  show ?case
  proof (cases "token_width toks s = 0")
    case True
    then show ?thesis by (subst trim_tokens.simps) simp
  next
    case False
    with 1 have "length (trim_tokens toks (drop (token_width toks s) s))
        \<le> length (drop (token_width toks s) s)" by simp
    with False show ?thesis by (subst trim_tokens.simps) (simp add: Let_def)
  qed
qed

lemma trim_space_Nil [simp]: "trim_space [] = []"
proof -
  have "trim_tokens toks [] = []" for toks
    using trim_tokens_le [of toks "[]"] by simp
  then show ?thesis by (simp add: trim_space_def trim_left_space_def trim_right_space_def)
qed

lemma trim_tokens_idem: "trim_tokens toks (trim_tokens toks s) = trim_tokens toks s"
proof (induction toks s rule: trim_tokens.induct)
  case (1 toks s)
  show ?case
  proof (cases "token_width toks s = 0")
    case True
    then have "trim_tokens toks s = s" by (subst trim_tokens.simps) simp
    then show ?thesis by simp
  next
    case False
    then have "trim_tokens toks s = trim_tokens toks (drop (token_width toks s) s)"
      by (subst trim_tokens.simps) (simp add: Let_def)
    with 1 False show ?thesis by simp
  qed
qed

lemma length_trim_space_le: "length (trim_space s) \<le> length s"
  using trim_tokens_le [of "map rev space_tokens" "rev (trim_left_space s)"]
    trim_tokens_le [of space_tokens s]
  by (simp add: trim_space_def trim_left_space_def trim_right_space_def)

section \<open>Integers\<close>

text \<open>
  \<open>strconv.ParseInt(s, 10, 64)\<close> and \<open>strconv.ParseUint(s, 16, 64)\<close>: \<open>None\<close> is an error
  (syntax or range). With an explicit base Go accepts no underscores and no prefix.
\<close>

definition dec_val :: "byte \<Rightarrow> nat option" where
  "dec_val c = (let v = byte_val c in if 48 \<le> v \<and> v \<le> 57 then Some (v - 48) else None)"

definition hex_val :: "byte \<Rightarrow> nat option" where
  "hex_val c = (let v = byte_val c in
     if 48 \<le> v \<and> v \<le> 57 then Some (v - 48)
     else if 97 \<le> v \<and> v \<le> 102 then Some (v - 87)
     else if 65 \<le> v \<and> v \<le> 70 then Some (v - 55)
     else None)"

fun digits_value :: "nat \<Rightarrow> (byte \<Rightarrow> nat option) \<Rightarrow> nat \<Rightarrow> bytes \<Rightarrow> nat option" where
  "digits_value base dv acc [] = Some acc"
| "digits_value base dv acc (c # cs) =
     (case dv c of None \<Rightarrow> None | Some d \<Rightarrow> digits_value base dv (acc * base + d) cs)"

definition parse_uint :: "nat \<Rightarrow> (byte \<Rightarrow> nat option) \<Rightarrow> bytes \<Rightarrow> nat option" where
  "parse_uint base dv s =
     (if s = [] then None
      else case digits_value base dv 0 s of
        None \<Rightarrow> None
      | Some n \<Rightarrow> if n < 18446744073709551616 then Some n else None)"

definition parse_uint16 :: "bytes \<Rightarrow> nat option" where
  "parse_uint16 s = parse_uint 16 hex_val s"

definition parse_int10 :: "bytes \<Rightarrow> int option" where
  "parse_int10 s =
     (case s of
        [] \<Rightarrow> None
      | c # cs \<Rightarrow>
          (let neg = (c = CHR ''-'');
               digits = (if c = CHR ''+'' \<or> c = CHR ''-'' then cs else s)
           in case parse_uint 10 dec_val digits of
                None \<Rightarrow> None
              | Some n \<Rightarrow>
                  if \<not> neg \<and> 9223372036854775808 \<le> n then None
                  else if neg \<and> 9223372036854775808 < n then None
                  else Some (if neg then - int n else int n)))"

lemma parse_int10_in_i64: "parse_int10 s = Some v \<Longrightarrow> in_i64 v"
  by (auto simp: parse_int10_def in_i64_def min_i64_def max_i64_def Let_def
      split: list.splits option.splits if_splits)

section \<open>UTF-8\<close>

text \<open>
  \<open>utf8.Valid\<close>: the well-formed byte sequences of the Unicode standard (no overlong
  forms, no surrogates, nothing above U+10FFFF).
\<close>

definition in_range :: "nat \<Rightarrow> nat \<Rightarrow> byte \<Rightarrow> bool" where
  "in_range lo hi b \<longleftrightarrow> lo \<le> byte_val b \<and> byte_val b \<le> hi"

definition utf8_head2 :: "byte \<Rightarrow> bool" where
  "utf8_head2 b = in_range 0xC2 0xDF b"

definition utf8_head3 :: "byte \<Rightarrow> byte \<Rightarrow> bool" where
  "utf8_head3 b c =
     (byte_val b = 0xE0 \<and> in_range 0xA0 0xBF c
      \<or> (in_range 0xE1 0xEC b \<or> in_range 0xEE 0xEF b) \<and> in_range 0x80 0xBF c
      \<or> byte_val b = 0xED \<and> in_range 0x80 0x9F c)"

definition utf8_head4 :: "byte \<Rightarrow> byte \<Rightarrow> bool" where
  "utf8_head4 b c =
     (byte_val b = 0xF0 \<and> in_range 0x90 0xBF c
      \<or> in_range 0xF1 0xF3 b \<and> in_range 0x80 0xBF c
      \<or> byte_val b = 0xF4 \<and> in_range 0x80 0x8F c)"

definition utf8_step :: "bytes \<Rightarrow> bytes option" where
  "utf8_step s =
     (case s of
        [] \<Rightarrow> None
      | b # r \<Rightarrow>
          if byte_val b < 0x80 then Some r
          else case r of
            [] \<Rightarrow> None
          | c # r2 \<Rightarrow>
              if utf8_head2 b then (if in_range 0x80 0xBF c then Some r2 else None)
              else case r2 of
                [] \<Rightarrow> None
              | d # r3 \<Rightarrow>
                  if utf8_head3 b c then (if in_range 0x80 0xBF d then Some r3 else None)
                  else case r3 of
                    [] \<Rightarrow> None
                  | e # r4 \<Rightarrow>
                      if utf8_head4 b c \<and> in_range 0x80 0xBF d \<and> in_range 0x80 0xBF e
                      then Some r4 else None)"

lemma utf8_step_shorter: "utf8_step s = Some r \<Longrightarrow> length r < length s"
  by (auto simp: utf8_step_def split: list.splits if_splits)

function utf8_valid :: "bytes \<Rightarrow> bool" where
  "utf8_valid s =
     (case s of [] \<Rightarrow> True
      | _ \<Rightarrow> (case utf8_step s of None \<Rightarrow> False | Some r \<Rightarrow> utf8_valid r))"
  by pat_completeness auto
termination
  by (relation "measure length") (auto dest: utf8_step_shorter)

declare utf8_valid.simps [simp del]

lemma utf8_valid_ascii: "\<forall>b\<in>set s. byte_val b < 128 \<Longrightarrow> utf8_valid s"
proof (induction s)
  case Nil
  then show ?case by (simp add: utf8_valid.simps)
next
  case (Cons b s)
  then have "utf8_step (b # s) = Some s" by (simp add: utf8_step_def)
  with Cons show ?case by (subst utf8_valid.simps) simp
qed

end
