(* ===== verification/Hex_Ids.thy ===== *)
theory Hex_Ids
  imports Go_Bytes
begin

text \<open>
  Identifiers (\<open>util.go\<close>, \<open>catalog.go\<close>, \<open>cache.go\<close>, \<open>store.go\<close>): the hex form of action
  and output digests that gocachez uses for file names, the raw form the catalog stores,
  the shard of an output, the witness tag of an entry, and the recognition of an output ID
  in the name of a live file.
\<close>

section \<open>encoding/hex\<close>

definition hex_digit :: "nat \<Rightarrow> byte" where
  "hex_digit n = (''0123456789abcdef'' ! n)"

definition hex_encode :: "bytes \<Rightarrow> bytes" where
  "hex_encode b = concat (map (\<lambda>c. [hex_digit (byte_val c div 16), hex_digit (byte_val c mod 16)]) b)"

fun hex_decode :: "bytes \<Rightarrow> bytes option" where
  "hex_decode [] = Some []"
| "hex_decode [c] = None"
| "hex_decode (c # d # s) =
     (case hex_val c of
        None \<Rightarrow> None
      | Some h \<Rightarrow>
          (case hex_val d of
             None \<Rightarrow> None
           | Some l \<Rightarrow> map_option (\<lambda>r. mk_byte (16 * h + l) # r) (hex_decode s)))"

lemma hex_digit_table:
  "list_all (\<lambda>n. hex_val (hex_digit n) = Some n \<and> hex_digit n \<noteq> CHR ''-'') [0..<16]"
  by (simp add: upt_rec hex_val_def hex_digit_def byte_val_def)

lemma hex_val_digit [simp]: "n < 16 \<Longrightarrow> hex_val (hex_digit n) = Some n"
  using hex_digit_table by (auto simp: list_all_iff)

lemma hex_digit_not_dash: "n < 16 \<Longrightarrow> hex_digit n \<noteq> CHR ''-''"
  using hex_digit_table by (auto simp: list_all_iff)

lemma hex_decode_encode [simp]: "hex_decode (hex_encode b) = Some b"
proof (induction b)
  case Nil
  then show ?case by (simp add: hex_encode_def)
next
  case (Cons c b)
  have "byte_val c div 16 < 16" using byte_val_less [of c] by linarith
  moreover have "mk_byte (16 * (byte_val c div 16) + byte_val c mod 16) = c"
    by simp
  ultimately show ?case using Cons by (simp add: hex_encode_def)
qed

lemma hex_encode_inject [simp]: "hex_encode a = hex_encode b \<longleftrightarrow> a = b"
  by (metis hex_decode_encode option.inject)

lemma length_hex_encode [simp]: "length (hex_encode b) = 2 * length b"
  by (induction b) (auto simp: hex_encode_def)

lemma hex_encode_Nil [simp]: "hex_encode [] = []"
  by (simp add: hex_encode_def)

lemma hex_encode_Cons:
  "hex_encode (c # b) = hex_digit (byte_val c div 16) # hex_digit (byte_val c mod 16) # hex_encode b"
  by (simp add: hex_encode_def)

lemma hex_encode_no_dash: "CHR ''-'' \<notin> set (hex_encode b)"
proof (induction b)
  case Nil
  then show ?case by simp
next
  case (Cons c b)
  have "byte_val c div 16 < 16" using byte_val_less [of c] by linarith
  then show ?case
    using Cons hex_digit_not_dash [of "byte_val c div 16"] hex_digit_not_dash [of "byte_val c mod 16"]
    by (auto simp: hex_encode_Cons)
qed

section \<open>Keys and tags\<close>

text \<open>\<open>idHex\<close>: an absent identifier is an error, every other one is hex encoded.\<close>

definition idHex :: "string \<Rightarrow> bytes \<Rightarrow> err + bytes" where
  "idHex name ident =
     (if length ident = 0 then Inl (Msg (''missing '' @ name)) else Inr (hex_encode ident))"

text \<open>
  \<open>idKey\<close> panics on a string that is not hex: \<open>None\<close> is the panic.
\<close>

definition idKey :: "bytes \<Rightarrow> bytes option" where
  "idKey hexID = hex_decode hexID"

definition outputTagLen :: nat where
  "outputTagLen = 4"

definition outputTag :: "bytes \<Rightarrow> bytes" where
  "outputTag outputKey = take (min outputTagLen (length outputKey)) outputKey"

lemma idKey_hex_encode [simp]: "idKey (hex_encode b) = Some b"
  by (simp add: idKey_def)

lemma idHex_InrD: "idHex n b = Inr h \<Longrightarrow> b \<noteq> [] \<and> h = hex_encode b \<and> idKey h = Some b"
  by (auto simp: idHex_def split: if_splits)

section \<open>Shards\<close>

definition outputShard :: "bytes \<Rightarrow> bytes" where
  "outputShard outputHex = (if length outputHex < 2 then ''xx'' else take 2 outputHex)"

text \<open>\<open>fmt.Sprintf("%02x", shard)\<close> for a shard number below 256.\<close>

definition shardPrefix :: "nat \<Rightarrow> bytes" where
  "shardPrefix shard = [hex_digit (shard div 16), hex_digit (shard mod 16)]"

definition lastOutputShard :: nat where
  "lastOutputShard = 255"

text \<open>
  \<open>liveShardName\<close>: the last two characters of a run's name.
\<close>

definition liveShardName :: "bytes \<Rightarrow> bytes" where
  "liveShardName runID = (if length runID < 2 then ''00'' else drop (length runID - 2) runID)"

lemma outputShard_hex:
  "b \<noteq> [] \<Longrightarrow> outputShard (hex_encode b) = shardPrefix (byte_val (hd b))"
  by (cases b) (auto simp: outputShard_def shardPrefix_def hex_encode_Cons)

lemma shardPrefix_inject:
  assumes "i < 256" "j < 256" "shardPrefix i = shardPrefix j"
  shows "i = j"
proof -
  have bounds: "i div 16 < 16" "j div 16 < 16" using assms(1,2) by linarith+
  from assms(3) have "hex_digit (i div 16) = hex_digit (j div 16)"
    "hex_digit (i mod 16) = hex_digit (j mod 16)"
    by (simp_all add: shardPrefix_def)
  then have "i div 16 = j div 16" "i mod 16 = j mod 16"
    using bounds hex_val_digit by (metis option.inject, metis mod_less_divisor option.inject zero_less_numeral hex_val_digit)
  then show ?thesis by (metis div_mult_mod_eq)
qed

section \<open>Output IDs in live file names\<close>

text \<open>
  \<open>liveOutputID\<close> on the base name of a path: the part before the first dash, if it is the
  lower-case hex encoding of some digest; the empty string otherwise.
\<close>

definition liveOutputID :: "bytes \<Rightarrow> bytes" where
  "liveOutputID base =
     (let (outputID, rest, ok) = cut_byte (CHR ''-'') base
      in if \<not> ok then []
         else case hex_decode outputID of
           None \<Rightarrow> []
         | Some decoded \<Rightarrow> if hex_encode decoded \<noteq> outputID then [] else outputID)"

lemma liveOutputID_live_name:
  "liveOutputID (hex_encode b @ CHR ''-'' # suffix) = hex_encode b"
  by (simp add: liveOutputID_def cut_byte_append [OF hex_encode_no_dash])

lemma liveOutputID_nonempty:
  assumes "liveOutputID base = h" "h \<noteq> []"
  shows "\<exists>b suffix. base = h @ CHR ''-'' # suffix \<and> h = hex_encode b"
proof -
  obtain p r ok where cut: "cut_byte (CHR ''-'') base = (p, r, ok)" by (metis prod_cases3)
  from assms cut obtain b where "ok" and h: "h = p" and b: "hex_encode b = p"
    by (auto simp: liveOutputID_def split: if_splits option.splits)
  from \<open>ok\<close> cut have "CHR ''-'' \<in> set base" by (simp add: cut_byte_def)
  from cut_byte_found [OF this] cut h b show ?thesis by auto
qed

end
