(* ===== verification/Tables.thy ===== *)
theory Tables
  imports Hex_Ids
begin

text \<open>
  The catalog's tables (\<open>catalogSchema\<close> in \<open>store.go\<close>) and the meaning of the SQL
  statements of \<open>catalog.go\<close> on them. A table is the list of its rows in rowid (or
  insertion) order; keys are raw digests. \<open>out_seq\<close> is the AUTOINCREMENT counter of
  \<open>sqlite_sequence\<close>: the largest id ever handed out.
\<close>

record output_row =
  out_id :: int
  out_key :: bytes
  out_size :: int
  out_compressed :: int
  out_accessed :: int
  out_blob_type :: "int option"
  out_blob_version :: "int option"
  out_retained_type :: "int option"
  out_retained_version :: "int option"

record entry_row =
  ent_action :: bytes
  ent_output :: int
  ent_tag :: bytes
  ent_created :: int
  ent_accessed :: int

record run_row =
  run_key :: bytes
  run_path :: "bytes list"
  run_created :: int

record tables =
  outputs :: "output_row list"
  entries :: "entry_row list"
  runs :: "run_row list"
  out_seq :: int
  user_version :: int

definition cacheSchemaVersion :: int where
  "cacheSchemaVersion = 2"

text \<open>What \<open>catalogSchema\<close> creates in an empty database.\<close>

definition empty_tables :: tables where
  "empty_tables = \<lparr>outputs = [], entries = [], runs = [], out_seq = 0, user_version = 0\<rparr>"

section \<open>Row access\<close>

definition find_output :: "bytes \<Rightarrow> tables \<Rightarrow> output_row option" where
  "find_output key d = find (\<lambda>r. out_key r = key) (outputs d)"

definition find_output_id :: "int \<Rightarrow> tables \<Rightarrow> output_row option" where
  "find_output_id i d = find (\<lambda>r. out_id r = i) (outputs d)"

definition find_entry :: "bytes \<Rightarrow> tables \<Rightarrow> entry_row option" where
  "find_entry key d = find (\<lambda>r. ent_action r = key) (entries d)"

definition map_where :: "('r \<Rightarrow> bool) \<Rightarrow> ('r \<Rightarrow> 'r) \<Rightarrow> 'r list \<Rightarrow> 'r list" where
  "map_where P f rs = map (\<lambda>r. if P r then f r else r) rs"

section \<open>Statements\<close>

text \<open>
  \<open>upsertOutputSQL\<close>, with its \<open>RETURNING id\<close>. A row with the same digest keeps its id and
  its classifications; a new one takes the next id. \<open>None\<close> is SQLITE_FULL: the ids are
  exhausted.
\<close>

definition sql_upsert_output ::
    "bytes \<Rightarrow> int \<Rightarrow> int \<Rightarrow> int \<Rightarrow> tables \<Rightarrow> (int \<times> tables) option" where
  "sql_upsert_output key sz csize at d =
     (case find_output key d of
        Some r \<Rightarrow>
          Some (out_id r, d\<lparr>outputs := map_where (\<lambda>r. out_key r = key)
             (\<lambda>r. r\<lparr>out_size := sz, out_compressed := csize, out_accessed := at\<rparr>) (outputs d)\<rparr>)
      | None \<Rightarrow>
          if out_seq d = max_i64 then None
          else
            let i = out_seq d + 1
            in Some (i, d\<lparr>outputs := outputs d @
                 [\<lparr>out_id = i, out_key = key, out_size = sz, out_compressed = csize,
                   out_accessed = at, out_blob_type = None, out_blob_version = None,
                   out_retained_type = None, out_retained_version = None\<rparr>],
                 out_seq := i\<rparr>))"

text \<open>\<open>upsertEntrySQL\<close>.\<close>

definition sql_upsert_entry ::
    "bytes \<Rightarrow> int \<Rightarrow> bytes \<Rightarrow> int \<Rightarrow> int \<Rightarrow> tables \<Rightarrow> tables" where
  "sql_upsert_entry key out tag created at d =
     (case find_entry key d of
        Some r \<Rightarrow>
          d\<lparr>entries := map_where (\<lambda>r. ent_action r = key)
             (\<lambda>r. r\<lparr>ent_output := out, ent_tag := tag, ent_created := created, ent_accessed := at\<rparr>)
             (entries d)\<rparr>
      | None \<Rightarrow>
          d\<lparr>entries := entries d @
             [\<lparr>ent_action = key, ent_output = out, ent_tag = tag, ent_created = created,
               ent_accessed = at\<rparr>]\<rparr>)"

text \<open>\<open>lookupEntrySQL\<close>: the join of an entry with the output its interned id names.\<close>

definition sql_lookup_entry :: "bytes \<Rightarrow> tables \<Rightarrow> (bytes \<times> int \<times> int \<times> bytes) option" where
  "sql_lookup_entry key d =
     (case find_entry key d of
        None \<Rightarrow> None
      | Some e \<Rightarrow>
          (case find_output_id (ent_output e) d of
             None \<Rightarrow> None
           | Some o' \<Rightarrow> Some (out_key o', out_size o', ent_created e, ent_tag e)))"

text \<open>\<open>touchEntrySQL\<close> and \<open>touchOutputSQL\<close>.\<close>

definition sql_touch_entry :: "int \<Rightarrow> bytes \<Rightarrow> tables \<Rightarrow> tables" where
  "sql_touch_entry at key d =
     d\<lparr>entries := map_where (\<lambda>r. ent_action r = key) (\<lambda>r. r\<lparr>ent_accessed := at\<rparr>) (entries d)\<rparr>"

definition sql_touch_output :: "int \<Rightarrow> bytes \<Rightarrow> tables \<Rightarrow> tables" where
  "sql_touch_output at key d =
     d\<lparr>outputs := map_where (\<lambda>r. out_key r = key) (\<lambda>r. r\<lparr>out_accessed := at\<rparr>) (outputs d)\<rparr>"

text \<open>The deletions. Each returns the tables and, where the code reads it, \<open>RowsAffected\<close>.\<close>

definition sql_delete_action :: "bytes \<Rightarrow> tables \<Rightarrow> tables" where
  "sql_delete_action key d = d\<lparr>entries := filter (\<lambda>r. ent_action r \<noteq> key) (entries d)\<rparr>"

definition sql_delete_output :: "bytes \<Rightarrow> tables \<Rightarrow> tables" where
  "sql_delete_output key d = d\<lparr>outputs := filter (\<lambda>r. out_key r \<noteq> key) (outputs d)\<rparr>"

definition sql_evict_output :: "bytes \<Rightarrow> int \<Rightarrow> tables \<Rightarrow> nat \<times> tables" where
  "sql_evict_output key at d =
     (length (filter (\<lambda>r. out_key r = key \<and> out_accessed r \<le> at) (outputs d)),
      d\<lparr>outputs := filter (\<lambda>r. \<not> (out_key r = key \<and> out_accessed r \<le> at)) (outputs d)\<rparr>)"

definition sql_delete_stale_entry :: "int \<Rightarrow> bytes \<Rightarrow> tables \<Rightarrow> nat \<times> tables" where
  "sql_delete_stale_entry cutoff key d =
     (length (filter (\<lambda>r. ent_action r = key \<and> ent_accessed r < cutoff) (entries d)),
      d\<lparr>entries := filter (\<lambda>r. \<not> (ent_action r = key \<and> ent_accessed r < cutoff)) (entries d)\<rparr>)"

definition sql_delete_stale_output :: "int \<Rightarrow> bytes \<Rightarrow> tables \<Rightarrow> nat \<times> tables" where
  "sql_delete_stale_output cutoff key d =
     (length (filter (\<lambda>r. out_key r = key \<and> out_accessed r < cutoff) (outputs d)),
      d\<lparr>outputs := filter (\<lambda>r. \<not> (out_key r = key \<and> out_accessed r < cutoff)) (outputs d)\<rparr>)"

text \<open>The batch selections of the age pass and of eviction.\<close>

definition sql_stale_actions :: "int \<Rightarrow> bytes \<Rightarrow> nat \<Rightarrow> tables \<Rightarrow> bytes list" where
  "sql_stale_actions cutoff after lim d =
     take lim (sort (map ent_action
       (filter (\<lambda>r. ent_accessed r < cutoff \<and> after < ent_action r) (entries d))))"

definition sql_stale_outputs :: "int \<Rightarrow> nat \<Rightarrow> tables \<Rightarrow> bytes list" where
  "sql_stale_outputs cutoff lim d =
     map out_key (take lim (sort_key out_accessed (filter (\<lambda>r. out_accessed r < cutoff) (outputs d))))"

type_synonym cursor = "int \<times> int \<times> int"

definition row_cursor :: "output_row \<Rightarrow> cursor" where
  "row_cursor r = (out_accessed r, out_compressed r, out_id r)"

definition cursor_less :: "cursor \<Rightarrow> cursor \<Rightarrow> bool" where
  "cursor_less a b =
     (case a of (a1, a2, a3) \<Rightarrow> case b of (b1, b2, b3) \<Rightarrow>
        a1 < b1 \<or> a1 = b1 \<and> (a2 < b2 \<or> a2 = b2 \<and> a3 < b3))"

text \<open>
  Insertion by the cursor order: the meaning of \<open>ORDER BY accessed_at, compressed_size, id\<close>.
\<close>

fun insert_row :: "output_row \<Rightarrow> output_row list \<Rightarrow> output_row list" where
  "insert_row r [] = [r]"
| "insert_row r (s # ss) =
     (if cursor_less (row_cursor s) (row_cursor r) then s # insert_row r ss else r # s # ss)"

definition sort_rows :: "output_row list \<Rightarrow> output_row list" where
  "sort_rows rs = foldr insert_row rs []"

definition sql_eviction_page :: "cursor \<Rightarrow> nat \<Rightarrow> tables \<Rightarrow> output_row list" where
  "sql_eviction_page after lim d =
     take lim (sort_rows (filter (\<lambda>r. cursor_less after (row_cursor r)) (outputs d)))"

text \<open>Aggregates. SQLite's integer SUM fails on 64-bit overflow; \<open>None\<close> is that failure.\<close>

definition sql_sum :: "int list \<Rightarrow> int option" where
  "sql_sum xs = (if in_i64 (sum_list xs) then Some (sum_list xs) else None)"

text \<open>
  \<open>referencedOutputsSQL\<close> and its tail form, as conditions on a row.
\<close>

definition sql_shard_outputs :: "bytes \<Rightarrow> bytes \<Rightarrow> int \<Rightarrow> tables \<Rightarrow> bytes list" where
  "sql_shard_outputs lo hi minAt d =
     map out_key (filter (\<lambda>r. lo \<le> out_key r \<and> out_key r < hi \<and> minAt \<le> out_accessed r) (outputs d))"

definition sql_shard_outputs_tail :: "bytes \<Rightarrow> int \<Rightarrow> tables \<Rightarrow> bytes list" where
  "sql_shard_outputs_tail lo minAt d =
     map out_key (filter (\<lambda>r. lo \<le> out_key r \<and> minAt \<le> out_accessed r) (outputs d))"

definition sql_update_blob_type :: "int \<Rightarrow> int \<Rightarrow> bytes \<Rightarrow> tables \<Rightarrow> tables" where
  "sql_update_blob_type kind version key d =
     d\<lparr>outputs := map_where (\<lambda>r. out_key r = key)
        (\<lambda>r. r\<lparr>out_blob_type := Some kind, out_blob_version := Some version\<rparr>) (outputs d)\<rparr>"

definition sql_update_retained_type :: "int \<Rightarrow> int \<Rightarrow> bytes \<Rightarrow> tables \<Rightarrow> tables" where
  "sql_update_retained_type kind version key d =
     d\<lparr>outputs := map_where (\<lambda>r. out_key r = key)
        (\<lambda>r. r\<lparr>out_retained_type := Some kind, out_retained_version := Some version\<rparr>) (outputs d)\<rparr>"

text \<open>\<open>INSERT OR REPLACE INTO runs\<close>, and the deletion and listings of runs.\<close>

definition sql_register_run :: "bytes \<Rightarrow> bytes list \<Rightarrow> int \<Rightarrow> tables \<Rightarrow> tables" where
  "sql_register_run key path created d =
     d\<lparr>runs := filter (\<lambda>r. run_key r \<noteq> key) (runs d)
                @ [\<lparr>run_key = key, run_path = path, run_created = created\<rparr>]\<rparr>"

definition sql_delete_run :: "bytes \<Rightarrow> tables \<Rightarrow> tables" where
  "sql_delete_run key d = d\<lparr>runs := filter (\<lambda>r. run_key r \<noteq> key) (runs d)\<rparr>"

section \<open>Well-formed catalogs\<close>

text \<open>
  The constraints of the schema (UNIQUE and PRIMARY KEY columns), and what AUTOINCREMENT
  keeps: every id in use was handed out, and every entry names an id that was handed out.
\<close>

definition wf_tables :: "tables \<Rightarrow> bool" where
  "wf_tables d \<longleftrightarrow>
     distinct (map out_key (outputs d)) \<and> distinct (map out_id (outputs d)) \<and>
     distinct (map ent_action (entries d)) \<and>
     (\<forall>r\<in>set (outputs d). 1 \<le> out_id r \<and> out_id r \<le> out_seq d) \<and>
     (\<forall>e\<in>set (entries d). 1 \<le> ent_output e \<and> ent_output e \<le> out_seq d) \<and>
     0 \<le> out_seq d \<and> out_seq d \<le> max_i64"

text \<open>An entry that still resolves resolves to the output whose tag it carries.\<close>

definition tags_agree :: "tables \<Rightarrow> bool" where
  "tags_agree d \<longleftrightarrow>
     (\<forall>e\<in>set (entries d). \<forall>r\<in>set (outputs d). ent_output e = out_id r \<longrightarrow> ent_tag e = outputTag (out_key r))"

lemma wf_empty_tables: "wf_tables empty_tables \<and> tags_agree empty_tables"
  by (simp add: wf_tables_def tags_agree_def empty_tables_def max_i64_def)

lemma map_map_where [db_simps]: "(\<And>r. g (f r) = g r) \<Longrightarrow> map g (map_where P f rs) = map g rs"
  by (simp add: map_where_def)

lemma set_map_where: "set (map_where P f rs) = (\<lambda>r. if P r then f r else r) ` set rs"
  by (simp add: map_where_def)

lemma find_map_where:
  "(\<And>r. g (f r) = g r) \<Longrightarrow>
    find (\<lambda>r. g r = k) (map_where P f rs) =
      map_option (\<lambda>r. if P r then f r else r) (find (\<lambda>r. g r = k) rs)"
  by (induction rs) (auto simp: map_where_def)

lemma find_filter_other:
  "(\<And>r. r \<in> set rs \<Longrightarrow> g r = k \<Longrightarrow> P r) \<Longrightarrow>
    find (\<lambda>r. g r = k) (filter P rs) = find (\<lambda>r. g r = k) rs"
  by (induction rs) auto

lemma find_append:
  "find P (xs @ ys) = (case find P xs of None \<Rightarrow> find P ys | Some x \<Rightarrow> Some x)"
  by (induction xs) auto

lemma distinct_map_filterI: "distinct (map f xs) \<Longrightarrow> distinct (map f (filter P xs))"
  by (rule distinct_map_filter)

lemma find_output_SomeD: "find_output k d = Some r \<Longrightarrow> r \<in> set (outputs d) \<and> out_key r = k"
  unfolding find_output_def by (rule find_Some_key)

lemma find_output_id_SomeD: "find_output_id i d = Some r \<Longrightarrow> r \<in> set (outputs d) \<and> out_id r = i"
  unfolding find_output_id_def by (rule find_Some_key)

lemma find_entry_SomeD: "find_entry k d = Some e \<Longrightarrow> e \<in> set (entries d) \<and> ent_action e = k"
  unfolding find_entry_def by (rule find_Some_key)

lemma find_output_None: "find_output k d = None \<longleftrightarrow> k \<notin> out_key ` set (outputs d)"
  unfolding find_output_def by (rule find_None_key)

lemma find_entry_None: "find_entry k d = None \<longleftrightarrow> k \<notin> ent_action ` set (entries d)"
  unfolding find_entry_def by (rule find_None_key)

end
