(* ===== verification/World.thy ===== *)
theory World
  imports Tables "HOL-Library.AList" "HOL-Library.Sublist"
begin

text \<open>
  The world gocachez acts on and the effects it uses: a file system with hard links, the
  catalog database, file locks, the clock, random names, and the store's in-memory maps.
  The effects are those of Go's \<open>os\<close> and \<open>path/filepath\<close>, of \<open>database/sql\<close> transactions
  and of the file locks; the components are programs over them. Every effect may fail:
  \<open>fault\<close> is an arbitrary plan of failures, consulted once per effect.
\<close>

section \<open>State\<close>

text \<open>
  A path is the list of its components, so \<open>filepath.Join\<close> is append, \<open>filepath.Base\<close> is
  \<open>last\<close> and \<open>filepath.Dir\<close> is \<open>butlast\<close>. Files are inodes so that hard links share data
  and modification time. Times are nanoseconds.
\<close>

type_synonym path = "bytes list"

datatype node = DirN | FileN nat | OtherN

record inode =
  ino_data :: bytes
  ino_mtime :: int

record failure =
  flt_code :: int
  flt_text :: string
  flt_applied :: bool

text \<open>The mutable fields of \<open>store\<close>: the maps guarded by \<open>st.mu\<close> and the atomic counter.\<close>

record store_mem =
  materialized :: "(bytes \<times> path) list"
  accessed :: "(bytes \<times> int) list"
  accessedOutputs :: "(bytes \<times> int) list"
  accessFlushed :: int
  installed :: int
  stripeDirOnce :: "err option option"

record world =
  nodes :: "(path \<times> node) list"
  inodes :: "nat \<Rightarrow> inode"
  next_ino :: nat
  db :: tables
  held :: "path list"
  busy :: "path \<Rightarrow> bool"
  clock :: "nat \<Rightarrow> int"
  rand :: "nat \<Rightarrow> bytes"
  fault :: "nat \<Rightarrow> failure option"
  ticks :: nat
  mem :: store_mem

type_synonym 'a io = "world \<Rightarrow> (err + 'a) \<times> world"

section \<open>Sequencing\<close>

text \<open>
  \<open>bindE\<close> is \<open>x, err := m; if err != nil { return err }; ...\<close>, \<open>wrapE\<close> the same with
  \<open>fmt.Errorf("msg: %w", err)\<close>, \<open>ignoreE\<close> is \<open>_ = m\<close>, \<open>tryE\<close> keeps the error as a value,
  and \<open>finallyE\<close> runs a deferred call whose error is dropped.
\<close>

definition returnE :: "'a \<Rightarrow> 'a io" where
  "returnE x w = (Inr x, w)"

definition failE :: "err \<Rightarrow> 'a io" where
  "failE e w = (Inl e, w)"

definition bindE :: "'a io \<Rightarrow> ('a \<Rightarrow> 'b io) \<Rightarrow> 'b io" where
  "bindE m f w = (case m w of (Inl e, w') \<Rightarrow> (Inl e, w') | (Inr x, w') \<Rightarrow> f x w')"

definition wrapE :: "string \<Rightarrow> 'a io \<Rightarrow> 'a io" where
  "wrapE msg m w = (case m w of (Inl e, w') \<Rightarrow> (Inl (Wrap msg [e]), w') | (Inr x, w') \<Rightarrow> (Inr x, w'))"

definition ignoreE :: "'a io \<Rightarrow> unit io" where
  "ignoreE m w = (Inr (), snd (m w))"

definition tryE :: "'a io \<Rightarrow> (err + 'a) io" where
  "tryE m w = (case m w of (r, w') \<Rightarrow> (Inr r, w'))"

definition finallyE :: "'a io \<Rightarrow> 'b io \<Rightarrow> 'a io" where
  "finallyE m c w = (case m w of (r, w') \<Rightarrow> (r, snd (c w')))"

text \<open>\<open>recoverE\<close> handles an error: its handler sees the error and decides the result.\<close>

definition recoverE :: "'a io \<Rightarrow> (err \<Rightarrow> 'a io) \<Rightarrow> 'a io" where
  "recoverE m h w = (case m w of (Inl e, w') \<Rightarrow> h e w' | (Inr x, w') \<Rightarrow> (Inr x, w'))"

definition whenE :: "bool \<Rightarrow> unit io \<Rightarrow> unit io" where
  "whenE b m = (if b then m else returnE ())"

definition getE :: "(world \<Rightarrow> 'a) \<Rightarrow> 'a io" where
  "getE f w = (Inr (f w), w)"

definition liftE :: "err + 'a \<Rightarrow> 'a io" where
  "liftE r w = (r, w)"

fun forE :: "'a list \<Rightarrow> ('a \<Rightarrow> unit io) \<Rightarrow> unit io" where
  "forE [] f = returnE ()"
| "forE (x # xs) f = bindE (f x) (\<lambda>_. forE xs f)"

text \<open>Returning an error if there is one: the end of \<open>return err\<close>.\<close>

definition returnErr :: "err option \<Rightarrow> unit io" where
  "returnErr e w = (case e of None \<Rightarrow> (Inr (), w) | Some x \<Rightarrow> (Inl x, w))"

section \<open>Effects\<close>

text \<open>One effect: either the planned failure, with nothing changed, or the action.\<close>

definition effect :: "(failure \<Rightarrow> err) \<Rightarrow> 'a io \<Rightarrow> 'a io" where
  "effect mk f w =
     (let w' = w\<lparr>ticks := Suc (ticks w)\<rparr>
      in case fault w (ticks w) of Some x \<Rightarrow> (Inl (mk x), w') | None \<Rightarrow> f w')"

definition sys :: "'a io \<Rightarrow> 'a io" where
  "sys f = effect (\<lambda>x. SysErr (flt_text x)) f"

text \<open>\<open>time.Now()\<close> in nanoseconds, \<open>unixMillis\<close>, \<open>millisTime\<close> and \<open>now.Sub(t)\<close> (it saturates).\<close>

definition time_now :: "int io" where
  "time_now w = (Inr (clock w (ticks w)), w\<lparr>ticks := Suc (ticks w)\<rparr>)"

definition unixMillis :: "int \<Rightarrow> int" where
  "unixMillis t = i64 t sdiv 1000000"

definition millisTime :: "int \<Rightarrow> int" where
  "millisTime ms = ms * 1000000"

definition time_sub :: "int \<Rightarrow> int \<Rightarrow> int" where
  "time_sub a b = max min_i64 (min max_i64 (a - b))"

subsection \<open>Files\<close>

definition node_at :: "world \<Rightarrow> path \<Rightarrow> node option" where
  "node_at w p = (if p = [] then Some DirN else map_of (nodes w) p)"

definition is_dir :: "world \<Rightarrow> path \<Rightarrow> bool" where
  "is_dir w p \<longleftrightarrow> node_at w p = Some DirN"

definition set_node :: "path \<Rightarrow> node \<Rightarrow> world \<Rightarrow> world" where
  "set_node p n w = w\<lparr>nodes := AList.update p n (nodes w)\<rparr>"

definition del_node :: "path \<Rightarrow> world \<Rightarrow> world" where
  "del_node p w = w\<lparr>nodes := AList.delete p (nodes w)\<rparr>"

definition file_inode :: "world \<Rightarrow> path \<Rightarrow> inode option" where
  "file_inode w p = (case node_at w p of Some (FileN i) \<Rightarrow> Some (inodes w i) | _ \<Rightarrow> None)"

definition new_file :: "path \<Rightarrow> world \<Rightarrow> nat \<times> world" where
  "new_file p w =
     (let i = next_ino w
      in (i, set_node p (FileN i)
               (w\<lparr>inodes := (inodes w)(i := \<lparr>ino_data = [], ino_mtime = clock w (ticks w)\<rparr>),
                  next_ino := Suc i\<rparr>)))"

text \<open>The strict descendants of a directory, in the order \<open>filepath.WalkDir\<close> visits them.\<close>

definition subtree :: "world \<Rightarrow> path \<Rightarrow> path list" where
  "subtree w root = sort (filter (\<lambda>p. strict_prefix root p) (remdups (map fst (nodes w))))"

definition children :: "world \<Rightarrow> path \<Rightarrow> path list" where
  "children w root = filter (\<lambda>p. butlast p = root) (subtree w root)"

record file_info =
  fi_dir :: bool
  fi_regular :: bool
  fi_size :: int
  fi_mtime :: int

definition info_of :: "world \<Rightarrow> node \<Rightarrow> file_info" where
  "info_of w n = (case n of
     DirN \<Rightarrow> \<lparr>fi_dir = True, fi_regular = False, fi_size = 0, fi_mtime = 0\<rparr>
   | FileN i \<Rightarrow> \<lparr>fi_dir = False, fi_regular = True, fi_size = int (length (ino_data (inodes w i))),
                 fi_mtime = ino_mtime (inodes w i)\<rparr>
   | OtherN \<Rightarrow> \<lparr>fi_dir = False, fi_regular = False, fi_size = 0, fi_mtime = 0\<rparr>)"

definition os_stat :: "path \<Rightarrow> file_info io" where
  "os_stat p = sys (\<lambda>w. case node_at w p of
     None \<Rightarrow> (Inl ErrNotExist, w) | Some n \<Rightarrow> (Inr (info_of w n), w))"

fun mkdir_chain :: "path \<Rightarrow> path \<Rightarrow> unit io" where
  "mkdir_chain pre [] w = (Inr (), w)"
| "mkdir_chain pre (c # cs) w =
     (case node_at w (pre @ [c]) of
        None \<Rightarrow> mkdir_chain (pre @ [c]) cs (set_node (pre @ [c]) DirN w)
      | Some DirN \<Rightarrow> mkdir_chain (pre @ [c]) cs w
      | Some _ \<Rightarrow> (Inl (SysErr ''not a directory''), w))"

definition os_mkdir_all :: "path \<Rightarrow> unit io" where
  "os_mkdir_all p = sys (mkdir_chain [] p)"

definition os_create :: "path \<Rightarrow> nat io" where
  "os_create p = sys (\<lambda>w.
     if \<not> is_dir w (butlast p) then (Inl ErrNotExist, w)
     else case node_at w p of
       None \<Rightarrow> (case new_file p w of (i, w') \<Rightarrow> (Inr i, w'))
     | Some (FileN i) \<Rightarrow>
         (Inr i, w\<lparr>inodes := (inodes w)(i := \<lparr>ino_data = [], ino_mtime = clock w (ticks w)\<rparr>)\<rparr>)
     | Some _ \<Rightarrow> (Inl (SysErr ''not a regular file''), w))"

definition os_open :: "path \<Rightarrow> nat io" where
  "os_open p = sys (\<lambda>w. case node_at w p of
     None \<Rightarrow> (Inl ErrNotExist, w)
   | Some (FileN i) \<Rightarrow> (Inr i, w)
   | Some _ \<Rightarrow> (Inl (SysErr ''not a regular file''), w))"

text \<open>A failing write may have written a part: the failure's code says how many bytes.\<close>

definition file_append :: "nat \<Rightarrow> bytes \<Rightarrow> world \<Rightarrow> world" where
  "file_append i bs w =
     w\<lparr>inodes := (inodes w)(i := \<lparr>ino_data = ino_data (inodes w i) @ bs, ino_mtime = clock w (ticks w)\<rparr>)\<rparr>"

definition file_write :: "nat \<Rightarrow> bytes \<Rightarrow> unit io" where
  "file_write i bs w =
     (let w' = w\<lparr>ticks := Suc (ticks w)\<rparr>
      in case fault w (ticks w) of
           Some x \<Rightarrow> (Inl (SysErr (flt_text x)), file_append i (take (nat (flt_code x)) bs) w')
         | None \<Rightarrow> (Inr (), file_append i bs w'))"

definition file_read :: "nat \<Rightarrow> bytes io" where
  "file_read i = sys (\<lambda>w. (Inr (ino_data (inodes w i)), w))"

definition file_close :: "nat \<Rightarrow> unit io" where
  "file_close i = sys (returnE ())"

definition os_remove :: "path \<Rightarrow> unit io" where
  "os_remove p = sys (\<lambda>w. case node_at w p of
     None \<Rightarrow> (Inl ErrNotExist, w)
   | Some DirN \<Rightarrow> if subtree w p = [] then (Inr (), del_node p w) else (Inl (SysErr ''not empty''), w)
   | Some _ \<Rightarrow> (Inr (), del_node p w))"

definition os_remove_all :: "path \<Rightarrow> unit io" where
  "os_remove_all p = sys (\<lambda>w. (Inr (), w\<lparr>nodes := filter (\<lambda>(q, _). \<not> prefix p q) (nodes w)\<rparr>))"

text \<open>
  Renaming moves a whole subtree when the source is a directory, and replaces an existing
  regular file; between two names of one file it does nothing.
\<close>

definition move_path :: "path \<Rightarrow> path \<Rightarrow> path \<Rightarrow> path" where
  "move_path a b q = (if prefix a q then b @ drop (length a) q else q)"

definition os_rename :: "path \<Rightarrow> path \<Rightarrow> unit io" where
  "os_rename a b = sys (\<lambda>w.
     case node_at w a of
       None \<Rightarrow> (Inl ErrNotExist, w)
     | Some n \<Rightarrow>
         if \<not> is_dir w (butlast b) then (Inl ErrNotExist, w)
         else if a = b then (Inr (), w)
         else case (n, node_at w b) of
           (DirN, None) \<Rightarrow>
             (Inr (), w\<lparr>nodes := map (\<lambda>(q, m). (move_path a b q, m)) (nodes w)\<rparr>)
         | (DirN, Some _) \<Rightarrow> (Inl ErrExist, w)
         | (_, Some DirN) \<Rightarrow> (Inl ErrExist, w)
         | (_, m) \<Rightarrow> if m = Some n then (Inr (), w) else (Inr (), set_node b n (del_node a w)))"

definition os_link :: "path \<Rightarrow> path \<Rightarrow> unit io" where
  "os_link a b = sys (\<lambda>w.
     case node_at w a of
       None \<Rightarrow> (Inl ErrNotExist, w)
     | Some DirN \<Rightarrow> (Inl (SysErr ''is a directory''), w)
     | Some n \<Rightarrow>
         if \<not> is_dir w (butlast b) then (Inl ErrNotExist, w)
         else if node_at w b \<noteq> None then (Inl ErrExist, w)
         else (Inr (), set_node b n w))"

definition os_chtimes :: "path \<Rightarrow> int \<Rightarrow> unit io" where
  "os_chtimes p t = sys (\<lambda>w. case node_at w p of
     None \<Rightarrow> (Inl ErrNotExist, w)
   | Some (FileN i) \<Rightarrow> (Inr (), w\<lparr>inodes := (inodes w)(i := (inodes w i)\<lparr>ino_mtime := t\<rparr>)\<rparr>)
   | Some _ \<Rightarrow> (Inr (), w))"

text \<open>
  \<open>os.CreateTemp\<close> and \<open>os.MkdirTemp\<close> try random names until one is free, at most 10000
  times. Which random text the k-th attempt uses is arbitrary: \<open>rand\<close>.
\<close>

definition temp_name :: "path \<Rightarrow> bytes \<Rightarrow> bytes \<Rightarrow> world \<Rightarrow> nat \<Rightarrow> path" where
  "temp_name d pre suf w k = d @ [pre @ rand w (ticks w + k) @ suf]"

function free_temp :: "path \<Rightarrow> bytes \<Rightarrow> bytes \<Rightarrow> world \<Rightarrow> nat \<Rightarrow> path option" where
  "free_temp d pre suf w try =
     (if node_at w (temp_name d pre suf w try) = None then Some (temp_name d pre suf w try)
      else if Suc try < 10000 then free_temp d pre suf w (Suc try)
      else None)"
  by pat_completeness auto
termination
  by (relation "measure (\<lambda>(d, pre, suf, w, try). 10000 - try)") auto

declare free_temp.simps [simp del]

definition os_create_temp :: "path \<Rightarrow> bytes \<Rightarrow> bytes \<Rightarrow> (nat \<times> path) io" where
  "os_create_temp d pre suf = sys (\<lambda>w.
     if \<not> is_dir w d then (Inl ErrNotExist, w)
     else case free_temp d pre suf w 0 of
       None \<Rightarrow> (Inl ErrExist, w)
     | Some p \<Rightarrow> (case new_file p w of (i, w') \<Rightarrow> (Inr (i, p), w')))"

definition os_mkdir_temp :: "path \<Rightarrow> bytes \<Rightarrow> path io" where
  "os_mkdir_temp d pre = sys (\<lambda>w.
     if \<not> is_dir w d then (Inl ErrNotExist, w)
     else case free_temp d pre [] w 0 of
       None \<Rightarrow> (Inl ErrExist, w)
     | Some p \<Rightarrow> (Inr p, set_node p DirN w))"

text \<open>
  \<open>os.ReadDir\<close> lists a directory; \<open>filepath.WalkDir\<close> is the list of the paths it visits
  below an existing root, each with its node.
\<close>

definition os_read_dir :: "path \<Rightarrow> (path \<times> node) list io" where
  "os_read_dir p = sys (\<lambda>w. case node_at w p of
     None \<Rightarrow> (Inl ErrNotExist, w)
   | Some DirN \<Rightarrow> (Inr (map (\<lambda>q. (q, the (node_at w q))) (children w p)), w)
   | Some _ \<Rightarrow> (Inl (SysErr ''not a directory''), w))"

definition walk_dir :: "path \<Rightarrow> (path \<times> node) list io" where
  "walk_dir root = sys (\<lambda>w. case node_at w root of
     None \<Rightarrow> (Inl ErrNotExist, w)
   | Some n \<Rightarrow> (Inr ((root, n) # map (\<lambda>q. (q, the (node_at w q))) (subtree w root)), w))"

definition os_read_file :: "path \<Rightarrow> bytes io" where
  "os_read_file p = bindE (os_open p) file_read"

definition os_write_file :: "path \<Rightarrow> bytes \<Rightarrow> unit io" where
  "os_write_file p bs = bindE (os_create p) (\<lambda>i. bindE (file_write i bs) (\<lambda>_. file_close i))"

subsection \<open>Locks\<close>

text \<open>
  An exclusive file lock. \<open>busy p\<close> says that another process holds the lock on \<open>p\<close> when
  this one tries; \<open>held\<close> are this process's own. Taking a lock creates the lock file
  unless the lock was opened read-only, in which case a missing file is an error. A
  blocking \<open>Lock\<close> returns once the lock is free.
\<close>

definition lock_file :: "bool \<Rightarrow> path \<Rightarrow> unit io" where
  "lock_file create p w =
     (if node_at w p \<noteq> None then (Inr (), w)
      else if \<not> create \<or> \<not> is_dir w (butlast p) then (Inl ErrNotExist, w)
      else (Inr (), snd (new_file p w)))"

definition flock_try :: "bool \<Rightarrow> path \<Rightarrow> bool io" where
  "flock_try create p = sys (bindE (lock_file create p) (\<lambda>_ w.
     if busy w p \<or> p \<in> set (held w) then (Inr False, w)
     else (Inr True, w\<lparr>held := p # held w\<rparr>)))"

definition flock_lock :: "path \<Rightarrow> unit io" where
  "flock_lock p = sys (bindE (lock_file True p) (\<lambda>_ w. (Inr (), w\<lparr>held := p # held w\<rparr>)))"

definition flock_unlock :: "path \<Rightarrow> unit io" where
  "flock_unlock p = sys (\<lambda>w. (Inr (), w\<lparr>held := removeAll p (held w)\<rparr>))"

definition flock_close :: "path \<Rightarrow> unit io" where
  "flock_close p = sys (\<lambda>w. (Inr (), w\<lparr>held := removeAll p (held w)\<rparr>))"

subsection \<open>The database\<close>

definition sql :: "(tables \<Rightarrow> (err + 'a) \<times> tables) \<Rightarrow> 'a io" where
  "sql q = effect (\<lambda>x. SqlErr (flt_code x))
     (\<lambda>w. case q (db w) of (r, d) \<Rightarrow> (r, w\<lparr>db := d\<rparr>))"

definition sql_read :: "(tables \<Rightarrow> 'a) \<Rightarrow> 'a io" where
  "sql_read q = sql (\<lambda>d. (Inr (q d), d))"

definition sql_exec :: "(tables \<Rightarrow> tables) \<Rightarrow> unit io" where
  "sql_exec q = sql (\<lambda>d. (Inr (), q d))"

text \<open>
  Transactions. Beginning one remembers the tables, rolling back restores them. A commit
  that fails has rolled back, unless the failure came after it was applied.
\<close>

definition begin_tx :: "tables io" where
  "begin_tx = sql_read (\<lambda>d. d)"

definition rollback_tx :: "tables \<Rightarrow> unit io" where
  "rollback_tx tx w = (Inr (), w\<lparr>db := tx\<rparr>)"

definition commit_tx :: "tables \<Rightarrow> unit io" where
  "commit_tx tx w =
     (let w' = w\<lparr>ticks := Suc (ticks w)\<rparr>
      in case fault w (ticks w) of
           Some x \<Rightarrow> (Inl (SqlErr (flt_code x)), if flt_applied x then w' else w'\<lparr>db := tx\<rparr>)
         | None \<Rightarrow> (Inr (), w'))"

subsection \<open>The store's memory\<close>

definition modify_mem :: "(store_mem \<Rightarrow> store_mem) \<Rightarrow> unit io" where
  "modify_mem f w = (Inr (), w\<lparr>mem := f (mem w)\<rparr>)"

end
