(* ===== verification/World_Rules.thy ===== *)
theory World_Rules
  imports World
begin

text \<open>
  How programs over the world are reasoned about: inversion of sequenced programs, frames
  (what a program leaves alone), invariants it keeps, and what each effect does.
\<close>

section \<open>Inversion and evaluation\<close>

lemma bindE_eq_Inr:
  "bindE m f w = (Inr y, w') \<longleftrightarrow> (\<exists>x w1. m w = (Inr x, w1) \<and> f x w1 = (Inr y, w'))"
  by (auto simp: bindE_def split: prod.splits sum.splits)

lemma bindE_eq_Inl:
  "bindE m f w = (Inl e, w') \<longleftrightarrow>
     m w = (Inl e, w') \<or> (\<exists>x w1. m w = (Inr x, w1) \<and> f x w1 = (Inl e, w'))"
  by (auto simp: bindE_def split: prod.splits sum.splits)

lemma bindE_Inr: "m w = (Inr x, w1) \<Longrightarrow> bindE m f w = f x w1"
  by (simp add: bindE_def)

lemma bindE_Inl: "m w = (Inl e, w1) \<Longrightarrow> bindE m f w = (Inl e, w1)"
  by (simp add: bindE_def)

lemma wrapE_eq_Inr: "wrapE msg m w = (Inr y, w') \<longleftrightarrow> m w = (Inr y, w')"
  by (auto simp: wrapE_def split: prod.splits sum.splits)

lemma wrapE_eq_Inl: "wrapE msg m w = (Inl e, w') \<longleftrightarrow> (\<exists>x. m w = (Inl x, w') \<and> e = Wrap msg [x])"
  by (auto simp: wrapE_def split: prod.splits sum.splits)

lemma snd_wrapE: "snd (wrapE msg m w) = snd (m w)"
  by (auto simp: wrapE_def split: prod.splits sum.splits)

lemma recoverE_eq_Inr:
  "recoverE m h w = (Inr y, w') \<longleftrightarrow>
     m w = (Inr y, w') \<or> (\<exists>e w1. m w = (Inl e, w1) \<and> h e w1 = (Inr y, w'))"
  by (auto simp: recoverE_def split: prod.splits sum.splits)

lemma recoverE_eq_Inl:
  "recoverE m h w = (Inl e, w') \<longleftrightarrow> (\<exists>e1 w1. m w = (Inl e1, w1) \<and> h e1 w1 = (Inl e, w'))"
  by (auto simp: recoverE_def split: prod.splits sum.splits)

lemma ignoreE_eq: "ignoreE m w = (Inr (), snd (m w))"
  by (simp add: ignoreE_def)

lemma tryE_eq: "tryE m w = (Inr (fst (m w)), snd (m w))"
  by (auto simp: tryE_def split: prod.splits)

lemma finallyE_eq: "finallyE m c w = (fst (m w), snd (c (snd (m w))))"
  by (auto simp: finallyE_def split: prod.splits)

lemma returnE_eq [simp]: "returnE x w = (Inr x, w)"
  by (simp add: returnE_def)

lemma failE_eq [simp]: "failE e w = (Inl e, w)"
  by (simp add: failE_def)

lemma getE_eq [simp]: "getE f w = (Inr (f w), w)"
  by (simp add: getE_def)

lemma liftE_eq [simp]: "liftE r w = (r, w)"
  by (simp add: liftE_def)

lemma whenE_simps [simp]: "whenE True m = m" "whenE False m = returnE ()"
  by (simp_all add: whenE_def)

lemmas inversions = bindE_eq_Inr wrapE_eq_Inr recoverE_eq_Inr ignoreE_eq tryE_eq finallyE_eq

section \<open>Frames and invariants\<close>

text \<open>
  \<open>frame f m\<close>: whatever happens, \<open>m\<close> leaves \<open>f\<close> of the world as it was. \<open>keeps I m\<close>:
  whatever happens, \<open>m\<close> preserves \<open>I\<close>.
\<close>

definition frame :: "(world \<Rightarrow> 'b) \<Rightarrow> 'a io \<Rightarrow> bool" where
  "frame f m \<longleftrightarrow> (\<forall>w. f (snd (m w)) = f w)"

definition keeps :: "(world \<Rightarrow> bool) \<Rightarrow> 'a io \<Rightarrow> bool" where
  "keeps I m \<longleftrightarrow> (\<forall>w. I w \<longrightarrow> I (snd (m w)))"

lemma frameD: "frame f m \<Longrightarrow> f (snd (m w)) = f w"
  by (simp add: frame_def)

lemma frame_eqD: "frame f m \<Longrightarrow> m w = (r, w') \<Longrightarrow> f w' = f w"
  by (metis frame_def snd_conv)

lemma keepsD: "keeps I m \<Longrightarrow> I w \<Longrightarrow> I (snd (m w))"
  by (simp add: keeps_def)

lemma keeps_eqD: "keeps I m \<Longrightarrow> m w = (r, w') \<Longrightarrow> I w \<Longrightarrow> I w'"
  by (metis keeps_def snd_conv)

lemma keeps_frame: "frame f m \<Longrightarrow> keeps (\<lambda>w. J (f w)) m"
  by (simp add: keeps_def frame_def)

lemma frame_iff_keeps: "frame f m \<longleftrightarrow> (\<forall>x. keeps (\<lambda>w. f w = x) m)"
  by (auto simp: keeps_def frame_def)

text \<open>
  The two notions compose alike; \<open>keeps\<close> is stated for any invariant and \<open>frame\<close> follows.
\<close>

lemma keeps_bindE [keeps_intros]:
  "keeps I m \<Longrightarrow> (\<And>x. keeps I (f x)) \<Longrightarrow> keeps I (bindE m f)"
  by (auto simp: keeps_def bindE_def split: prod.splits sum.splits)

lemma keeps_wrapE [keeps_intros]: "keeps I m \<Longrightarrow> keeps I (wrapE msg m)"
  by (simp add: keeps_def snd_wrapE)

lemma keeps_recoverE [keeps_intros]:
  "keeps I m \<Longrightarrow> (\<And>e. keeps I (h e)) \<Longrightarrow> keeps I (recoverE m h)"
  by (auto simp: keeps_def recoverE_def split: prod.splits sum.splits)

lemma keeps_ignoreE [keeps_intros]: "keeps I m \<Longrightarrow> keeps I (ignoreE m)"
  by (simp add: keeps_def ignoreE_eq)

lemma keeps_tryE [keeps_intros]: "keeps I m \<Longrightarrow> keeps I (tryE m)"
  by (simp add: keeps_def tryE_eq)

lemma keeps_finallyE [keeps_intros]: "keeps I m \<Longrightarrow> keeps I c \<Longrightarrow> keeps I (finallyE m c)"
  by (simp add: keeps_def finallyE_eq)

lemma keeps_pure [keeps_intros]:
  "keeps I (returnE x)" "keeps I (failE e)" "keeps I (getE g)" "keeps I (liftE r)" "keeps I (returnErr oe)"
  by (simp_all add: keeps_def returnErr_def split: option.splits)

lemma keeps_if [keeps_intros]: "(b \<Longrightarrow> keeps I m) \<Longrightarrow> (\<not> b \<Longrightarrow> keeps I n) \<Longrightarrow> keeps I (if b then m else n)"
  by simp

lemma keeps_whenE [keeps_intros]: "(b \<Longrightarrow> keeps I m) \<Longrightarrow> keeps I (whenE b m)"
  by (simp add: whenE_def keeps_pure)

lemma keeps_case_option [keeps_intros]:
  "(oo = None \<Longrightarrow> keeps I m) \<Longrightarrow> (\<And>x. oo = Some x \<Longrightarrow> keeps I (f x)) \<Longrightarrow> keeps I (case oo of None \<Rightarrow> m | Some x \<Rightarrow> f x)"
  by (cases oo) auto

lemma keeps_case_sum [keeps_intros]:
  "(\<And>x. s = Inl x \<Longrightarrow> keeps I (f x)) \<Longrightarrow> (\<And>x. s = Inr x \<Longrightarrow> keeps I (g x)) \<Longrightarrow> keeps I (case s of Inl x \<Rightarrow> f x | Inr x \<Rightarrow> g x)"
  by (cases s) auto

lemma keeps_case_prod [keeps_intros]:
  "(\<And>x y. p = (x, y) \<Longrightarrow> keeps I (f x y)) \<Longrightarrow> keeps I (case p of (x, y) \<Rightarrow> f x y)"
  by (cases p) auto

lemma keeps_Let [keeps_intros]: "keeps I (f x) \<Longrightarrow> keeps I (let y = x in f y)"
  by simp

lemma keeps_forE [keeps_intros]: "(\<And>x. x \<in> set xs \<Longrightarrow> keeps I (f x)) \<Longrightarrow> keeps I (forE xs f)"
  by (induction xs) (auto intro!: keeps_intros)

lemma frameI: "(\<And>x. keeps (\<lambda>w. f w = x) m) \<Longrightarrow> frame f m"
  by (simp add: frame_iff_keeps)

section \<open>What effects leave alone\<close>

text \<open>
  Every effect consumes a tick; an invariant of the development never depends on ticks.
\<close>

definition ticks_blind :: "(world \<Rightarrow> 'b) \<Rightarrow> bool" where
  "ticks_blind I \<longleftrightarrow> (\<forall>w n. I (w\<lparr>ticks := n\<rparr>) = I w)"

lemma keeps_effect:
  "ticks_blind I \<Longrightarrow> keeps I f \<Longrightarrow> keeps I (effect mk f)"
  by (auto simp: keeps_def effect_def Let_def ticks_blind_def split: option.splits)

lemma keeps_sys: "ticks_blind I \<Longrightarrow> keeps I f \<Longrightarrow> keeps I (sys f)"
  unfolding sys_def by (rule keeps_effect)

lemma effect_InrD: "effect mk f w = (Inr x, w') \<Longrightarrow> f (w\<lparr>ticks := Suc (ticks w)\<rparr>) = (Inr x, w')"
  by (auto simp: effect_def Let_def split: option.splits)

lemma sys_InrD: "sys f w = (Inr x, w') \<Longrightarrow> f (w\<lparr>ticks := Suc (ticks w)\<rparr>) = (Inr x, w')"
  unfolding sys_def by (rule effect_InrD)

lemma sys_InlD:
  "sys f w = (Inl e, w') \<Longrightarrow>
    (\<exists>t. e = SysErr t \<and> w' = w\<lparr>ticks := Suc (ticks w)\<rparr>)
    \<or> f (w\<lparr>ticks := Suc (ticks w)\<rparr>) = (Inl e, w')"
  by (auto simp: sys_def effect_def Let_def split: option.splits)

text \<open>
  The two halves of the state. \<open>file_side\<close> is what file effects may change, the tables are
  what SQL effects change, and neither touches the other.
\<close>

definition file_side :: "world \<Rightarrow> (path \<times> node) list \<times> (nat \<Rightarrow> inode) \<times> nat" where
  "file_side w = (nodes w, inodes w, next_ino w)"

lemma ticks_blind_simps [simp]:
  "ticks_blind (\<lambda>w. J1 (db w))" "ticks_blind (\<lambda>w. J2 (mem w))" "ticks_blind (\<lambda>w. J3 (file_side w))"
  "ticks_blind (\<lambda>w. J4 (held w))" "ticks_blind (\<lambda>w. J5 (busy w))"
  "ticks_blind (\<lambda>w. J6 (nodes w) (inodes w))"
  by (simp_all add: ticks_blind_def file_side_def)

lemma keeps_time_now: "ticks_blind I \<Longrightarrow> keeps I time_now"
  by (simp add: keeps_def time_now_def ticks_blind_def)

lemma set_node_fields [simp]:
  "db (set_node p n w) = db w" "mem (set_node p n w) = mem w" "held (set_node p n w) = held w"
  "inodes (set_node p n w) = inodes w" "next_ino (set_node p n w) = next_ino w"
  "ticks (set_node p n w) = ticks w" "fault (set_node p n w) = fault w" "clock (set_node p n w) = clock w"
  "rand (set_node p n w) = rand w" "busy (set_node p n w) = busy w"
  by (simp_all add: set_node_def)

lemma del_node_fields [simp]:
  "db (del_node p w) = db w" "mem (del_node p w) = mem w" "held (del_node p w) = held w"
  "inodes (del_node p w) = inodes w" "next_ino (del_node p w) = next_ino w"
  "ticks (del_node p w) = ticks w" "fault (del_node p w) = fault w" "clock (del_node p w) = clock w"
  "rand (del_node p w) = rand w" "busy (del_node p w) = busy w"
  by (simp_all add: del_node_def)

lemma node_at_set_node [simp]:
  "p \<noteq> [] \<Longrightarrow> node_at (set_node p n w) q = (if q = p then Some n else node_at w q)"
  by (simp add: node_at_def set_node_def update_conv')

lemma node_at_del_node [simp]:
  "p \<noteq> [] \<Longrightarrow> node_at (del_node p w) q = (if q = p then None else node_at w q)"
  by (simp add: node_at_def del_node_def delete_conv')

lemma node_at_ticks [simp]: "node_at (w\<lparr>ticks := n\<rparr>) = node_at w"
  "is_dir (w\<lparr>ticks := n\<rparr>) = is_dir w" "file_inode (w\<lparr>ticks := n\<rparr>) = file_inode w"
  by (auto simp: node_at_def is_dir_def file_inode_def fun_eq_iff split: option.splits node.splits)

lemma node_at_db [simp]: "node_at (w\<lparr>db := d\<rparr>) = node_at w"
  "is_dir (w\<lparr>db := d\<rparr>) = is_dir w" "file_inode (w\<lparr>db := d\<rparr>) = file_inode w"
  by (auto simp: node_at_def is_dir_def file_inode_def fun_eq_iff split: option.splits node.splits)

lemma node_at_inodes [simp]: "node_at (w\<lparr>inodes := f\<rparr>) = node_at w" "is_dir (w\<lparr>inodes := f\<rparr>) = is_dir w"
  by (auto simp: node_at_def is_dir_def fun_eq_iff)

subsection \<open>File effects leave the tables and the memory alone\<close>

lemma db_mem_mkdir_chain: "db (snd (mkdir_chain pre cs w)) = db w \<and> mem (snd (mkdir_chain pre cs w)) = mem w"
  by (induction cs arbitrary: pre w) (auto split: option.splits node.splits)

lemma db_mem_new_file [simp]: "db (snd (new_file p w)) = db w" "mem (snd (new_file p w)) = mem w"
  by (simp_all add: new_file_def Let_def)

lemma db_mem_lock_file: "db (snd (lock_file c p w)) = db w \<and> mem (snd (lock_file c p w)) = mem w"
  by (simp add: lock_file_def)

text \<open>One proof covers every file effect: the tables and the memory are not in its code.\<close>

definition outside :: "world \<Rightarrow> tables \<times> store_mem" where
  "outside w = (db w, mem w)"

lemma outside_simps [simp]:
  "outside (w\<lparr>ticks := n\<rparr>) = outside w" "outside (set_node p nd w) = outside w"
  "outside (del_node p w) = outside w" "outside (snd (new_file p w)) = outside w"
  "outside (w\<lparr>inodes := f\<rparr>) = outside w" "outside (w\<lparr>nodes := ns\<rparr>) = outside w"
  "outside (w\<lparr>held := h\<rparr>) = outside w"
  by (simp_all add: outside_def)

lemma outside_mkdir_chain [simp]: "outside (snd (mkdir_chain pre cs w)) = outside w"
  using db_mem_mkdir_chain by (simp add: outside_def)

lemma outside_lock_file [simp]: "outside (snd (lock_file c p w)) = outside w"
  using db_mem_lock_file by (simp add: outside_def)

lemma outside_new_fileD: "new_file p w = (i, w') \<Longrightarrow> outside w' = outside w"
  by (metis outside_simps(4) snd_conv)

lemma frame_outside_sysI: "(\<And>w. outside (snd (f w)) = outside w) \<Longrightarrow> frame outside (sys f)"
  by (auto simp: frame_def sys_def effect_def Let_def split: option.splits)

lemma outside_file_effects [simp]:
  "frame outside (os_stat p)" "frame outside (os_mkdir_all p)" "frame outside (os_create p)"
  "frame outside (os_open p)" "frame outside (file_read i)" "frame outside (file_close i)"
  "frame outside (os_remove p)" "frame outside (os_remove_all p)" "frame outside (os_rename p q)"
  "frame outside (os_link p q)" "frame outside (os_chtimes p t)" "frame outside (os_create_temp p pre suf)"
  "frame outside (os_mkdir_temp p pre)" "frame outside (os_read_dir p)" "frame outside (walk_dir p)"
  unfolding os_stat_def os_mkdir_all_def os_create_def os_open_def file_read_def file_close_def
    os_remove_def os_remove_all_def os_rename_def os_link_def os_chtimes_def os_create_temp_def
    os_mkdir_temp_def os_read_dir_def walk_dir_def
  by (rule frame_outside_sysI;
      auto split: option.splits node.splits prod.splits simp: Let_def dest: outside_new_fileD)+

lemma outside_lock_effects [simp]:
  "frame outside (flock_try c p)" "frame outside (flock_lock p)" "frame outside (flock_unlock p)"
  "frame outside (flock_close p)"
  unfolding flock_try_def flock_lock_def flock_unlock_def flock_close_def
  by (rule frame_outside_sysI; auto simp: bindE_def split: prod.splits sum.splits;
      metis outside_lock_file outside_simps(7) snd_conv)+

lemma outside_file_write [simp]: "frame outside (file_write i bs)"
  by (auto simp: frame_def file_write_def file_append_def Let_def split: option.splits)

lemma outside_time_now [simp]: "frame outside time_now"
  by (simp add: frame_def time_now_def)

lemma keeps_outside: "frame outside m \<Longrightarrow> keeps (\<lambda>w. J (outside w)) m"
  by (rule keeps_frame)

lemma keeps_db_outside: "frame outside m \<Longrightarrow> keeps (\<lambda>w. J (db w)) m"
  using keeps_frame [where J = "\<lambda>x. J (fst x)" and f = outside] by (simp add: outside_def)

lemma keeps_mem_outside: "frame outside m \<Longrightarrow> keeps (\<lambda>w. J (mem w)) m"
  using keeps_frame [where J = "\<lambda>x. J (snd x)" and f = outside] by (simp add: outside_def)

lemmas keeps_leaves [keeps_intros] =
  outside_file_effects [THEN keeps_db_outside] outside_lock_effects [THEN keeps_db_outside]
  outside_file_write [THEN keeps_db_outside] outside_time_now [THEN keeps_db_outside]
  outside_file_effects [THEN keeps_mem_outside] outside_lock_effects [THEN keeps_mem_outside]
  outside_file_write [THEN keeps_mem_outside] outside_time_now [THEN keeps_mem_outside]

lemma frame_db_outside: "frame outside m \<Longrightarrow> frame db m"
  by (simp add: frame_def outside_def)

subsection \<open>SQL effects leave the files alone\<close>

lemma file_side_simps [simp]:
  "file_side (w\<lparr>ticks := n\<rparr>) = file_side w" "file_side (w\<lparr>db := d\<rparr>) = file_side w"
  "file_side (w\<lparr>mem := m\<rparr>) = file_side w" "file_side (w\<lparr>held := h\<rparr>) = file_side w"
  by (simp_all add: file_side_def)

lemma file_side_sql [simp]:
  "frame file_side (sql q)" "frame file_side (sql_read g)" "frame file_side (sql_exec u)"
  "frame file_side begin_tx" "frame file_side (rollback_tx tx)" "frame file_side (commit_tx tx)"
  "frame file_side (modify_mem h)" "frame file_side time_now"
  by (auto simp: frame_def sql_def sql_read_def sql_exec_def begin_tx_def rollback_tx_def
      commit_tx_def modify_mem_def time_now_def effect_def Let_def split: option.splits prod.splits)

lemma keeps_file_side: "frame file_side m \<Longrightarrow> keeps (\<lambda>w. J (file_side w)) m"
  by (rule keeps_frame)

lemmas keeps_sql_leaves [keeps_intros] = file_side_sql [THEN keeps_file_side]

lemma frame_db_modify_mem [simp]: "frame db (modify_mem h)" "frame db time_now"
  by (simp_all add: frame_def modify_mem_def time_now_def)

lemma sql_InrD:
  "sql q w = (Inr x, w') \<Longrightarrow>
    \<exists>d. q (db w) = (Inr x, d) \<and> w' = w\<lparr>ticks := Suc (ticks w), db := d\<rparr>"
  by (auto simp: sql_def effect_def Let_def split: option.splits prod.splits)

lemma sql_read_InrD:
  "sql_read g w = (Inr x, w') \<Longrightarrow> x = g (db w) \<and> w' = w\<lparr>ticks := Suc (ticks w)\<rparr>"
  by (auto simp: sql_read_def dest!: sql_InrD)

lemma sql_exec_InrD:
  "sql_exec u w = (Inr x, w') \<Longrightarrow> w' = w\<lparr>ticks := Suc (ticks w), db := u (db w)\<rparr>"
  by (auto simp: sql_exec_def dest!: sql_InrD)

lemma db_sql_read [simp]: "db (snd (sql_read g w)) = db w"
  by (auto simp: sql_read_def sql_def effect_def Let_def split: option.splits)

lemma frame_db_sql_read [simp]: "frame db (sql_read g)" "frame db begin_tx"
  by (simp_all add: frame_def begin_tx_def)

lemma db_sql_exec: "db (snd (sql_exec u w)) = db w \<or> db (snd (sql_exec u w)) = u (db w)"
  by (auto simp: sql_exec_def sql_def effect_def Let_def split: option.splits)

lemma keeps_db_sql:
  "(\<And>d. J d \<Longrightarrow> J (snd (q d))) \<Longrightarrow> keeps (\<lambda>w. J (db w)) (sql q)"
  by (auto simp: keeps_def sql_def effect_def Let_def split: option.splits prod.splits) (metis snd_conv)+

lemma keeps_db_sql_exec: "(\<And>d. J d \<Longrightarrow> J (u d)) \<Longrightarrow> keeps (\<lambda>w. J (db w)) (sql_exec u)"
  unfolding sql_exec_def by (rule keeps_db_sql) simp

lemma keeps_db_sql_read [keeps_intros]: "keeps (\<lambda>w. J (db w)) (sql_read g)"
  by (rule keeps_frame) simp

lemma keeps_db_modify_mem [keeps_intros]: "keeps (\<lambda>w. J (db w)) (modify_mem h)"
  by (rule keeps_frame) simp

section \<open>Runs in which nothing fails\<close>

text \<open>
  \<open>succeeds m\<close>: when no effect fails, \<open>m\<close> returns normally. The other half of a partial
  correctness statement, and what concrete runs are evaluated with.
\<close>

definition calm :: "world \<Rightarrow> bool" where
  "calm w \<longleftrightarrow> fault w = (\<lambda>_. None)"

definition succeeds :: "'a io \<Rightarrow> bool" where
  "succeeds m \<longleftrightarrow> (\<forall>w. calm w \<longrightarrow> (\<exists>x w'. m w = (Inr x, w') \<and> calm w'))"

lemma calm_simps [simp]:
  "calm (w\<lparr>ticks := n\<rparr>) = calm w" "calm (w\<lparr>db := d\<rparr>) = calm w" "calm (w\<lparr>mem := m\<rparr>) = calm w"
  "calm (w\<lparr>held := h\<rparr>) = calm w" "calm (w\<lparr>inodes := f\<rparr>) = calm w" "calm (w\<lparr>nodes := ns\<rparr>) = calm w"
  "calm (set_node p nd w) = calm w" "calm (del_node p w) = calm w" "calm (snd (new_file p w)) = calm w"
  by (simp_all add: calm_def new_file_def Let_def)

lemma succeedsD: "succeeds m \<Longrightarrow> calm w \<Longrightarrow> \<exists>x w'. m w = (Inr x, w') \<and> calm w'"
  by (simp add: succeeds_def)

lemma calm_effect: "calm w \<Longrightarrow> effect mk f w = f (w\<lparr>ticks := Suc (ticks w)\<rparr>)"
  by (simp add: calm_def effect_def Let_def)

lemma succeeds_bindE [succeeds_intros]: "succeeds m \<Longrightarrow> (\<And>x. succeeds (f x)) \<Longrightarrow> succeeds (bindE m f)"
  unfolding succeeds_def bindE_eq_Inr by metis

lemma succeeds_wrapE [succeeds_intros]: "succeeds m \<Longrightarrow> succeeds (wrapE msg m)"
  by (simp add: succeeds_def wrapE_eq_Inr)

lemma succeeds_recoverE [succeeds_intros]: "succeeds m \<Longrightarrow> succeeds (recoverE m h)"
  unfolding succeeds_def recoverE_eq_Inr by metis

lemma succeeds_ignoreE [succeeds_intros]: "succeeds m \<Longrightarrow> succeeds (ignoreE m)"
  unfolding succeeds_def ignoreE_eq by (metis snd_conv)

lemma succeeds_tryE [succeeds_intros]: "succeeds m \<Longrightarrow> succeeds (tryE m)"
  unfolding succeeds_def tryE_eq by (metis snd_conv)

lemma succeeds_pure [succeeds_intros]: "succeeds (returnE x)" "succeeds (getE g)"
  by (simp_all add: succeeds_def)

lemma succeeds_if [succeeds_intros]: "(b \<Longrightarrow> succeeds m) \<Longrightarrow> (\<not> b \<Longrightarrow> succeeds n) \<Longrightarrow> succeeds (if b then m else n)"
  by simp

lemma succeeds_case_prod [succeeds_intros]:
  "(\<And>x y. p = (x, y) \<Longrightarrow> succeeds (f x y)) \<Longrightarrow> succeeds (case p of (x, y) \<Rightarrow> f x y)"
  by (cases p) auto

lemma succeeds_forE [succeeds_intros]: "(\<And>x. x \<in> set xs \<Longrightarrow> succeeds (f x)) \<Longrightarrow> succeeds (forE xs f)"
  by (induction xs) (auto intro!: succeeds_intros)

lemma succeeds_sql: "(\<And>d. \<exists>x d'. q d = (Inr x, d')) \<Longrightarrow> succeeds (sql q)"
  unfolding succeeds_def sql_def
  by (auto simp: calm_effect split: prod.splits) (metis Pair_inject sum.inject(2))

lemma succeeds_sql_leaves [succeeds_intros]:
  "succeeds (sql_read g)" "succeeds (sql_exec u)" "succeeds begin_tx" "succeeds (commit_tx tx)"
  "succeeds (rollback_tx tx)" "succeeds (modify_mem h)" "succeeds time_now"
  by (auto simp: succeeds_def sql_read_def sql_exec_def sql_def begin_tx_def calm_effect commit_tx_def
      rollback_tx_def modify_mem_def time_now_def calm_def)

end
