(* ===== verification/Archive.thy ===== *)
theory Archive
  imports Hex_Ids
begin

text \<open>
  The pure part of \<open>export_archive.go\<close>: reading the first member header of a Unix archive,
  recognising a Go package archive by it, and recognising the generated Go sources whose
  paths escape a build.
\<close>

abbreviation newline :: bytes where
  "newline \<equiv> [CHR 0x0A]"

definition archiveMagic :: bytes where
  "archiveMagic = ''!<arch>'' @ newline"

definition archiveHeaderLen :: nat where
  "archiveHeaderLen = 60"

definition pkgdefName :: bytes where
  "pkgdefName = ''__.PKGDEF''"

text \<open>
  A member header is 60 bytes: the name in bytes 0 to 15, the decimal size in bytes 48 to
  57, and a two-byte terminator. \<open>None\<close> is Go's \<open>("", 0, false)\<close>.
\<close>

definition slice :: "nat \<Rightarrow> nat \<Rightarrow> bytes \<Rightarrow> bytes" where
  "slice i j s = take (j - i) (drop i s)"

definition archiveMemberHeader :: "bytes \<Rightarrow> (bytes \<times> int) option" where
  "archiveMemberHeader header =
     (if length header < archiveHeaderLen \<or> slice 58 60 header \<noteq> ''`'' @ newline then None
      else
        let name = trim_suffix (trim_space (slice 0 16 header)) ''/''
        in case parse_int10 (trim_space (slice 48 58 header)) of
             None \<Rightarrow> None
           | Some sz \<Rightarrow> if sz < 0 then None else Some (name, sz))"

definition packageArchiveExportSize :: "bytes \<Rightarrow> int option" where
  "packageArchiveExportSize data =
     (if length data < length archiveMagic + archiveHeaderLen then None
      else if take (length archiveMagic) data \<noteq> archiveMagic then None
      else case archiveMemberHeader
                  (slice (length archiveMagic) (length archiveMagic + archiveHeaderLen) data) of
             None \<Rightarrow> None
           | Some (name, sz) \<Rightarrow> if name \<noteq> pkgdefName then None else Some sz)"

definition isGeneratedCgoSource :: "bytes \<Rightarrow> bool" where
  "isGeneratedCgoSource data =
     (if \<not> contains_bytes data ''package '' then False
      else contains_bytes data ''Code generated by cmd/cgo; DO NOT EDIT.''
        \<or> contains_bytes data ''//go:cgo_'')"

definition testmain_header :: bytes where
  "testmain_header =
     ''// Code generated by 'go test'. DO NOT EDIT.'' @ newline @ newline @ ''package main'' @ newline"

definition isGeneratedTestmainSource :: "bytes \<Rightarrow> bool" where
  "isGeneratedTestmainSource data =
     has_prefix (trim_left_set data [CHR 0x20, CHR 0x09, CHR 0x0D, CHR 0x0A]) testmain_header"

text \<open>
  \<open>retainedTypeKind\<close> (\<open>status.go\<close>): the constants in \<open>iota\<close> order, and any other value the
  catalog may hold. \<open>retained_code\<close> is the integer that is persisted.
\<close>

datatype retainedTypeKind =
    retainedTypeExportArchive
  | retainedTypeGeneratedCgoSource
  | retainedTypeGeneratedTestmain
  | retainedTypeOther
  | RetainedTypeUnknown int

definition retained_code :: "retainedTypeKind \<Rightarrow> int" where
  "retained_code k = (case k of
     retainedTypeExportArchive \<Rightarrow> 0
   | retainedTypeGeneratedCgoSource \<Rightarrow> 1
   | retainedTypeGeneratedTestmain \<Rightarrow> 2
   | retainedTypeOther \<Rightarrow> 3
   | RetainedTypeUnknown n \<Rightarrow> n)"

definition retained_of_code :: "int \<Rightarrow> retainedTypeKind" where
  "retained_of_code n =
     (if n = 0 then retainedTypeExportArchive
      else if n = 1 then retainedTypeGeneratedCgoSource
      else if n = 2 then retainedTypeGeneratedTestmain
      else if n = 3 then retainedTypeOther
      else RetainedTypeUnknown n)"

definition retainedGeneratedSourceKind :: "bytes \<Rightarrow> retainedTypeKind option" where
  "retainedGeneratedSourceKind data =
     (if isGeneratedCgoSource data then Some retainedTypeGeneratedCgoSource
      else if isGeneratedTestmainSource data then Some retainedTypeGeneratedTestmain
      else None)"

section \<open>Facts\<close>

lemma retained_code_roundtrip: "retained_of_code (retained_code (retained_of_code n)) = retained_of_code n"
  by (simp add: retained_of_code_def retained_code_def)

lemma retained_code_of_code [simp]: "retained_code (retained_of_code n) = n"
  by (simp add: retained_of_code_def retained_code_def)

lemma length_archiveMagic [simp]: "length archiveMagic = 8"
  by (simp add: archiveMagic_def)

lemma slice_append_skip: "length p = i \<Longrightarrow> i \<le> j \<Longrightarrow> slice i j (p @ s) = take (j - i) s"
  by (simp add: slice_def)

lemma archiveMemberHeader_size_range:
  "archiveMemberHeader h = Some (n, sz) \<Longrightarrow> 0 \<le> sz \<and> in_i64 sz"
  by (auto simp: archiveMemberHeader_def Let_def split: if_splits option.splits
      dest: parse_int10_in_i64)

lemma packageArchiveExportSize_range:
  "packageArchiveExportSize d = Some sz \<Longrightarrow> 0 \<le> sz \<and> in_i64 sz"
  by (auto simp: packageArchiveExportSize_def split: if_splits option.splits
      dest: archiveMemberHeader_size_range)

text \<open>
  The decision and the size depend on the first 68 bytes only, so the 68-byte prefix that
  the stripper reads and the 64 KiB prefix the classifier reads give the same answer as the
  whole file.
\<close>

lemma slice_take: "j \<le> n \<Longrightarrow> slice i j (take n d) = slice i j d"
  by (simp add: slice_def drop_take min_def)

lemma packageArchiveExportSize_prefix:
  assumes "68 \<le> n"
  shows "packageArchiveExportSize (take n d) = packageArchiveExportSize d"
proof (cases "length d < 68")
  case True
  with assms show ?thesis by simp
next
  case False
  have "slice 8 68 (take n d) = slice 8 68 d" using assms by (rule slice_take)
  moreover have "take 8 (take n d) = take 8 d" using assms by (simp add: min_def)
  moreover have "\<not> min (length d) n < 68" using False assms by simp
  ultimately show ?thesis
    using False by (simp add: packageArchiveExportSize_def archiveHeaderLen_def)
qed

lemma packageArchiveExportSize_magic:
  "packageArchiveExportSize d = Some sz \<Longrightarrow> has_prefix d archiveMagic"
  by (auto simp: packageArchiveExportSize_def has_prefix_def split: if_splits)

end
