(* ===== verification/Blob_Type.thy ===== *)
theory Blob_Type
  imports Archive
begin

text \<open>
  \<open>blob_type.go\<close>: the classification of a blob by the first 64 KiB of its contents, the
  labels of the kinds and their persisted numbers.
\<close>

definition blobTypePrefixLimit :: nat where
  "blobTypePrefixLimit = 65536"

definition blobClassifierVersion :: int where
  "blobClassifierVersion = 1"

text \<open>The constants of \<open>blobTypeKind\<close> in \<open>iota\<close> order; any other persisted integer is kept.\<close>

datatype blobTypeKind =
    blobTypeGoPackageArchive
  | blobTypeGoPackageIndex
  | blobTypeGoAnalysisFacts
  | blobTypeUnixArchive
  | blobTypeGeneratedCgoSource
  | blobTypeGoSource
  | blobTypeELFBinary
  | blobTypeMachOBinary
  | blobTypePEBinary
  | blobTypeWasmBinary
  | blobTypeCCompilerID
  | blobTypeGoTestOutput
  | blobTypeGoTestInputLog
  | blobTypeGoCoverageProfile
  | blobTypeGoToolOutput
  | blobTypeGoSourceFileList
  | blobTypeGoToolFlagProbe
  | blobTypeText
  | blobTypeEmpty
  | blobTypeUnknownBinary
  | blobTypeUnreadable
  | BlobTypeUnknown int

definition blobKindTable :: "blobTypeKind list" where
  "blobKindTable =
     [blobTypeGoPackageArchive, blobTypeGoPackageIndex, blobTypeGoAnalysisFacts,
      blobTypeUnixArchive, blobTypeGeneratedCgoSource, blobTypeGoSource, blobTypeELFBinary,
      blobTypeMachOBinary, blobTypePEBinary, blobTypeWasmBinary, blobTypeCCompilerID,
      blobTypeGoTestOutput, blobTypeGoTestInputLog, blobTypeGoCoverageProfile,
      blobTypeGoToolOutput, blobTypeGoSourceFileList, blobTypeGoToolFlagProbe, blobTypeText,
      blobTypeEmpty, blobTypeUnknownBinary, blobTypeUnreadable]"

definition blob_code :: "blobTypeKind \<Rightarrow> int" where
  "blob_code k = (case k of BlobTypeUnknown n \<Rightarrow> n
     | _ \<Rightarrow> int (length (takeWhile (\<lambda>x. x \<noteq> k) blobKindTable)))"

definition blob_of_code :: "int \<Rightarrow> blobTypeKind" where
  "blob_of_code n =
     (if 0 \<le> n \<and> nat n < length blobKindTable then blobKindTable ! nat n else BlobTypeUnknown n)"

section \<open>Predicates\<close>

definition hasMachOMagic :: "bytes \<Rightarrow> bool" where
  "hasMachOMagic data \<longleftrightarrow> list_ex (has_prefix data)
     [[CHR 0xfe, CHR 0xed, CHR 0xfa, CHR 0xce],
      [CHR 0xce, CHR 0xfa, CHR 0xed, CHR 0xfe],
      [CHR 0xfe, CHR 0xed, CHR 0xfa, CHR 0xcf],
      [CHR 0xcf, CHR 0xfa, CHR 0xed, CHR 0xfe],
      [CHR 0xca, CHR 0xfe, CHR 0xba, CHR 0xbe]]"

definition isCCompilerIDStat :: "bytes \<Rightarrow> bool" where
  "isCCompilerIDStat data =
     (let fields = bytes_fields data
      in if length fields < 6
            \<or> fields ! 0 \<noteq> ''stat''
            \<or> (last fields \<noteq> ''true'' \<and> last fields \<noteq> ''false'')
            \<or> \<not> has_suffix data newline
         then False
         else if parse_int10 (fields ! 1) = None then False
         else if parse_uint16 (fields ! 2) = None then False
         else True)"

text \<open>The loop \<open>for i := 0; i < len(fields); i += 2\<close> over name and stat fields.\<close>

fun ccompiler_pairs :: "bytes list \<Rightarrow> bool" where
  "ccompiler_pairs (name # st # rest) =
     (if name = [] \<or> \<not> isCCompilerIDStat st then False else ccompiler_pairs rest)"
| "ccompiler_pairs _ = True"

definition isCCompilerID :: "bytes \<Rightarrow> bool" where
  "isCCompilerID data =
     (let idSize = 32
      in if length data \<le> idSize then False
         else
           let metadata = take (length data - idSize) data
           in if metadata = [] \<or> last metadata \<noteq> CHR 0x00 then False
              else
                let fields = split_byte (CHR 0x00) (butlast metadata)
                in if fields = [] \<or> length fields mod 2 \<noteq> 0 then False
                   else ccompiler_pairs fields)"

definition looksLikeGoSource :: "bytes \<Rightarrow> bool" where
  "looksLikeGoSource data \<longleftrightarrow>
     has_prefix (trim_space data) ''package '' \<or> contains_bytes data (newline @ ''package '')"

definition isLikelyText :: "bytes \<Rightarrow> bool" where
  "isLikelyText data =
     (if \<not> utf8_valid data then False
      else list_all (\<lambda>b. byte_val b \<noteq> 0
             \<and> \<not> (byte_val b < 0x20 \<and> b \<noteq> CHR 0x0A \<and> b \<noteq> CHR 0x0D
                   \<and> b \<noteq> CHR 0x09 \<and> b \<noteq> CHR 0x0C)) data)"

definition goTestMarkers :: "bytes list" where
  "goTestMarkers =
     [CHR 0x16 # ''=== RUN'', CHR 0x16 # ''=== PAUSE'', CHR 0x16 # ''=== NAME'',
      CHR 0x16 # ''=== CONT'', CHR 0x16 # ''--- PASS'', CHR 0x16 # ''--- FAIL'',
      CHR 0x16 # ''--- SKIP'', CHR 0x16 # ''PASS'' @ newline, CHR 0x16 # ''FAIL'' @ newline,
      ''ok  '' @ [CHR 0x09], ''?   '' @ [CHR 0x09], ''FAIL'' @ [CHR 0x09],
      ''PASS'' @ newline @ ''ok  '' @ [CHR 0x09], ''PASS'' @ newline @ ''?   '' @ [CHR 0x09],
      ''FAIL'' @ newline @ ''FAIL'' @ [CHR 0x09]]"

definition isGoTestOutput :: "bytes \<Rightarrow> bool" where
  "isGoTestOutput data \<longleftrightarrow>
     list_ex (\<lambda>marker. has_prefix data marker \<or> contains_bytes data (newline @ marker)) goTestMarkers"

definition isGoTestInputLog :: "bytes \<Rightarrow> bool" where
  "isGoTestInputLog data = has_prefix data (''# test log'' @ newline)"

definition isGoCoverageProfile :: "bytes \<Rightarrow> bool" where
  "isGoCoverageProfile data =
     (let (line, rest, ok) = cut_byte (CHR 0x0A) data
      in if \<not> ok then False
         else line = ''mode: set'' \<or> line = ''mode: count'' \<or> line = ''mode: atomic'')"

definition isGoToolOutput :: "bytes \<Rightarrow> bool" where
  "isGoToolOutput data =
     (let (line, rest, ok) = cut_byte (CHR 0x0A) data
      in if \<not> ok \<or> \<not> has_prefix line ''# '' \<or> line = ''# test log'' then False
         else
           let name = drop (length ''# '') line
           in 0 < length name \<and> \<not> contains_any name [CHR 0x20, CHR 0x09])"

definition hasGoSourceFileListExtension :: "bytes \<Rightarrow> bool" where
  "hasGoSourceFileListExtension path \<longleftrightarrow> list_ex (has_suffix path) [''.go'', ''.s'', ''.c'']"

definition isGoSourceFileListPath :: "bytes \<Rightarrow> bool" where
  "isGoSourceFileListPath path =
     (if path = [] \<or> has_prefix path ''/'' \<or> has_prefix path ''../''
         \<or> contains_any path [CHR 0x20, CHR 0x09, CHR 0x0D] then False
      else has_prefix path ''./'' \<or> hasGoSourceFileListExtension path)"

definition isGoSourceFileList :: "bytes \<Rightarrow> bool" where
  "isGoSourceFileList data =
     (if \<not> isLikelyText data then False
      else
        let lines = split_byte (CHR 0x0A) data;
            kept = (if last lines = [] then Some (butlast lines)
                    else if length data = blobTypePrefixLimit then Some (butlast lines)
                    else None)
        in case kept of
             None \<Rightarrow> False
           | Some ls \<Rightarrow> list_all isGoSourceFileListPath ls \<and> 0 < length ls)"

definition isGoToolFlagProbe :: "bytes \<Rightarrow> bool" where
  "isGoToolFlagProbe data \<longleftrightarrow> data = ''true'' \<or> data = ''false''"

section \<open>The classifier\<close>

definition classifyBlobData :: "bytes \<Rightarrow> blobTypeKind" where
  "classifyBlobData data =
     (if length data = 0 then blobTypeEmpty
      else if packageArchiveExportSize data \<noteq> None then blobTypeGoPackageArchive
      else if has_prefix data ''go index v'' then blobTypeGoPackageIndex
      else if contains_bytes data ''gobFact'' then blobTypeGoAnalysisFacts
      else if has_prefix data archiveMagic then blobTypeUnixArchive
      else if isGeneratedCgoSource data then blobTypeGeneratedCgoSource
      else if has_prefix data (CHR 0x7f # ''ELF'') then blobTypeELFBinary
      else if has_prefix data ''MZ'' then blobTypePEBinary
      else if has_prefix data (CHR 0x00 # ''asm'') then blobTypeWasmBinary
      else if hasMachOMagic data then blobTypeMachOBinary
      else if isCCompilerID data then blobTypeCCompilerID
      else if isGoTestOutput data then blobTypeGoTestOutput
      else if isGoTestInputLog data then blobTypeGoTestInputLog
      else if isGoCoverageProfile data then blobTypeGoCoverageProfile
      else if isGoToolOutput data then blobTypeGoToolOutput
      else if isGoSourceFileList data then blobTypeGoSourceFileList
      else if isGoToolFlagProbe data then blobTypeGoToolFlagProbe
      else if isLikelyText data then
        (if looksLikeGoSource data then blobTypeGoSource else blobTypeText)
      else blobTypeUnknownBinary)"

fun blob_label :: "blobTypeKind \<Rightarrow> string" where
  "blob_label blobTypeGoPackageArchive = ''Go package archives''"
| "blob_label blobTypeGoPackageIndex = ''Go package indexes''"
| "blob_label blobTypeGoAnalysisFacts = ''Go analysis facts''"
| "blob_label blobTypeUnixArchive = ''Unix archives''"
| "blob_label blobTypeGeneratedCgoSource = ''Generated cgo sources''"
| "blob_label blobTypeGoSource = ''Go source files''"
| "blob_label blobTypeELFBinary = ''ELF binaries''"
| "blob_label blobTypeMachOBinary = ''Mach-O binaries''"
| "blob_label blobTypePEBinary = ''PE binaries''"
| "blob_label blobTypeWasmBinary = ''WebAssembly binaries''"
| "blob_label blobTypeCCompilerID = ''C compiler IDs''"
| "blob_label blobTypeGoTestOutput = ''Go test outputs''"
| "blob_label blobTypeGoTestInputLog = ''Go test input logs''"
| "blob_label blobTypeGoCoverageProfile = ''Go coverage profiles''"
| "blob_label blobTypeGoToolOutput = ''Go tool outputs''"
| "blob_label blobTypeGoSourceFileList = ''Go source file lists''"
| "blob_label blobTypeGoToolFlagProbe = ''Go tool flag probes''"
| "blob_label blobTypeText = ''Text files''"
| "blob_label blobTypeEmpty = ''Empty files''"
| "blob_label blobTypeUnknownBinary = ''Unknown binary files''"
| "blob_label blobTypeUnreadable = ''Unreadable blobs''"
| "blob_label (BlobTypeUnknown n) = ''Unknown files''"

section \<open>Facts about kinds\<close>

lemma distinct_blobKindTable: "distinct blobKindTable"
  by (simp add: blobKindTable_def)

lemma blob_labels_distinct: "distinct (map blob_label blobKindTable)"
  by (simp add: blobKindTable_def)

lemma blobKindTable_complete:
  "k \<in> set blobKindTable \<longleftrightarrow> (\<forall>n. k \<noteq> BlobTypeUnknown n)"
  by (cases k) (auto simp: blobKindTable_def)

lemma blob_code_of_code [simp]: "blob_code (blob_of_code n) = n"
proof -
  have table: "list_all (\<lambda>i. blob_code (blobKindTable ! i) = int i) [0..<length blobKindTable]"
    by (simp add: upt_rec blob_code_def blobKindTable_def)
  show ?thesis
  proof (cases "0 \<le> n \<and> nat n < length blobKindTable")
    case True
    with table have "blob_code (blobKindTable ! nat n) = int (nat n)"
      by (auto simp: list_all_iff)
    with True show ?thesis by (simp add: blob_of_code_def)
  next
    case False
    then have "blob_of_code n = BlobTypeUnknown n" by (auto simp: blob_of_code_def)
    then show ?thesis by (simp add: blob_code_def)
  qed
qed

end
