(* ===== verification/Catalog.thy ===== *)
theory Catalog
  imports World_Rules Blob_Type
begin

text \<open>
  The operations of \<open>catalog.go\<close> (and the opening of the catalog in \<open>store.go\<close>) as programs
  over the world: each runs SQL statements of \<open>Tables\<close> and turns their failures into the
  errors the code returns. A statement is one effect, so it can fail with any SQLite code;
  log output and prepared-statement handling are not modelled.
\<close>

section \<open>Types and constants\<close>

record entry =
  ActionID :: bytes
  OutputID :: bytes
  Size :: int
  CompressedSize :: int
  CreatedAt :: int
  AccessedAt :: int

record catalogRun =
  cr_runID :: bytes
  cr_path :: path

record catalogOutput =
  co_outputID :: bytes
  co_size :: int
  co_compressedSize :: int
  co_blobType :: "int option"
  co_retainedType :: "int option"

definition sqliteBusyPrimaryCode :: int where "sqliteBusyPrimaryCode = 5"
definition SQLITE_FULL :: int where "SQLITE_FULL = 13"
definition SQLITE_ERROR :: int where "SQLITE_ERROR = 1"
definition catalogPutAttempts :: nat where "catalogPutAttempts = 3"

definition idKeyE :: "bytes \<Rightarrow> bytes io" where
  "idKeyE hexID = (case idKey hexID of
     None \<Rightarrow> failE (Panic ''catalog: not a hex ID'') | Some key \<Rightarrow> returnE key)"

section \<open>Runs\<close>

definition q_registerRun :: "bytes \<Rightarrow> path \<Rightarrow> int \<Rightarrow> unit io" where
  "q_registerRun runID path createdAt = sql_exec (sql_register_run runID path createdAt)"

definition q_listOtherRuns :: "bytes \<Rightarrow> catalogRun list io" where
  "q_listOtherRuns runID =
     sql_read (\<lambda>d. map (\<lambda>r. \<lparr>cr_runID = run_key r, cr_path = run_path r\<rparr>)
                     (filter (\<lambda>r. run_key r \<noteq> runID) (runs d)))"

definition q_countRuns :: "int io" where
  "q_countRuns = sql_read (\<lambda>d. int (length (runs d)))"

definition q_deleteRun :: "bytes \<Rightarrow> unit io" where
  "q_deleteRun runID = sql_exec (sql_delete_run runID)"

section \<open>Puts\<close>

definition isSQLiteBusy :: "err \<Rightarrow> bool" where
  "isSQLiteBusy e = (case errors_as_code e of
     None \<Rightarrow> False | Some c \<Rightarrow> c mod 256 = sqliteBusyPrimaryCode)"

text \<open>
  \<open>retrySQLiteBusy\<close> from a given attempt. The wait between attempts changes nothing, and its
  context is never cancelled.
\<close>

function retry_from :: "nat \<Rightarrow> 'a io \<Rightarrow> 'a io" where
  "retry_from attempt fn w =
     (case fn w of
        (Inr x, w') \<Rightarrow> (Inr x, w')
      | (Inl e, w') \<Rightarrow>
          if \<not> isSQLiteBusy e \<or> catalogPutAttempts \<le> attempt then (Inl e, w')
          else retry_from (Suc attempt) fn w')"
  by pat_completeness auto
termination
  by (relation "measure (\<lambda>(attempt, fn, w). catalogPutAttempts - attempt)") auto

declare retry_from.simps [simp del]

definition retrySQLiteBusy :: "'a io \<Rightarrow> 'a io" where
  "retrySQLiteBusy fn = retry_from 1 fn"

text \<open>A statement of a transaction whose failure rolls the transaction back.\<close>

definition tx_stmt :: "tables \<Rightarrow> string \<Rightarrow> 'a io \<Rightarrow> 'a io" where
  "tx_stmt tx msg m =
     recoverE m (\<lambda>e. bindE (ignoreE (rollback_tx tx)) (\<lambda>_. failE (Wrap msg [e])))"

definition upsertEntryOnce :: "entry \<Rightarrow> unit io" where
  "upsertEntryOnce ent =
     bindE (idKeyE (ActionID ent)) (\<lambda>action.
     bindE (idKeyE (OutputID ent)) (\<lambda>output.
     let accessedAt = unixMillis (AccessedAt ent) in
     bindE (wrapE ''begin put transaction'' begin_tx) (\<lambda>tx.
     bindE (tx_stmt tx ''record output''
              (sql (\<lambda>d. case sql_upsert_output output (Size ent) (CompressedSize ent) accessedAt d of
                     None \<Rightarrow> (Inl (SqlErr SQLITE_FULL), d) | Some (i, d') \<Rightarrow> (Inr i, d')))) (\<lambda>outputRef.
     bindE (tx_stmt tx ''record entry''
              (sql_exec (sql_upsert_entry action outputRef (outputTag output)
                           (unixMillis (CreatedAt ent)) accessedAt))) (\<lambda>_.
     wrapE ''commit put transaction'' (commit_tx tx))))))"

definition q_upsertEntry :: "entry \<Rightarrow> unit io" where
  "q_upsertEntry ent = retrySQLiteBusy (upsertEntryOnce ent)"

section \<open>Lookups, access times and removal\<close>

definition q_lookupEntry :: "bytes \<Rightarrow> entry io" where
  "q_lookupEntry actionID =
     bindE (idKeyE actionID) (\<lambda>key.
     bindE (sql_read (sql_lookup_entry key)) (\<lambda>row.
     case row of
       None \<Rightarrow> failE ErrNoRows
     | Some (outputID, sz, createdAt, tag) \<Rightarrow>
         if tag \<noteq> outputTag outputID then failE (Wrap ''tag resolved to output'' [ErrTagMismatch])
         else returnE \<lparr>ActionID = actionID, OutputID = hex_encode outputID, Size = sz,
                        CompressedSize = 0, CreatedAt = millisTime createdAt, AccessedAt = 0\<rparr>))"

definition q_deleteAction :: "bytes \<Rightarrow> unit io" where
  "q_deleteAction actionID = bindE (idKeyE actionID) (\<lambda>key. sql_exec (sql_delete_action key))"

definition touchAll :: "(int \<Rightarrow> bytes \<Rightarrow> tables \<Rightarrow> tables) \<Rightarrow> (bytes \<times> int) list \<Rightarrow> unit io" where
  "touchAll stmt accs =
     (if accs = [] then returnE ()
      else forE accs (\<lambda>(ident, accessedAt). bindE (idKeyE ident) (\<lambda>key. sql_exec (stmt accessedAt key))))"

definition q_touchAccessed :: "(bytes \<times> int) list \<Rightarrow> (bytes \<times> int) list \<Rightarrow> unit io" where
  "q_touchAccessed ents outs =
     bindE (wrapE ''touch entry'' (touchAll sql_touch_entry ents)) (\<lambda>_.
     wrapE ''touch output'' (touchAll sql_touch_output outs))"

definition q_dropAction :: "bytes \<Rightarrow> bytes \<Rightarrow> unit io" where
  "q_dropAction actionID outputID =
     bindE (idKeyE outputID) (\<lambda>okey.
     bindE (sql_exec (sql_delete_output okey)) (\<lambda>_.
     bindE (idKeyE actionID) (\<lambda>akey.
     sql_exec (sql_delete_action akey))))"

definition q_evictOutput :: "bytes \<Rightarrow> int \<Rightarrow> bool io" where
  "q_evictOutput outputID accessedAt =
     bindE (idKeyE outputID) (\<lambda>key.
     bindE (sql (\<lambda>d. case sql_evict_output key accessedAt d of (n, d') \<Rightarrow> (Inr n, d'))) (\<lambda>rows.
     returnE (0 < rows)))"

section \<open>Totals, listings and shards\<close>

definition q_compressedSize :: "int io" where
  "q_compressedSize = sql (\<lambda>d. case sql_sum (map out_compressed (outputs d)) of
     None \<Rightarrow> (Inl (SqlErr SQLITE_ERROR), d) | Some n \<Rightarrow> (Inr n, d))"

definition q_outputStats :: "(int \<times> int \<times> int) io" where
  "q_outputStats = sql (\<lambda>d.
     case (sql_sum (map out_size (outputs d)), sql_sum (map out_compressed (outputs d))) of
       (Some s, Some c) \<Rightarrow> (Inr (int (length (outputs d)), s, c), d)
     | _ \<Rightarrow> (Inl (SqlErr SQLITE_ERROR), d))"

definition retainedClassifierVersion :: int where "retainedClassifierVersion = 1"

definition q_listOutputs :: "catalogOutput list io" where
  "q_listOutputs = sql_read (\<lambda>d. map (\<lambda>r.
     \<lparr>co_outputID = hex_encode (out_key r), co_size = out_size r, co_compressedSize = out_compressed r,
      co_blobType = (if out_blob_version r = Some blobClassifierVersion then out_blob_type r else None),
      co_retainedType = (if out_retained_version r = Some retainedClassifierVersion then out_retained_type r else None)\<rparr>)
     (outputs d))"

text \<open>
  \<open>referencedOutputIDs\<close>: \<open>byte(shard)\<close> and \<open>byte(shard + 1)\<close> are the conversions to a
  byte, so the upper bound wraps; the last shard uses the query without it.
\<close>

definition byte_of_int :: "nat \<Rightarrow> byte" where
  "byte_of_int n = mk_byte (n mod 256)"

definition q_referencedOutputIDs :: "nat \<Rightarrow> int \<Rightarrow> bytes list io" where
  "q_referencedOutputIDs shard minAccessedAt =
     bindE (sql_read (if shard = lastOutputShard
                      then sql_shard_outputs_tail [byte_of_int shard] minAccessedAt
                      else sql_shard_outputs [byte_of_int shard] [byte_of_int (shard + 1)] minAccessedAt))
       (\<lambda>keys. returnE (map hex_encode keys))"

definition q_updateBlobType :: "bytes \<Rightarrow> blobTypeKind \<Rightarrow> int \<Rightarrow> unit io" where
  "q_updateBlobType outputID kind version =
     bindE (idKeyE outputID) (\<lambda>key. sql_exec (sql_update_blob_type (blob_code kind) version key))"

definition q_updateRetainedType :: "bytes \<Rightarrow> retainedTypeKind \<Rightarrow> unit io" where
  "q_updateRetainedType outputID kind =
     bindE (idKeyE outputID) (\<lambda>key.
       sql_exec (sql_update_retained_type (retained_code kind) retainedClassifierVersion key))"

section \<open>Opening the catalog\<close>

definition initDB :: "unit io" where
  "initDB =
     bindE (wrapE ''read catalog version'' (sql_read user_version)) (\<lambda>version.
     if version \<noteq> 0 \<and> version \<noteq> cacheSchemaVersion then failE (Msg ''unsupported catalog version'')
     else if version = cacheSchemaVersion then returnE ()
     else
       bindE (wrapE ''initialize catalog'' (sql_exec (\<lambda>d. d))) (\<lambda>_.
       wrapE ''write catalog version'' (sql_exec (\<lambda>d. d\<lparr>user_version := cacheSchemaVersion\<rparr>))))"

text \<open>
  Opening creates a missing database file, which is then an empty database.
\<close>

definition db_file :: "path \<Rightarrow> unit io" where
  "db_file path w =
     (if node_at w path \<noteq> None then (Inr (), w)
      else if \<not> is_dir w (butlast path) then (Inl (SqlErr 14), w)
      else (Inr (), (snd (new_file path w))\<lparr>db := empty_tables\<rparr>))"

definition openDB :: "path \<Rightarrow> unit io" where
  "openDB path = bindE (db_file path) (\<lambda>_. initDB)"

definition openExistingDB :: "path \<Rightarrow> unit io" where
  "openExistingDB path =
     bindE (getE (\<lambda>w. node_at w path)) (\<lambda>n.
     if n = None then wrapE ''read catalog version'' (failE (SqlErr 14))
     else
       bindE (wrapE ''read catalog version'' (sql_read user_version)) (\<lambda>version.
       if version \<noteq> cacheSchemaVersion then failE (Msg ''unsupported catalog version'')
       else returnE ()))"

section \<open>Caching classifications\<close>

definition classificationBatch :: nat where "classificationBatch = 1000"

type_synonym classifier_stmt = "int \<Rightarrow> bytes \<Rightarrow> tables \<Rightarrow> tables"

definition blobClassifier :: classifier_stmt where
  "blobClassifier kind key = sql_update_blob_type kind blobClassifierVersion key"

definition retainedClassifier :: classifier_stmt where
  "retainedClassifier kind key = sql_update_retained_type kind retainedClassifierVersion key"

definition commitClassifications :: "classifier_stmt \<Rightarrow> (bytes \<times> int) list \<Rightarrow> unit io" where
  "commitClassifications c batch =
     (if batch = [] then returnE ()
      else
        bindE (wrapE ''begin classification transaction'' begin_tx) (\<lambda>tx.
        bindE (forE batch (\<lambda>(outputID, kind).
                 bindE (idKeyE outputID) (\<lambda>key.
                 tx_stmt tx ''cache classification'' (sql_exec (c kind key))))) (\<lambda>_.
        wrapE ''commit classifications'' (commit_tx tx))))"

text \<open>
  The loop of \<open>writeClassifications\<close>: rows join the batch until it is full, a full batch is
  committed, and what is left is committed at the end.
\<close>

fun write_batches :: "classifier_stmt \<Rightarrow> (bytes \<times> int) list \<Rightarrow> (bytes \<times> int) list \<Rightarrow> unit io" where
  "write_batches c batch [] = commitClassifications c batch"
| "write_batches c batch (x # xs) =
     (let batch' = batch @ [x]
      in if length batch' < classificationBatch then write_batches c batch' xs
         else bindE (commitClassifications c batch') (\<lambda>_. write_batches c [] xs))"

definition writeClassifications :: "path \<Rightarrow> classifier_stmt \<Rightarrow> (bytes \<times> int) list \<Rightarrow> unit io" where
  "writeClassifications dbPath c classified =
     (if classified = [] then returnE ()
      else bindE (openDB dbPath) (\<lambda>_. write_batches c [] classified))"

definition persistClassifications :: "path \<Rightarrow> classifier_stmt \<Rightarrow> (bytes \<times> int) list \<Rightarrow> unit io" where
  "persistClassifications dbPath c classified = ignoreE (writeClassifications dbPath c classified)"

end
