(* ===== verification/Catalog_Props.thy ===== *)
theory Catalog_Props
  imports Catalog
begin

text \<open>
  What the catalog operations guarantee. All of them but a put only take rows away or change
  columns no identity depends on (\<open>shrinks\<close>); a put adds one output under a fresh id and
  points one action at it (\<open>put_tables\<close>). From the two the invariants follow.
\<close>

section \<open>Shrinking catalogs\<close>

definition entry_facts :: "entry_row \<Rightarrow> bytes \<times> int \<times> bytes \<times> int" where
  "entry_facts e = (ent_action e, ent_output e, ent_tag e, ent_created e)"

definition output_facts :: "output_row \<Rightarrow> int \<times> bytes \<times> int \<times> int" where
  "output_facts r = (out_id r, out_key r, out_size r, out_compressed r)"

definition shrinks :: "tables \<Rightarrow> tables \<Rightarrow> bool" where
  "shrinks d0 d \<longleftrightarrow>
     subseq (map entry_facts (entries d)) (map entry_facts (entries d0)) \<and>
     subseq (map output_facts (outputs d)) (map output_facts (outputs d0)) \<and>
     out_seq d = out_seq d0"

lemma shrinks_refl [simp]: "shrinks d d"
  by (simp add: shrinks_def)

lemma shrinks_subseq:
  assumes "shrinks d0 d"
  shows "subseq (map entry_facts (entries d)) (map entry_facts (entries d0))"
    and "subseq (map output_facts (outputs d)) (map output_facts (outputs d0))"
    and "out_seq d = out_seq d0"
  using assms unfolding shrinks_def by blast+

lemma shrinks_trans:
  assumes "shrinks a b" "shrinks b c"
  shows "shrinks a c"
proof -
  have "subseq (map entry_facts (entries c)) (map entry_facts (entries a))"
    by (rule subseq_order.trans [OF shrinks_subseq(1) [OF assms(2)] shrinks_subseq(1) [OF assms(1)]])
  moreover have "subseq (map output_facts (outputs c)) (map output_facts (outputs a))"
    by (rule subseq_order.trans [OF shrinks_subseq(2) [OF assms(2)] shrinks_subseq(2) [OF assms(1)]])
  moreover have "out_seq c = out_seq a"
    using shrinks_subseq(3) [OF assms(2)] shrinks_subseq(3) [OF assms(1)] by simp
  ultimately show ?thesis unfolding shrinks_def by blast
qed

lemma subseq_set: "subseq xs ys \<Longrightarrow> x \<in> set xs \<Longrightarrow> x \<in> set ys"
  by (induction rule: list_emb.induct) auto

lemma subseq_distinct: "subseq xs ys \<Longrightarrow> distinct ys \<Longrightarrow> distinct xs"
  by (auto simp: subseq_conv_nths)

lemma subseq_project: "subseq (map f xs) (map f ys) \<Longrightarrow> subseq (map (g \<circ> f) xs) (map (g \<circ> f) ys)"
  using subseq_map [of "map f xs" "map f ys" g] by simp

lemma shrinks_outputD:
  assumes "shrinks d0 d" "r \<in> set (outputs d)"
  shows "\<exists>r0\<in>set (outputs d0). out_id r0 = out_id r \<and> out_key r0 = out_key r \<and>
    out_size r0 = out_size r \<and> out_compressed r0 = out_compressed r"
proof -
  have "output_facts r \<in> set (map output_facts (outputs d))" using assms(2) by simp
  then have "output_facts r \<in> set (map output_facts (outputs d0))"
    by (rule subseq_set [OF shrinks_subseq(2) [OF assms(1)]])
  then obtain r0 where "r0 \<in> set (outputs d0)" "output_facts r = output_facts r0" by auto
  then show ?thesis by (auto simp: output_facts_def intro!: bexI [of _ r0])
qed

lemma shrinks_entryD:
  assumes "shrinks d0 d" "e \<in> set (entries d)"
  shows "\<exists>e0\<in>set (entries d0). ent_action e0 = ent_action e \<and> ent_output e0 = ent_output e \<and>
    ent_tag e0 = ent_tag e \<and> ent_created e0 = ent_created e"
proof -
  have "entry_facts e \<in> set (map entry_facts (entries d))" using assms(2) by simp
  then have "entry_facts e \<in> set (map entry_facts (entries d0))"
    by (rule subseq_set [OF shrinks_subseq(1) [OF assms(1)]])
  then obtain e0 where "e0 \<in> set (entries d0)" "entry_facts e = entry_facts e0" by auto
  then show ?thesis by (auto simp: entry_facts_def intro!: bexI [of _ e0])
qed

lemma shrinks_wf:
  assumes s: "shrinks d0 d" and wf: "wf_tables d0"
  shows "wf_tables d"
proof -
  note outs = shrinks_subseq(2) [OF s] and ents = shrinks_subseq(1) [OF s] and seq = shrinks_subseq(3) [OF s]
  have k: "subseq (map out_key (outputs d)) (map out_key (outputs d0))"
    using subseq_project [OF outs, of "\<lambda>(i, k, s, c). k"] by (simp add: comp_def output_facts_def)
  have i: "subseq (map out_id (outputs d)) (map out_id (outputs d0))"
    using subseq_project [OF outs, of "\<lambda>(i, k, s, c). i"] by (simp add: comp_def output_facts_def)
  have a: "subseq (map ent_action (entries d)) (map ent_action (entries d0))"
    using subseq_project [OF ents, of "\<lambda>(a, i, t, c). a"] by (simp add: comp_def entry_facts_def)
  have "distinct (map out_key (outputs d)) \<and> distinct (map out_id (outputs d)) \<and> distinct (map ent_action (entries d))"
    using wf subseq_distinct [OF k] subseq_distinct [OF i] subseq_distinct [OF a]
    unfolding wf_tables_def by blast
  moreover have "\<forall>r\<in>set (outputs d). 1 \<le> out_id r \<and> out_id r \<le> out_seq d"
    using wf seq shrinks_outputD [OF s] unfolding wf_tables_def by metis
  moreover have "\<forall>e\<in>set (entries d). 1 \<le> ent_output e \<and> ent_output e \<le> out_seq d"
    using wf seq shrinks_entryD [OF s] unfolding wf_tables_def by metis
  moreover have "0 \<le> out_seq d \<and> out_seq d \<le> max_i64"
    using wf seq unfolding wf_tables_def by metis
  ultimately show ?thesis unfolding wf_tables_def by blast
qed

lemma shrinks_tags: "shrinks d0 d \<Longrightarrow> tags_agree d0 \<Longrightarrow> tags_agree d"
  unfolding tags_agree_def
proof (intro ballI impI)
  fix e r
  assume s: "shrinks d0 d"
    and t: "\<forall>e\<in>set (entries d0). \<forall>r\<in>set (outputs d0). ent_output e = out_id r \<longrightarrow> ent_tag e = outputTag (out_key r)"
    and e: "e \<in> set (entries d)" and r: "r \<in> set (outputs d)" and eq: "ent_output e = out_id r"
  from shrinks_entryD [OF s e] shrinks_outputD [OF s r] t eq show "ent_tag e = outputTag (out_key r)"
    by metis
qed

lemma shrinks_filter:
  "shrinks d (d\<lparr>outputs := filter P (outputs d)\<rparr>)"
  "shrinks d (d\<lparr>entries := filter Q (entries d)\<rparr>)"
  by (simp_all add: shrinks_def subseq_map)

lemma shrinks_map_where:
  "(\<And>r. output_facts (f r) = output_facts r) \<Longrightarrow> shrinks d (d\<lparr>outputs := map_where P f (outputs d)\<rparr>)"
  "(\<And>e. entry_facts (g e) = entry_facts e) \<Longrightarrow> shrinks d (d\<lparr>entries := map_where Q g (entries d)\<rparr>)"
  by (simp_all add: shrinks_def map_map_where)

lemma shrinks_runs: "shrinks d (d\<lparr>runs := rs\<rparr>)" "shrinks d (d\<lparr>user_version := v\<rparr>)"
  by (simp_all add: shrinks_def)

lemma shrinks_sql [db_simps]:
  "shrinks d (sql_delete_action k d)" "shrinks d (sql_delete_output k d)"
  "shrinks d (snd (sql_evict_output k t d))" "shrinks d (snd (sql_delete_stale_entry t k d))"
  "shrinks d (snd (sql_delete_stale_output t k d))"
  "shrinks d (sql_touch_entry t k d)" "shrinks d (sql_touch_output t k d)"
  "shrinks d (sql_update_blob_type n v k d)" "shrinks d (sql_update_retained_type n v k d)"
  "shrinks d (sql_register_run rk p c d)" "shrinks d (sql_delete_run rk d)"
  by (simp_all add: sql_delete_action_def sql_delete_output_def sql_evict_output_def
      sql_delete_stale_entry_def sql_delete_stale_output_def sql_touch_entry_def sql_touch_output_def
      sql_update_blob_type_def sql_update_retained_type_def sql_register_run_def sql_delete_run_def
      shrinks_filter shrinks_runs shrinks_map_where output_facts_def entry_facts_def)

section \<open>Invariants of programs over the catalog\<close>

text \<open>
  An invariant of the tables that survives shrinking survives every program built from
  shrinking statements, including its rollbacks.
\<close>

definition shrink_stable :: "(tables \<Rightarrow> bool) \<Rightarrow> bool" where
  "shrink_stable J \<longleftrightarrow> (\<forall>d d'. J d \<longrightarrow> shrinks d d' \<longrightarrow> J d')"

lemma shrink_stableD: "shrink_stable J \<Longrightarrow> J d \<Longrightarrow> shrinks d d' \<Longrightarrow> J d'"
  by (auto simp: shrink_stable_def)

lemma keeps_dbD:
  "keeps (\<lambda>w. J (db w)) m \<Longrightarrow> m w = (r, w') \<Longrightarrow> J (db w) \<Longrightarrow> J (db w')"
  unfolding keeps_def by (metis snd_conv)

lemma keeps_idKeyE [keeps_intros]: "keeps I (idKeyE h)"
  by (auto simp: idKeyE_def intro!: keeps_intros)

lemma keeps_rollback: "J tx \<Longrightarrow> keeps (\<lambda>w. J (db w)) (rollback_tx tx)"
  by (simp add: keeps_def rollback_tx_def)

lemma keeps_commit: "J tx \<Longrightarrow> keeps (\<lambda>w. J (db w)) (commit_tx tx)"
  by (auto simp: keeps_def commit_tx_def Let_def split: option.splits)

lemma begin_tx_result: "begin_tx w = (Inr tx, w') \<Longrightarrow> tx = db w \<and> db w' = db w" for w :: world
  by (auto simp: begin_tx_def dest!: sql_read_InrD)

lemma keeps_transaction:
  assumes "\<And>tx. J tx \<Longrightarrow> keeps (\<lambda>w. J (db w)) (f tx)"
  shows "keeps (\<lambda>w. J (db w)) (bindE (wrapE msg begin_tx) f)"
  unfolding keeps_def
proof (intro allI impI)
  fix w :: world assume "J (db w)"
  obtain r w1 where b: "begin_tx w = (r, w1)" by (cases "begin_tx w")
  have d: "db w1 = db w" using frame_eqD [OF frame_db_sql_read(2) b] .
  show "J (db (snd (bindE (wrapE msg begin_tx) f w)))"
  proof (cases r)
    case (Inl e)
    with b d \<open>J (db w)\<close> show ?thesis by (simp add: bindE_def wrapE_def)
  next
    case (Inr tx)
    with b have "tx = db w" by (simp add: begin_tx_result)
    with b Inr d \<open>J (db w)\<close> assms [of tx] show ?thesis
      by (simp add: bindE_def wrapE_def keeps_def)
  qed
qed

lemma keeps_tx_stmt:
  "J tx \<Longrightarrow> keeps (\<lambda>w. J (db w)) m \<Longrightarrow> keeps (\<lambda>w. J (db w)) (tx_stmt tx msg m)"
  unfolding tx_stmt_def by (intro keeps_intros keeps_rollback)

lemma keeps_shrink_exec:
  "shrink_stable J \<Longrightarrow> (\<And>d. shrinks d (u d)) \<Longrightarrow> keeps (\<lambda>w. J (db w)) (sql_exec u)"
  by (rule keeps_db_sql_exec) (auto dest: shrink_stableD)

lemma keeps_shrink_sql:
  "shrink_stable J \<Longrightarrow> (\<And>d. shrinks d (snd (q d))) \<Longrightarrow> keeps (\<lambda>w. J (db w)) (sql q)"
  by (rule keeps_db_sql) (auto dest: shrink_stableD)

lemma keeps_catalog [keeps_intros]:
  assumes J: "shrink_stable J"
  shows "keeps (\<lambda>w. J (db w)) (q_registerRun rk p c)"
    and "keeps (\<lambda>w. J (db w)) (q_listOtherRuns rk)"
    and "keeps (\<lambda>w. J (db w)) q_countRuns"
    and "keeps (\<lambda>w. J (db w)) (q_deleteRun rk)"
    and "keeps (\<lambda>w. J (db w)) (q_lookupEntry a)"
    and "keeps (\<lambda>w. J (db w)) (q_deleteAction a)"
    and "keeps (\<lambda>w. J (db w)) (q_touchAccessed ents outs)"
    and "keeps (\<lambda>w. J (db w)) (q_dropAction a oid)"
    and "keeps (\<lambda>w. J (db w)) (q_evictOutput oid t)"
    and "keeps (\<lambda>w. J (db w)) q_compressedSize"
    and "keeps (\<lambda>w. J (db w)) q_outputStats"
    and "keeps (\<lambda>w. J (db w)) q_listOutputs"
    and "keeps (\<lambda>w. J (db w)) (q_referencedOutputIDs sh m)"
    and "keeps (\<lambda>w. J (db w)) (q_updateBlobType oid bk v)"
    and "keeps (\<lambda>w. J (db w)) (q_updateRetainedType oid k)"
    and "keeps (\<lambda>w. J (db w)) initDB"
proof -
  note defs = q_registerRun_def q_listOtherRuns_def q_countRuns_def q_deleteRun_def
    q_lookupEntry_def q_deleteAction_def q_touchAccessed_def touchAll_def q_dropAction_def
    q_evictOutput_def q_compressedSize_def q_outputStats_def q_listOutputs_def
    q_referencedOutputIDs_def q_updateBlobType_def q_updateRetainedType_def initDB_def
  note ex = keeps_shrink_exec [OF J] keeps_shrink_sql [OF J]
  show "keeps (\<lambda>w. J (db w)) (q_registerRun rk p c)" "keeps (\<lambda>w. J (db w)) (q_listOtherRuns rk)"
    "keeps (\<lambda>w. J (db w)) q_countRuns" "keeps (\<lambda>w. J (db w)) (q_deleteRun rk)"
    "keeps (\<lambda>w. J (db w)) (q_deleteAction a)" "keeps (\<lambda>w. J (db w)) (q_dropAction a oid)"
    "keeps (\<lambda>w. J (db w)) q_listOutputs" "keeps (\<lambda>w. J (db w)) (q_referencedOutputIDs sh m)"
    "keeps (\<lambda>w. J (db w)) (q_updateBlobType oid bk v)" "keeps (\<lambda>w. J (db w)) (q_updateRetainedType oid k)"
    unfolding defs by (intro keeps_intros ex; simp add: db_simps)+
  show "keeps (\<lambda>w. J (db w)) (q_touchAccessed ents outs)"
    unfolding defs by (intro keeps_intros ex; simp add: db_simps)
  show "keeps (\<lambda>w. J (db w)) (q_lookupEntry a)"
    unfolding defs by (intro keeps_intros)
  show "keeps (\<lambda>w. J (db w)) initDB"
    unfolding defs by (intro keeps_intros ex) (simp_all add: shrinks_runs)
  show "keeps (\<lambda>w. J (db w)) q_compressedSize" "keeps (\<lambda>w. J (db w)) q_outputStats"
    unfolding defs by (intro ex; simp split: option.splits)+
  show "keeps (\<lambda>w. J (db w)) (q_evictOutput oid t)"
    unfolding defs
    by (intro keeps_intros ex) (metis (mono_tags, lifting) case_prod_beta shrinks_sql(3) snd_conv)
qed

section \<open>What a put does\<close>

lemma upsert_output_cases:
  assumes "sql_upsert_output k s c t d = Some (i, d')"
  obtains (old) r where "find_output k d = Some r" "i = out_id r"
      "d' = d\<lparr>outputs := map_where (\<lambda>r. out_key r = k)
         (\<lambda>r. r\<lparr>out_size := s, out_compressed := c, out_accessed := t\<rparr>) (outputs d)\<rparr>"
  | (new) row where "find_output k d = None" "i = out_seq d + 1" "out_seq d \<noteq> max_i64"
      "out_id row = i" "out_key row = k" "out_size row = s" "out_compressed row = c" "out_accessed row = t"
      "d' = d\<lparr>outputs := outputs d @ [row], out_seq := i\<rparr>"
proof (cases "find_output k d")
  case None
  let ?row = "\<lparr>out_id = out_seq d + 1, out_key = k, out_size = s, out_compressed = c,
    out_accessed = t, out_blob_type = None, out_blob_version = None,
    out_retained_type = None, out_retained_version = None\<rparr>"
  from None assms show ?thesis
    by (intro new [of ?row]) (auto simp: sql_upsert_output_def Let_def split: if_splits)
next
  case (Some r)
  with assms show ?thesis by (intro old [of r]) (simp_all add: sql_upsert_output_def)
qed

lemma upsert_output_wf:
  assumes wf: "wf_tables d" and up: "sql_upsert_output k s c t d = Some (i, d')"
  shows "wf_tables d'"
  using up
proof (cases rule: upsert_output_cases)
  case (old r)
  with wf show ?thesis by (auto simp: wf_tables_def map_map_where set_map_where)
next
  case (new row)
  from new(1) have "k \<notin> out_key ` set (outputs d)" by (simp add: find_output_None)
  with new wf show ?thesis by (auto simp: wf_tables_def in_i64_def max_i64_def)
qed

lemma upsert_output_row:
  assumes wf: "wf_tables d" and up: "sql_upsert_output k s c t d = Some (i, d')"
  shows "\<exists>r\<in>set (outputs d'). out_id r = i \<and> out_key r = k \<and> out_size r = s \<and>
    out_compressed r = c \<and> out_accessed r = t"
  using up
proof (cases rule: upsert_output_cases)
  case (old r)
  then have "r \<in> set (outputs d)" "out_key r = k" by (auto dest: find_output_SomeD)
  with old show ?thesis
    by (auto simp: set_map_where intro!: bexI [of _ "r\<lparr>out_size := s, out_compressed := c, out_accessed := t\<rparr>"] rev_image_eqI)
next
  case (new row)
  then show ?thesis by auto
qed

lemma upsert_output_frame:
  assumes up: "sql_upsert_output k s c t d = Some (i, d')"
  shows "entries d' = entries d" "runs d' = runs d" "user_version d' = user_version d"
    "out_seq d \<le> out_seq d'"
  using up by (cases rule: upsert_output_cases; simp)+

lemma upsert_output_other:
  assumes wf: "wf_tables d" and up: "sql_upsert_output k s c t d = Some (i, d')"
    and r: "r \<in> set (outputs d')"
  shows "(\<exists>r0\<in>set (outputs d). out_id r0 = out_id r \<and> out_key r0 = out_key r) \<or>
    out_id r = out_seq d + 1 \<and> out_key r = k"
  using up
proof (cases rule: upsert_output_cases)
  case (old r1)
  with r show ?thesis by (auto simp: set_map_where)
next
  case (new row)
  with r show ?thesis by auto
qed

lemma upsert_output_tags:
  assumes wf: "wf_tables d" and tags: "tags_agree d"
    and up: "sql_upsert_output k s c t d = Some (i, d')"
  shows "tags_agree d'"
  unfolding tags_agree_def upsert_output_frame(1) [OF up]
proof (intro ballI impI)
  fix e r assume e: "e \<in> set (entries d)" and r: "r \<in> set (outputs d')" and eq: "ent_output e = out_id r"
  from wf e have "ent_output e \<le> out_seq d" by (auto simp: wf_tables_def)
  with upsert_output_other [OF wf up r] eq obtain r0 where
    "r0 \<in> set (outputs d)" "out_id r0 = out_id r" "out_key r0 = out_key r" by auto
  with tags e eq show "ent_tag e = outputTag (out_key r)" unfolding tags_agree_def by metis
qed

lemma upsert_entry_entries:
  assumes "e \<in> set (entries (sql_upsert_entry a i tag ct t d))"
  shows "ent_action e = a \<and> ent_output e = i \<and> ent_tag e = tag \<and> ent_created e = ct \<and> ent_accessed e = t
    \<or> ent_action e \<noteq> a \<and> e \<in> set (entries d)"
  using assms
  by (auto simp: sql_upsert_entry_def set_map_where find_entry_None split: option.splits if_splits)

lemma upsert_entry_frame [simp]:
  "outputs (sql_upsert_entry a i tag ct t d) = outputs d"
  "out_seq (sql_upsert_entry a i tag ct t d) = out_seq d"
  "runs (sql_upsert_entry a i tag ct t d) = runs d"
  by (simp_all add: sql_upsert_entry_def split: option.splits)

lemma upsert_entry_wf:
  assumes wf: "wf_tables d" and i: "1 \<le> i" "i \<le> out_seq d"
  shows "wf_tables (sql_upsert_entry a i tag ct t d)"
proof -
  let ?d = "sql_upsert_entry a i tag ct t d"
  have "distinct (map ent_action (entries ?d))"
  proof (cases "find_entry a d")
    case None
    then have "a \<notin> ent_action ` set (entries d)" by (simp add: find_entry_None)
    with None wf show ?thesis by (simp add: sql_upsert_entry_def wf_tables_def)
  next
    case (Some e)
    with wf show ?thesis by (simp add: sql_upsert_entry_def wf_tables_def map_map_where)
  qed
  moreover have "1 \<le> ent_output e \<and> ent_output e \<le> out_seq d" if "e \<in> set (entries ?d)" for e
    using upsert_entry_entries [OF that] wf i by (auto simp: wf_tables_def)
  ultimately show ?thesis using wf by (simp add: wf_tables_def)
qed

lemma upsert_entry_find:
  "\<exists>e. find_entry a (sql_upsert_entry a i tag ct t d) = Some e \<and>
    ent_output e = i \<and> ent_tag e = tag \<and> ent_created e = ct \<and> ent_accessed e = t"
proof (cases "find_entry a d")
  case None
  then show ?thesis by (simp add: sql_upsert_entry_def find_entry_def find_append)
next
  case (Some e)
  then have "ent_action e = a" by (auto dest: find_entry_SomeD)
  with Some show ?thesis
    by (simp add: sql_upsert_entry_def find_entry_def find_map_where)
qed

section \<open>The put transaction\<close>

text \<open>
  The tables a committed put leaves, as a function of the tables it started from. \<open>None\<close>
  when no commit is possible: an identifier is not hex, or the ids are exhausted.
\<close>

definition put_result :: "entry \<Rightarrow> tables \<Rightarrow> tables option" where
  "put_result ent d =
     (case idKey (ActionID ent) of None \<Rightarrow> None | Some a \<Rightarrow>
      case idKey (OutputID ent) of None \<Rightarrow> None | Some k \<Rightarrow>
      case sql_upsert_output k (Size ent) (CompressedSize ent) (unixMillis (AccessedAt ent)) d of
        None \<Rightarrow> None
      | Some (i, d1) \<Rightarrow>
          Some (sql_upsert_entry a i (outputTag k) (unixMillis (CreatedAt ent)) (unixMillis (AccessedAt ent)) d1))"

lemma put_resultE:
  assumes "put_result ent d = Some d'"
  obtains a k i d1 where "idKey (ActionID ent) = Some a" "idKey (OutputID ent) = Some k"
    "sql_upsert_output k (Size ent) (CompressedSize ent) (unixMillis (AccessedAt ent)) d = Some (i, d1)"
    "d' = sql_upsert_entry a i (outputTag k) (unixMillis (CreatedAt ent)) (unixMillis (AccessedAt ent)) d1"
  using assms by (auto simp: put_result_def split: option.splits)

lemma idKeyE_cases:
  "idKeyE h w = (case idKey h of None \<Rightarrow> (Inl (Panic ''catalog: not a hex ID''), w) | Some k \<Rightarrow> (Inr k, w))"
  by (simp add: idKeyE_def split: option.splits)

lemma tx_stmt_db:
  assumes "tx_stmt tx msg m w = (r, w')"
  shows "(\<exists>x. r = Inr x \<and> m w = (Inr x, w')) \<or> (\<exists>e. r = Inl (Wrap msg [e]) \<and> db w' = tx)"
  using assms
  by (auto simp: tx_stmt_def recoverE_def ignoreE_eq bindE_def rollback_tx_def split: prod.splits sum.splits)

lemma commit_tx_db:
  "commit_tx tx w = (r, w') \<Longrightarrow> (r = Inr () \<longrightarrow> db w' = db w) \<and> (db w' = db w \<or> db w' = tx)"
  by (auto simp: commit_tx_def Let_def split: option.splits if_splits)

text \<open>
  Both or neither: whatever fails, a put leaves the tables it found or the tables of the
  whole put, and success means the latter.
\<close>

lemma upsertEntryOnce_atomic:
  assumes run: "upsertEntryOnce ent w = (r, w')"
  shows "(r = Inr () \<longrightarrow> put_result ent (db w) = Some (db w')) \<and>
    (db w' = db w \<or> put_result ent (db w) = Some (db w'))"
proof -
  let ?at = "unixMillis (AccessedAt ent)"
  let ?q = "\<lambda>k d. case sql_upsert_output k (Size ent) (CompressedSize ent) ?at d of
       None \<Rightarrow> (Inl (SqlErr SQLITE_FULL), d) | Some (i, d') \<Rightarrow> (Inr i, d')"
  show ?thesis
  proof (cases "idKey (ActionID ent)")
    case None
    with run show ?thesis by (auto simp: upsertEntryOnce_def bindE_def idKeyE_cases)
  next
    case a: (Some a)
    show ?thesis
    proof (cases "idKey (OutputID ent)")
      case None
      with run a show ?thesis by (auto simp: upsertEntryOnce_def bindE_def idKeyE_cases)
    next
      case k: (Some k)
      obtain r1 w1 where b: "begin_tx w = (r1, w1)" by (cases "begin_tx w")
      have d1: "db w1 = db w" using frame_eqD [OF frame_db_sql_read(2) b] .
      show ?thesis
      proof (cases r1)
        case (Inl e)
        with run a k b d1 show ?thesis
          by (auto simp: upsertEntryOnce_def bindE_def idKeyE_cases wrapE_def Let_def)
      next
        case (Inr tx)
        with b have tx: "tx = db w" by (simp add: begin_tx_result)
        obtain r2 w2 where s2: "tx_stmt tx ''record output'' (sql (?q k)) w1 = (r2, w2)"
          by (cases "tx_stmt tx ''record output'' (sql (?q k)) w1")
        show ?thesis
        proof (cases r2)
          case (Inl e)
          with tx_stmt_db [OF s2] tx have "db w2 = db w" by auto
          with run a k b Inr s2 Inl show ?thesis
            by (auto simp: upsertEntryOnce_def bindE_def idKeyE_cases wrapE_def Let_def)
        next
          case i: (Inr i)
          with tx_stmt_db [OF s2] have "sql (?q k) w1 = (Inr i, w2)" by auto
          then obtain d2 where q: "sql_upsert_output k (Size ent) (CompressedSize ent) ?at (db w) = Some (i, d2)"
            and w2: "db w2 = d2"
            by (auto dest!: sql_InrD simp: d1 split: option.splits)
          let ?u = "sql_exec (sql_upsert_entry a i (outputTag k) (unixMillis (CreatedAt ent)) ?at)"
          obtain r3 w3 where s3: "tx_stmt tx ''record entry'' ?u w2 = (r3, w3)"
            by (cases "tx_stmt tx ''record entry'' ?u w2")
          show ?thesis
          proof (cases r3)
            case (Inl e)
            with tx_stmt_db [OF s3] tx have "db w3 = db w" by auto
            with run a k b Inr s2 i s3 Inl show ?thesis
              by (auto simp: upsertEntryOnce_def bindE_def idKeyE_cases wrapE_def Let_def)
          next
            case u: (Inr u)
            with tx_stmt_db [OF s3] have "?u w2 = (Inr u, w3)" by auto
            then have w3: "put_result ent (db w) = Some (db w3)"
              by (auto dest!: sql_exec_InrD simp: put_result_def a k q w2)
            obtain r4 w4 where s4: "commit_tx tx w3 = (r4, w4)" by (cases "commit_tx tx w3")
            from run a k b Inr s2 i s3 u s4 have "w' = w4" "(r = Inr ()) = (r4 = Inr ())"
              by (auto simp: upsertEntryOnce_def bindE_def idKeyE_cases wrapE_def Let_def split: sum.splits)
            with commit_tx_db [OF s4] w3 tx show ?thesis by auto
          qed
        qed
      qed
    qed
  qed
qed

end
