(* ===== verification/Put_Spec.thy ===== *)
theory Put_Spec
  imports Catalog_Props
begin

text \<open>
  Puts and lookups through the catalog's contract: what a put binds, that it is all or
  nothing across retries, and that no history of operations makes an action answer with an
  output it was not last bound to.
\<close>

section \<open>A put, its invariants and its retries\<close>

lemma upsert_output_id:
  assumes wf: "wf_tables d" and up: "sql_upsert_output k s c t d = Some (i, d')"
  shows "1 \<le> i \<and> i \<le> out_seq d'"
  using up
proof (cases rule: upsert_output_cases)
  case (old r)
  then have "r \<in> set (outputs d)" by (auto dest: find_output_SomeD)
  with wf old show ?thesis by (auto simp: wf_tables_def)
next
  case (new row)
  with wf show ?thesis by (simp add: wf_tables_def)
qed

lemma put_result_wf:
  assumes wf: "wf_tables d" and put: "put_result ent d = Some d'"
  shows "wf_tables d'"
  using put
proof (cases rule: put_resultE)
  case (1 a k i d1)
  have "wf_tables d1" by (rule upsert_output_wf [OF wf 1(3)])
  then show ?thesis
    unfolding 1(4) using upsert_output_id [OF wf 1(3)] by (intro upsert_entry_wf) auto
qed

lemma put_result_tags:
  assumes wf: "wf_tables d" and tags: "tags_agree d" and put: "put_result ent d = Some d'"
  shows "tags_agree d'"
  using put
proof (cases rule: put_resultE)
  case (1 a k i d1)
  have wf1: "wf_tables d1" by (rule upsert_output_wf [OF wf 1(3)])
  have t1: "tags_agree d1" by (rule upsert_output_tags [OF wf tags 1(3)])
  obtain r0 where r0: "r0 \<in> set (outputs d1)" "out_id r0 = i" "out_key r0 = k"
    using upsert_output_row [OF wf 1(3)] by blast
  show ?thesis unfolding tags_agree_def
  proof (intro ballI impI)
    fix e r assume e: "e \<in> set (entries d')" and r: "r \<in> set (outputs d')" and eq: "ent_output e = out_id r"
    have r1: "r \<in> set (outputs d1)" using r by (simp add: 1(4))
    from upsert_entry_entries [OF e [unfolded 1(4)]]
    consider (new) "ent_output e = i" "ent_tag e = outputTag k" | (old) "e \<in> set (entries d1)" by blast
    then show "ent_tag e = outputTag (out_key r)"
    proof cases
      case new
      have "r = r0"
        by (rule distinct_map_filter_eq [of out_id "outputs d1"])
          (use wf1 r1 r0 new eq in \<open>auto simp: wf_tables_def\<close>)
      with new r0 show ?thesis by simp
    next
      case old
      with t1 r1 eq show ?thesis by (auto simp: tags_agree_def)
    qed
  qed
qed

lemma map_where_id: "(\<And>r. r \<in> set rs \<Longrightarrow> P r \<Longrightarrow> f r = r) \<Longrightarrow> map_where P f rs = rs"
  by (simp add: map_where_def map_idI)

lemma upsert_output_again:
  assumes up: "sql_upsert_output k s c t d = Some (i, d1)"
  shows "sql_upsert_output k s c t (sql_upsert_entry a i' tag ct t' d1) =
    Some (i, sql_upsert_entry a i' tag ct t' d1)"
proof -
  let ?d2 = "sql_upsert_entry a i' tag ct t' d1"
  have find: "\<exists>r. find_output k d1 = Some r \<and> out_id r = i"
    and same: "\<And>r. r \<in> set (outputs d1) \<Longrightarrow> out_key r = k \<Longrightarrow>
      r\<lparr>out_size := s, out_compressed := c, out_accessed := t\<rparr> = r"
    using up
  proof (atomize (full), cases rule: upsert_output_cases)
    case (old r)
    then show "(\<exists>r. find_output k d1 = Some r \<and> out_id r = i) \<and> (\<forall>r. r \<in> set (outputs d1) \<longrightarrow>
        out_key r = k \<longrightarrow> r\<lparr>out_size := s, out_compressed := c, out_accessed := t\<rparr> = r)"
      by (auto simp: find_output_def find_map_where set_map_where)
  next
    case (new row)
    then show "(\<exists>r. find_output k d1 = Some r \<and> out_id r = i) \<and> (\<forall>r. r \<in> set (outputs d1) \<longrightarrow>
        out_key r = k \<longrightarrow> r\<lparr>out_size := s, out_compressed := c, out_accessed := t\<rparr> = r)"
      by (auto simp: find_output_def find_append find_None_iff [symmetric] split: option.splits)
         (auto simp: find_None_iff)
  qed
  from find obtain r where r: "find_output k ?d2 = Some r" "out_id r = i"
    by (auto simp: find_output_def)
  have "map_where (\<lambda>r. out_key r = k) (\<lambda>r. r\<lparr>out_size := s, out_compressed := c, out_accessed := t\<rparr>)
      (outputs ?d2) = outputs ?d2"
    using same by (intro map_where_id) auto
  then show ?thesis by (simp add: sql_upsert_output_def r)
qed

lemma upsert_entry_again:
  "sql_upsert_entry a i tag ct t (sql_upsert_entry a i tag ct t d) = sql_upsert_entry a i tag ct t d"
proof -
  let ?d = "sql_upsert_entry a i tag ct t d"
  obtain e where e: "find_entry a ?d = Some e" using upsert_entry_find by blast
  have "map_where (\<lambda>r. ent_action r = a)
      (\<lambda>r. r\<lparr>ent_output := i, ent_tag := tag, ent_created := ct, ent_accessed := t\<rparr>) (entries ?d) = entries ?d"
    by (intro map_where_id) (auto dest!: upsert_entry_entries)
  then show ?thesis using e by (simp add: sql_upsert_entry_def [of _ _ _ _ _ ?d])
qed

lemma put_result_again:
  assumes "put_result ent d = Some d'" shows "put_result ent d' = Some d'"
  using assms
proof (cases rule: put_resultE)
  case (1 a k i d1)
  show ?thesis
    unfolding put_result_def 1(1,2) option.case 1(4)
      upsert_output_again [OF 1(3)] prod.case upsert_entry_again ..
qed

text \<open>Retrying keeps a property of results that is preserved from one attempt to the next.\<close>

lemma retry_from_induct:
  assumes run: "retry_from n fn w = (r, w')"
    and step: "\<And>w r w'. I w \<Longrightarrow> fn w = (r, w') \<Longrightarrow> I w' \<and> Q r w'"
    and I: "I w"
  shows "I w' \<and> Q r w'"
  using run I step
proof (induction n fn w arbitrary: r w' rule: retry_from.induct)
  case (1 n fn w)
  obtain r1 w1 where f: "fn w = (r1, w1)" by (cases "fn w")
  have one: "I w1 \<and> Q r1 w1" by (rule "1.prems"(3) [OF "1.prems"(2) f])
  show ?case
  proof (cases r1)
    case (Inr x)
    with "1.prems"(1) f one show ?thesis by (auto simp: retry_from.simps [of n])
  next
    case (Inl e)
    show ?thesis
    proof (cases "\<not> isSQLiteBusy e \<or> catalogPutAttempts \<le> n")
      case True
      with "1.prems"(1) f Inl one show ?thesis by (auto simp: retry_from.simps [of n])
    next
      case False
      with "1.prems"(1) f Inl have again: "retry_from (Suc n) fn w1 = (r, w')"
        by (simp add: retry_from.simps [of n])
      show ?thesis
        by (rule "1.IH" [OF f [symmetric] Inl False again]) (use one "1.prems"(3) in blast)+
    qed
  qed
qed

lemma q_upsertEntry_atomic:
  assumes run: "q_upsertEntry ent w = (r, w')"
  shows "(db w' = db w \<or> put_result ent (db w) = Some (db w')) \<and>
    (r = Inr () \<longrightarrow> put_result ent (db w) = Some (db w'))"
  by (rule retry_from_induct [OF run [unfolded q_upsertEntry_def retrySQLiteBusy_def]])
    (use upsertEntryOnce_atomic put_result_again in \<open>fastforce+\<close>)

section \<open>The abstract catalog\<close>

text \<open>
  What the catalog promises is a map: from an action to the output it names, that output's
  size and the time of the put in milliseconds. A put rebinds its action; the size belongs to
  the output, so every other action naming the same output sees the new one.
\<close>

type_synonym binding = "bytes \<times> int \<times> int"

definition abs_catalog :: "tables \<Rightarrow> bytes \<Rightarrow> binding option" where
  "abs_catalog d a = map_option (\<lambda>(k, s, c, t). (k, s, c)) (sql_lookup_entry a d)"

definition abs_put :: "bytes \<Rightarrow> binding \<Rightarrow> (bytes \<Rightarrow> binding option) \<Rightarrow> bytes \<Rightarrow> binding option" where
  "abs_put a b m x =
     (if x = a then Some b
      else map_option (\<lambda>(k, s, c). (k, if k = fst b then fst (snd b) else s, c)) (m x))"

definition abs_drop :: "bytes \<Rightarrow> bytes \<Rightarrow> (bytes \<Rightarrow> binding option) \<Rightarrow> bytes \<Rightarrow> binding option" where
  "abs_drop a k m x =
     (case m x of None \<Rightarrow> None | Some b \<Rightarrow> if x = a \<or> fst b = k then None else Some b)"

lemma lookup_Some:
  "sql_lookup_entry a d = Some (k, s, c, t) \<longleftrightarrow>
    (\<exists>e r. find_entry a d = Some e \<and> find_output_id (ent_output e) d = Some r \<and>
      k = out_key r \<and> s = out_size r \<and> c = ent_created e \<and> t = ent_tag e)"
  by (auto simp: sql_lookup_entry_def split: option.splits)

lemma find_entry_iff:
  "wf_tables d \<Longrightarrow> find_entry a d = Some e \<longleftrightarrow> e \<in> set (entries d) \<and> ent_action e = a"
  using find_key_unique [of ent_action "entries d" e]
  by (auto simp: wf_tables_def find_entry_def dest: find_Some_key)

lemma find_output_id_iff:
  "wf_tables d \<Longrightarrow> find_output_id i d = Some r \<longleftrightarrow> r \<in> set (outputs d) \<and> out_id r = i"
  using find_key_unique [of out_id "outputs d" r]
  by (auto simp: wf_tables_def find_output_id_def dest: find_Some_key)

lemma lookup_iff:
  "wf_tables d \<Longrightarrow> sql_lookup_entry a d = Some (k, s, c, t) \<longleftrightarrow>
    (\<exists>e\<in>set (entries d). \<exists>r\<in>set (outputs d). ent_action e = a \<and> out_id r = ent_output e \<and>
      k = out_key r \<and> s = out_size r \<and> c = ent_created e \<and> t = ent_tag e)"
  by (simp only: lookup_Some find_entry_iff find_output_id_iff Bex_def) blast

lemma lookup_shrinks:
  assumes wf: "wf_tables d0" and s: "shrinks d0 d" and l: "sql_lookup_entry a d = Some (k, sz, c, t)"
  shows "sql_lookup_entry a d0 = Some (k, sz, c, t)"
proof -
  have wf': "wf_tables d" by (rule shrinks_wf [OF s wf])
  from l obtain e r where er: "e \<in> set (entries d)" "r \<in> set (outputs d)" "ent_action e = a"
    "out_id r = ent_output e" "k = out_key r" "sz = out_size r" "c = ent_created e" "t = ent_tag e"
    unfolding lookup_iff [OF wf'] by auto
  from shrinks_entryD [OF s er(1)] shrinks_outputD [OF s er(2)] er show ?thesis
    unfolding lookup_iff [OF wf] by metis
qed

lemma abs_catalog_shrinks:
  "wf_tables d0 \<Longrightarrow> shrinks d0 d \<Longrightarrow> abs_catalog d a = Some b \<Longrightarrow> abs_catalog d0 a = Some b"
  by (auto simp: abs_catalog_def dest: lookup_shrinks)

lemma lookup_tag:
  "wf_tables d \<Longrightarrow> tags_agree d \<Longrightarrow> sql_lookup_entry a d = Some (k, s, c, t) \<Longrightarrow> t = outputTag k"
  by (auto simp: lookup_iff tags_agree_def)

lemma find_entry_upsert_other:
  "x \<noteq> a \<Longrightarrow> find_entry x (sql_upsert_entry a i tag ct t d) = find_entry x d"
  by (auto simp: sql_upsert_entry_def find_entry_def find_append find_map_where split: option.splits
      dest: find_Some_key)

lemma upsert_output_find_id:
  assumes wf: "wf_tables d" and up: "sql_upsert_output k s c t d = Some (i, d1)"
  shows "j \<le> out_seq d \<Longrightarrow>
    map_option (\<lambda>r. (out_key r, out_size r)) (find_output_id j d1) =
    map_option (\<lambda>r. (out_key r, if out_key r = k then s else out_size r)) (find_output_id j d)"
    and "\<exists>r. find_output_id i d1 = Some r \<and> out_key r = k \<and> out_size r = s"
proof -
  have wf1: "wf_tables d1" by (rule upsert_output_wf [OF wf up])
  show "\<exists>r. find_output_id i d1 = Some r \<and> out_key r = k \<and> out_size r = s"
    using upsert_output_row [OF wf up] find_output_id_iff [OF wf1] by blast
  assume "j \<le> out_seq d"
  from up show "map_option (\<lambda>r. (out_key r, out_size r)) (find_output_id j d1) =
    map_option (\<lambda>r. (out_key r, if out_key r = k then s else out_size r)) (find_output_id j d)"
  proof (cases rule: upsert_output_cases)
    case (old r)
    then show ?thesis
      by (simp add: find_output_id_def find_map_where option.map_comp comp_def if_distrib cong: if_cong)
  next
    case (new row)
    have none: "r \<in> set (outputs d) \<Longrightarrow> out_key r \<noteq> k" for r
      using new(1) by (auto simp: find_output_None)
    show ?thesis
      using new \<open>j \<le> out_seq d\<close>
      by (auto simp: find_output_id_def find_append dest: find_Some_key none split: option.splits)
  qed
qed

theorem put_result_refines:
  assumes wf: "wf_tables d" and put: "put_result ent d = Some d'"
    and a: "idKey (ActionID ent) = Some a" and k: "idKey (OutputID ent) = Some k"
  shows "abs_catalog d' = abs_put a (k, Size ent, unixMillis (CreatedAt ent)) (abs_catalog d)"
proof
  fix x
  from put show "abs_catalog d' x = abs_put a (k, Size ent, unixMillis (CreatedAt ent)) (abs_catalog d) x"
  proof (cases rule: put_resultE)
    case (1 a' k' i d1)
    with a k have [simp]: "a' = a" "k' = k" by auto
    have out: "find_output_id j d' = find_output_id j d1" for j
      by (simp add: 1(4) find_output_id_def)
    show ?thesis
    proof (cases "x = a")
      case True
      with upsert_entry_find [of a i "outputTag k" "unixMillis (CreatedAt ent)" "unixMillis (AccessedAt ent)" d1]
        upsert_output_find_id(2) [OF wf 1(3)] show ?thesis
        by (auto simp: abs_catalog_def abs_put_def sql_lookup_entry_def out 1(4))
          (auto simp: find_output_id_def)
    next
      case False
      have ent: "find_entry x d' = find_entry x d"
        using False find_entry_upsert_other [of x a' i "outputTag k'" _ _ d1]
        by (simp only: 1(4) \<open>a' = a\<close>) (simp add: find_entry_def upsert_output_frame(1) [OF 1(3)])
      show ?thesis
      proof (cases "find_entry x d")
        case None
        with ent False show ?thesis by (simp add: abs_catalog_def abs_put_def sql_lookup_entry_def)
      next
        case (Some e)
        then have "ent_output e \<le> out_seq d" using wf by (auto simp: wf_tables_def dest: find_entry_SomeD)
        from upsert_output_find_id(1) [OF wf 1(3) this] Some ent False show ?thesis
          by (auto simp: abs_catalog_def abs_put_def sql_lookup_entry_def out split: option.splits)
      qed
    qed
  qed
qed

definition cat_inv :: "tables \<Rightarrow> bool" where
  "cat_inv d \<longleftrightarrow> wf_tables d \<and> tags_agree d"

lemma cat_inv_empty [simp]: "cat_inv empty_tables"
  using wf_empty_tables by (simp add: cat_inv_def)

lemma cat_inv_stable [simp]: "shrink_stable cat_inv"
  by (auto simp: shrink_stable_def cat_inv_def intro: shrinks_wf shrinks_tags)

lemma cat_inv_put: "cat_inv d \<Longrightarrow> put_result ent d = Some d' \<Longrightarrow> cat_inv d'"
  by (auto simp: cat_inv_def intro: put_result_wf put_result_tags)

text \<open>
  The invariant a put keeps, and the same in the form the components above use: it is kept
  by the whole operation, however it ends.
\<close>

lemma keeps_cat_inv_put [keeps_intros]: "keeps (\<lambda>w. cat_inv (db w)) (q_upsertEntry ent)"
  unfolding keeps_def
proof (intro allI impI)
  fix w :: world assume inv: "cat_inv (db w)"
  obtain r w' where "q_upsertEntry ent w = (r, w')" by (cases "q_upsertEntry ent w")
  with q_upsertEntry_atomic [OF this] inv cat_inv_put show "cat_inv (db (snd (q_upsertEntry ent w)))"
    by auto
qed

section \<open>The contract of an action cache\<close>

text \<open>
  What a client of the catalog relies on: a put binds its action and nothing else, and every
  other operation may only lose bindings. The client's lemma is that whatever is answered
  was put, and that no later put of the same action superseded it.
\<close>

locale action_cache =
  fixes inv :: "'s \<Rightarrow> bool"
    and find :: "'s \<Rightarrow> 'a \<Rightarrow> 'o option"
    and put :: "'s \<Rightarrow> 'a \<Rightarrow> 'o \<Rightarrow> 's \<Rightarrow> bool"
    and lose :: "'s \<Rightarrow> 's \<Rightarrow> bool"
  assumes inv_put: "inv s \<Longrightarrow> put s a x s' \<Longrightarrow> inv s'"
    and inv_lose: "inv s \<Longrightarrow> lose s s' \<Longrightarrow> inv s'"
    and find_put: "inv s \<Longrightarrow> put s a x s' \<Longrightarrow> find s' b = (if b = a then Some x else find s b)"
    and find_lose: "inv s \<Longrightarrow> lose s s' \<Longrightarrow> find s' b = Some y \<Longrightarrow> find s b = Some y"
begin

text \<open>One step: a put that was committed, a put that may have been, or a loss.\<close>

inductive step :: "'s \<Rightarrow> ('a \<times> 'o \<times> bool) option \<Rightarrow> 's \<Rightarrow> bool" where
  committed: "put s a x s' \<Longrightarrow> step s (Some (a, x, True)) s'"
| attempted: "s' = s \<or> put s a x s' \<Longrightarrow> step s (Some (a, x, False)) s'"
| lost: "lose s s' \<Longrightarrow> step s None s'"

lemma step_inv: "step s l s' \<Longrightarrow> inv s \<Longrightarrow> inv s'"
  by (induction rule: step.induct) (auto intro: inv_put inv_lose)

lemma step_find:
  "step s l s' \<Longrightarrow> inv s \<Longrightarrow> find s' b = Some y \<Longrightarrow>
    (case l of None \<Rightarrow> find s b = Some y
     | Some (a, x, ok) \<Rightarrow> if a = b then y = x \<or> \<not> ok \<and> find s b = Some y else find s b = Some y)"
  by (induction rule: step.induct) (auto simp: find_put split: if_splits dest: find_lose)

end

text \<open>The output an action names, by key.\<close>

definition names :: "tables \<Rightarrow> bytes \<Rightarrow> bytes option" where
  "names d a = map_option fst (abs_catalog d a)"

definition puts :: "tables \<Rightarrow> bytes \<Rightarrow> bytes \<Rightarrow> tables \<Rightarrow> bool" where
  "puts d a k d' \<longleftrightarrow>
     (\<exists>ent. idKey (ActionID ent) = Some a \<and> idKey (OutputID ent) = Some k \<and> put_result ent d = Some d')"

interpretation catalog: action_cache cat_inv names puts shrinks
proof
  show "cat_inv d' " if "cat_inv d" "puts d a k d'" for d a k d'
    using that by (auto simp: puts_def intro: cat_inv_put)
  show "cat_inv d'" if "cat_inv d" "shrinks d d'" for d d'
    using shrink_stableD [OF cat_inv_stable] that by blast
  show "names d' b = (if b = a then Some k else names d b)" if "cat_inv d" "puts d a k d'" for d a k d' b
    using that
    by (auto simp: puts_def names_def abs_put_def cat_inv_def option.map_comp comp_def case_prod_beta
        dest!: put_result_refines)
  show "names d b = Some y" if "cat_inv d" "shrinks d d'" "names d' b = Some y" for d d' b y
    using that by (auto simp: names_def cat_inv_def dest: abs_catalog_shrinks)
qed

section \<open>Programs\<close>

text \<open>A world in which nothing fails and the catalog is empty, for concrete runs.\<close>

definition calm_mem :: store_mem where
  "calm_mem = \<lparr>materialized = [], accessed = [], accessedOutputs = [], accessFlushed = 0,
     installed = 0, stripeDirOnce = None\<rparr>"

definition calm_world :: world where
  "calm_world = \<lparr>nodes = [], inodes = (\<lambda>_. \<lparr>ino_data = [], ino_mtime = 0\<rparr>), next_ino = 0,
     db = empty_tables, held = [], busy = (\<lambda>_. False), clock = (\<lambda>_. 0), rand = (\<lambda>_. ''r''),
     fault = (\<lambda>_. None), ticks = 0, mem = calm_mem\<rparr>"

lemma calm_world_simps [simp]:
  "db calm_world = empty_tables" "fault calm_world = (\<lambda>_. None)" "clock calm_world = (\<lambda>_. 0)"
  "ticks calm_world = 0" "nodes calm_world = []" "held calm_world = []" "mem calm_world = calm_mem"
  by (simp_all add: calm_world_def)

lemma abs_catalog_empty [simp]: "abs_catalog empty_tables = (\<lambda>_. None)"
  by (simp add: abs_catalog_def sql_lookup_entry_def find_entry_def empty_tables_def fun_eq_iff)

lemma lookup_program:
  "q_lookupEntry aid w =
    (case idKey aid of None \<Rightarrow> (Inl (Panic ''catalog: not a hex ID''), w) | Some a \<Rightarrow>
     case fault w (ticks w) of Some x \<Rightarrow> (Inl (SqlErr (flt_code x)), w\<lparr>ticks := Suc (ticks w)\<rparr>) | None \<Rightarrow>
     (case sql_lookup_entry a (db w) of None \<Rightarrow> Inl ErrNoRows
      | Some (k, s, c, t) \<Rightarrow>
          if t \<noteq> outputTag k then Inl (Wrap ''tag resolved to output'' [ErrTagMismatch])
          else Inr \<lparr>ActionID = aid, OutputID = hex_encode k, Size = s, CompressedSize = 0,
                    CreatedAt = millisTime c, AccessedAt = 0\<rparr>,
      w\<lparr>ticks := Suc (ticks w)\<rparr>))"
  by (auto simp: q_lookupEntry_def bindE_def idKeyE_cases sql_read_def sql_def effect_def Let_def
      split: option.splits)

lemma upsert_recorded:
  assumes inv: "cat_inv (db w)" and put: "q_upsertEntry ent w = (Inr (), w1)"
  shows "\<exists>a k. idKey (ActionID ent) = Some a \<and> idKey (OutputID ent) = Some k \<and>
    sql_lookup_entry a (db w1) = Some (k, Size ent, unixMillis (CreatedAt ent), outputTag k)"
proof -
  have res: "put_result ent (db w) = Some (db w1)"
    using q_upsertEntry_atomic [OF put] by simp
  then obtain a k where ak: "idKey (ActionID ent) = Some a" "idKey (OutputID ent) = Some k"
    by (rule put_resultE)
  have wf: "wf_tables (db w)" and inv1: "cat_inv (db w1)"
    using inv cat_inv_put [OF inv res] by (simp_all add: cat_inv_def)
  have "abs_catalog (db w1) a = Some (k, Size ent, unixMillis (CreatedAt ent))"
    using put_result_refines [OF wf res ak] by (simp add: abs_put_def)
  then obtain t where l: "sql_lookup_entry a (db w1) = Some (k, Size ent, unixMillis (CreatedAt ent), t)"
    by (auto simp: abs_catalog_def)
  moreover have "t = outputTag k"
    using lookup_tag [OF _ _ l] inv1 by (simp add: cat_inv_def)
  ultimately show ?thesis using ak by blast
qed

text \<open>
  C1. Put and lookup round trip: when a put reports success, a lookup of the same action
  whose query does not fail returns the put's output, size and creation time to the
  millisecond, whatever busy retries the put went through.
\<close>

theorem put_lookup_roundtrip:
  assumes inv: "cat_inv (db w)" and put: "q_upsertEntry ent w = (Inr (), w1)"
    and ok: "fault w1 (ticks w1) = None"
  shows "\<exists>k. idKey (OutputID ent) = Some k \<and>
    fst (q_lookupEntry (ActionID ent) w1) =
      Inr \<lparr>ActionID = ActionID ent, OutputID = hex_encode k, Size = Size ent, CompressedSize = 0,
           CreatedAt = millisTime (unixMillis (CreatedAt ent)), AccessedAt = 0\<rparr>"
  using upsert_recorded [OF inv put] ok by (auto simp: lookup_program)

definition sample_entry :: entry where
  "sample_entry = \<lparr>ActionID = hex_encode ''a'', OutputID = hex_encode ''o'', Size = 7, CompressedSize = 5,
     CreatedAt = 3999999, AccessedAt = 2000000\<rparr>"

lemma sample_put:
  "fst (q_upsertEntry sample_entry calm_world) = Inr ()"
  "fault (snd (q_upsertEntry sample_entry calm_world)) = (\<lambda>_. None)"
  by (simp_all add: q_upsertEntry_def retrySQLiteBusy_def retry_from.simps upsertEntryOnce_def bindE_def
      idKeyE_def sample_entry_def idKey_def hex_val_def begin_tx_def sql_read_def sql_exec_def sql_def
      effect_def tx_stmt_def recoverE_def wrapE_def commit_tx_def sql_upsert_output_def
      find_output_def empty_tables_def max_i64_def Let_def)

lemma put_lookup_roundtrip_witness:
  "\<exists>w1. q_upsertEntry sample_entry calm_world = (Inr (), w1) \<and>
    fst (q_lookupEntry (hex_encode ''a'') w1) =
      Inr \<lparr>ActionID = hex_encode ''a'', OutputID = hex_encode ''o'', Size = 7, CompressedSize = 0,
           CreatedAt = 3000000, AccessedAt = 0\<rparr>"
proof -
  obtain w1 where w1: "q_upsertEntry sample_entry calm_world = (Inr (), w1)" "fault w1 = (\<lambda>_. None)"
    using sample_put by (cases "q_upsertEntry sample_entry calm_world") auto
  have "cat_inv (db calm_world)" by simp
  from put_lookup_roundtrip [OF this w1(1)] w1 show ?thesis
    by (auto simp: sample_entry_def millisTime_def unixMillis_def i64_def signed_divide_int_def)
qed

text \<open>
  C2. Puts refine the abstract map, all or nothing: whatever statement, commit or retry fails,
  the catalog afterwards is the one before or the one in which exactly this put is applied,
  success means the second, and the invariant survives.
\<close>

theorem put_refines:
  assumes inv: "cat_inv (db w)" and put: "q_upsertEntry ent w = (r, w')"
    and a: "idKey (ActionID ent) = Some a" and k: "idKey (OutputID ent) = Some k"
  shows "cat_inv (db w') \<and>
    (db w' = db w \<or>
     abs_catalog (db w') = abs_put a (k, Size ent, unixMillis (CreatedAt ent)) (abs_catalog (db w))) \<and>
    (r = Inr () \<longrightarrow>
     abs_catalog (db w') = abs_put a (k, Size ent, unixMillis (CreatedAt ent)) (abs_catalog (db w)))"
  using q_upsertEntry_atomic [OF put] inv put_result_refines [OF _ _ a k, of "db w" "db w'"]
    cat_inv_put [OF inv, of ent "db w'"]
  by (auto simp: cat_inv_def)

lemma put_refines_witness:
  "\<exists>w1. q_upsertEntry sample_entry calm_world = (Inr (), w1) \<and> cat_inv (db w1) \<and>
    abs_catalog (db w1) ''a'' = Some (''o'', 7, 3)"
proof -
  obtain w1 where w1: "q_upsertEntry sample_entry calm_world = (Inr (), w1)"
    using sample_put by (cases "q_upsertEntry sample_entry calm_world") auto
  have inv: "cat_inv (db calm_world)" by simp
  from put_refines [OF inv w1, of "''a''" "''o''"] w1 show ?thesis
    by (auto simp: sample_entry_def abs_put_def unixMillis_def i64_def signed_divide_int_def)
qed

text \<open>
  Two catalogs that hold one binding: with the tag of its output, or with another one (an
  entry whose output id was reused).
\<close>

definition tagged_world :: "bytes \<Rightarrow> world" where
  "tagged_world t = calm_world\<lparr>db := empty_tables\<lparr>
     outputs := [\<lparr>out_id = 1, out_key = ''out key'', out_size = 7, out_compressed = 5, out_accessed = 0,
       out_blob_type = None, out_blob_version = None, out_retained_type = None, out_retained_version = None\<rparr>],
     entries := [\<lparr>ent_action = ''a'', ent_output = 1, ent_tag = t, ent_created = 3, ent_accessed = 0\<rparr>],
     out_seq := 1\<rparr>\<rparr>"

text \<open>
  C3. A lookup reads the catalog and nothing else. On any catalog whatever, and whatever
  fails, an entry it returns is that of a row of the action whose tag is the tag of the output
  its interned id resolves to, with that output's digest and size; when the statement does not
  fail, an entry that resolves to an output of another tag is answered with
  \<open>errTagMismatch\<close>; and on a catalog in its invariant the answer is exactly the abstract map.
  The catalog is left as it was.
\<close>

theorem lookup_refines:
  assumes key: "idKey aid = Some a"
  shows "db (snd (q_lookupEntry aid w)) = db w \<and>
    (\<forall>ent. fst (q_lookupEntry aid w) = Inr ent \<longrightarrow>
      (\<exists>e\<in>set (entries (db w)). \<exists>r\<in>set (outputs (db w)).
        ent_action e = a \<and> out_id r = ent_output e \<and> ent_tag e = outputTag (out_key r) \<and>
        ent = \<lparr>ActionID = aid, OutputID = hex_encode (out_key r), Size = out_size r, CompressedSize = 0,
               CreatedAt = millisTime (ent_created e), AccessedAt = 0\<rparr>)) \<and>
    (fault w (ticks w) = None \<longrightarrow>
      (\<forall>e r. find_entry a (db w) = Some e \<longrightarrow> find_output_id (ent_output e) (db w) = Some r \<longrightarrow>
        ent_tag e \<noteq> outputTag (out_key r) \<longrightarrow>
        fst (q_lookupEntry aid w) = Inl (Wrap ''tag resolved to output'' [ErrTagMismatch])) \<and>
      (cat_inv (db w) \<longrightarrow>
        fst (q_lookupEntry aid w) =
          (case abs_catalog (db w) a of
             None \<Rightarrow> Inl ErrNoRows
           | Some (k, s, c) \<Rightarrow>
               Inr \<lparr>ActionID = aid, OutputID = hex_encode k, Size = s, CompressedSize = 0,
                    CreatedAt = millisTime c, AccessedAt = 0\<rparr>)))"
proof (intro conjI impI allI)
  show "db (snd (q_lookupEntry aid w)) = db w"
    using key by (simp add: lookup_program split: option.splits)
next
  fix ent assume ok: "fst (q_lookupEntry aid w) = Inr ent"
  then obtain k s c t where row: "sql_lookup_entry a (db w) = Some (k, s, c, t)" "t = outputTag k"
    and ent: "ent = \<lparr>ActionID = aid, OutputID = hex_encode k, Size = s, CompressedSize = 0,
                     CreatedAt = millisTime c, AccessedAt = 0\<rparr>"
    using key by (auto simp: lookup_program split: option.splits if_splits)
  from row(1) obtain e r where "find_entry a (db w) = Some e" "find_output_id (ent_output e) (db w) = Some r"
    "k = out_key r" "s = out_size r" "c = ent_created e" "t = ent_tag e" by (auto simp: lookup_Some)
  with row(2) ent show "\<exists>e\<in>set (entries (db w)). \<exists>r\<in>set (outputs (db w)).
      ent_action e = a \<and> out_id r = ent_output e \<and> ent_tag e = outputTag (out_key r) \<and>
      ent = \<lparr>ActionID = aid, OutputID = hex_encode (out_key r), Size = out_size r, CompressedSize = 0,
             CreatedAt = millisTime (ent_created e), AccessedAt = 0\<rparr>"
    by (auto simp: find_output_id_def dest!: find_entry_SomeD find_Some_key)
next
  fix e r assume "fault w (ticks w) = None" "find_entry a (db w) = Some e"
    "find_output_id (ent_output e) (db w) = Some r" "ent_tag e \<noteq> outputTag (out_key r)"
  with key show "fst (q_lookupEntry aid w) = Inl (Wrap ''tag resolved to output'' [ErrTagMismatch])"
    by (simp add: lookup_program sql_lookup_entry_def)
next
  assume ok: "fault w (ticks w) = None" and inv: "cat_inv (db w)"
  show "fst (q_lookupEntry aid w) =
      (case abs_catalog (db w) a of
         None \<Rightarrow> Inl ErrNoRows
       | Some (k, s, c) \<Rightarrow>
           Inr \<lparr>ActionID = aid, OutputID = hex_encode k, Size = s, CompressedSize = 0,
                CreatedAt = millisTime c, AccessedAt = 0\<rparr>)"
  proof (cases "sql_lookup_entry a (db w)")
    case None
    with key ok show ?thesis by (simp add: lookup_program abs_catalog_def)
  next
    case (Some v)
    obtain k s c t where v: "v = (k, s, c, t)" by (cases v) auto
    with inv Some have "t = outputTag k" by (auto simp: cat_inv_def dest: lookup_tag)
    with v Some key ok show ?thesis by (simp add: lookup_program abs_catalog_def)
  qed
qed

lemma lookup_refines_witness:
  "fst (q_lookupEntry (hex_encode ''a'') (tagged_world ''out '')) =
     Inr \<lparr>ActionID = hex_encode ''a'', OutputID = hex_encode ''out key'', Size = 7, CompressedSize = 0,
          CreatedAt = 3000000, AccessedAt = 0\<rparr> \<and>
   fst (q_lookupEntry (hex_encode ''a'') (tagged_world ''else'')) =
     Inl (Wrap ''tag resolved to output'' [ErrTagMismatch]) \<and>
   fst (q_lookupEntry (hex_encode ''b'') (tagged_world ''out '')) = Inl ErrNoRows"
proof -
  let ?w = "tagged_world ''out ''" and ?v = "tagged_world ''else''"
  have inv: "cat_inv (db ?w)"
    by (simp add: tagged_world_def cat_inv_def wf_tables_def tags_agree_def empty_tables_def max_i64_def outputTag_def outputTagLen_def)
  have hit: "abs_catalog (db ?w) ''a'' = Some (''out key'', 7, 3)" "abs_catalog (db ?w) ''b'' = None"
    by (simp_all add: tagged_world_def abs_catalog_def sql_lookup_entry_def find_entry_def find_output_id_def)
  have calm: "fault ?w (ticks ?w) = None" "fault ?v (ticks ?v) = None" by (simp_all add: tagged_world_def)
  have bad: "find_entry ''a'' (db ?v) = Some \<lparr>ent_action = ''a'', ent_output = 1, ent_tag = ''else'', ent_created = 3, ent_accessed = 0\<rparr>"
    by (simp add: tagged_world_def find_entry_def)
  have out: "find_output_id 1 (db ?v) = Some \<lparr>out_id = 1, out_key = ''out key'', out_size = 7, out_compressed = 5, out_accessed = 0,
       out_blob_type = None, out_blob_version = None, out_retained_type = None, out_retained_version = None\<rparr>"
    by (simp add: tagged_world_def find_output_id_def)
  have "fst (q_lookupEntry (hex_encode ''a'') ?w) = Inr \<lparr>ActionID = hex_encode ''a'',
      OutputID = hex_encode ''out key'', Size = 7, CompressedSize = 0, CreatedAt = 3000000, AccessedAt = 0\<rparr>"
    using lookup_refines [OF idKey_hex_encode, of "''a''" ?w] inv hit(1) calm(1) by (simp add: millisTime_def)
  moreover have "fst (q_lookupEntry (hex_encode ''b'') ?w) = Inl ErrNoRows"
    using lookup_refines [OF idKey_hex_encode, of "''b''" ?w] inv hit(2) calm(1) by simp
  moreover have "fst (q_lookupEntry (hex_encode ''a'') ?v) = Inl (Wrap ''tag resolved to output'' [ErrTagMismatch])"
    using lookup_refines [OF idKey_hex_encode, of "''a''" ?v] bad out calm(2)
    by (simp add: outputTag_def outputTagLen_def)
  ultimately show ?thesis by blast
qed


section \<open>Removals\<close>

lemma lookup_filter:
  assumes wf: "wf_tables d"
  shows "sql_lookup_entry x (d\<lparr>outputs := filter P (outputs d), entries := filter Q (entries d)\<rparr>) =
      Some (k, s, c, t) \<longleftrightarrow>
    (\<exists>e\<in>set (entries d). \<exists>r\<in>set (outputs d). Q e \<and> P r \<and> ent_action e = x \<and> out_id r = ent_output e \<and>
      k = out_key r \<and> s = out_size r \<and> c = ent_created e \<and> t = ent_tag e)"
proof -
  have "shrinks d (d\<lparr>outputs := filter P (outputs d), entries := filter Q (entries d)\<rparr>)"
    by (simp add: shrinks_def subseq_map)
  from shrinks_wf [OF this wf] show ?thesis by (auto simp: lookup_iff)
qed

lemma option_restrict:
  "(\<And>v. f' = Some v \<longleftrightarrow> f = Some v \<and> P v) \<Longrightarrow>
    f' = (case f of None \<Rightarrow> None | Some v \<Rightarrow> if P v then Some v else None)"
proof (cases f)
  case None
  assume "\<And>v. f' = Some v \<longleftrightarrow> f = Some v \<and> P v"
  with None show ?thesis by (cases f') fastforce+
next
  case (Some v)
  assume *: "\<And>v. f' = Some v \<longleftrightarrow> f = Some v \<and> P v"
  show ?thesis
  proof (cases f')
    case None
    with * [of v] Some show ?thesis by simp
  next
    case (Some u)
    with * [of u] \<open>f = Some v\<close> show ?thesis by simp
  qed
qed

lemma abs_catalog_drop:
  assumes wf: "wf_tables d"
  shows "abs_catalog (sql_delete_action a (sql_delete_output k d)) = abs_drop a k (abs_catalog d)"
proof
  fix x
  let ?d = "sql_delete_action a (sql_delete_output k d)"
  have d: "?d = d\<lparr>outputs := filter (\<lambda>r. out_key r \<noteq> k) (outputs d),
      entries := filter (\<lambda>e. ent_action e \<noteq> a) (entries d)\<rparr>"
    by (simp add: sql_delete_action_def sql_delete_output_def)
  have "sql_lookup_entry x ?d = (case sql_lookup_entry x d of None \<Rightarrow> None
      | Some v \<Rightarrow> if x \<noteq> a \<and> fst v \<noteq> k then Some v else None)"
  proof (rule option_restrict)
    fix v show "sql_lookup_entry x ?d = Some v \<longleftrightarrow> sql_lookup_entry x d = Some v \<and> x \<noteq> a \<and> fst v \<noteq> k"
      unfolding d by (cases v) (simp only: lookup_filter [OF wf] lookup_iff [OF wf], auto)
  qed
  then show "abs_catalog ?d x = abs_drop a k (abs_catalog d) x"
    by (auto simp: abs_catalog_def abs_drop_def split: option.splits)
qed

text \<open>
  C4. Dropping an action whose blob is gone removes that action and every other binding to the
  same output, and no other; success means it was done, and no failure adds a binding.
\<close>

theorem dropAction_refines:
  assumes inv: "cat_inv (db w)" and run: "q_dropAction aid oid w = (r, w')"
    and a: "idKey aid = Some a" and k: "idKey oid = Some k"
  shows "(r = Inr () \<longrightarrow> abs_catalog (db w') = abs_drop a k (abs_catalog (db w))) \<and>
    (\<forall>x b. abs_catalog (db w') x = Some b \<longrightarrow> abs_catalog (db w) x = Some b) \<and> cat_inv (db w')"
proof -
  have wf: "wf_tables (db w)" using inv by (simp add: cat_inv_def)
  have "keeps (\<lambda>v. shrinks (db w) (db v)) (q_dropAction aid oid)"
    by (rule keeps_catalog(8)) (auto simp: shrink_stable_def intro: shrinks_trans)
  from keeps_dbD [OF this run] have "shrinks (db w) (db w')" by simp
  moreover have "db w' = sql_delete_action a (sql_delete_output k (db w))" if "r = Inr ()"
    using run that by (auto simp: q_dropAction_def bindE_eq_Inr idKeyE_cases a k dest!: sql_exec_InrD)
  ultimately show ?thesis
    using abs_catalog_drop [OF wf] abs_catalog_shrinks [OF wf] shrink_stableD [OF cat_inv_stable inv]
    by auto
qed

lemma dropAction_refines_witness:
  "\<exists>w1 w2. q_upsertEntry sample_entry calm_world = (Inr (), w1) \<and>
    q_dropAction (hex_encode ''a'') (hex_encode ''o'') w1 = (Inr (), w2) \<and> abs_catalog (db w2) ''a'' = None"
proof -
  obtain w1 where w1: "q_upsertEntry sample_entry calm_world = (Inr (), w1)" "fault w1 = (\<lambda>_. None)"
    using sample_put by (cases "q_upsertEntry sample_entry calm_world") auto
  have inv: "cat_inv (db w1)"
    using keeps_eqD [OF keeps_cat_inv_put w1(1)] by simp
  obtain w2 where w2: "q_dropAction (hex_encode ''a'') (hex_encode ''o'') w1 = (Inr (), w2)"
    using w1(2) by (simp add: q_dropAction_def bindE_def idKeyE_def sql_exec_def sql_def effect_def Let_def)
  have "abs_catalog (db w2) = abs_drop ''a'' ''o'' (abs_catalog (db w1))"
    using dropAction_refines [OF inv w2, of "''a''" "''o''"] by simp
  then have "abs_catalog (db w2) ''a'' = None" by (simp add: abs_drop_def split: option.split)
  with w1 w2 show ?thesis by blast
qed

end
