(* ===== verification/Expiry.thy ===== *)
theory Expiry
  imports Put_Spec
begin

text \<open>
  Age expiry (\<open>deleteAccessedBefore\<close> in \<open>catalog.go\<close>): both tables lose the rows last
  accessed before a cutoff, in batches. Entries are walked by a cursor in key order; outputs
  are re-selected oldest first, for at most \<open>ageMaxBatches\<close> batches.
\<close>

definition ageBatch :: nat where "ageBatch = 2000"
definition ageMaxBatches :: nat where "ageMaxBatches = 2000"

type_synonym stale_stmt = "int \<Rightarrow> bytes \<Rightarrow> tables \<Rightarrow> nat \<times> tables"

text \<open>
  \<open>deleteStaleByKey\<close>: one transaction, one delete per key, each re-asserting the cutoff. The
  result is the number of rows removed.
\<close>

fun delete_keys :: "tables \<Rightarrow> stale_stmt \<Rightarrow> int \<Rightarrow> bytes list \<Rightarrow> int \<Rightarrow> int io" where
  "delete_keys tx stmt cutoff [] removed = returnE removed"
| "delete_keys tx stmt cutoff (key # keys) removed =
     bindE (tx_stmt tx ''age-expiry delete''
              (sql (\<lambda>d. case stmt cutoff key d of (n, d') \<Rightarrow> (Inr n, d')))) (\<lambda>n.
     delete_keys tx stmt cutoff keys (removed + int n))"

definition deleteStaleByKey :: "stale_stmt \<Rightarrow> int \<Rightarrow> bytes list \<Rightarrow> int io" where
  "deleteStaleByKey stmt cutoff keys =
     bindE (wrapE ''begin age-expiry transaction'' begin_tx) (\<lambda>tx.
     bindE (tx_stmt tx ''prepare age-expiry delete'' (sql_read (\<lambda>_. ()))) (\<lambda>_.
     bindE (delete_keys tx stmt cutoff keys 0) (\<lambda>removed.
     bindE (wrapE ''commit age-expiry transaction'' (commit_tx tx)) (\<lambda>_.
     returnE removed))))"

definition staleActionIDs :: "int \<Rightarrow> bytes \<Rightarrow> bytes list io" where
  "staleActionIDs cutoff after = sql_read (sql_stale_actions cutoff after ageBatch)"

definition staleOutputIDs :: "int \<Rightarrow> bytes list io" where
  "staleOutputIDs cutoff = sql_read (sql_stale_outputs cutoff ageBatch)"

section \<open>The selections and the deletions\<close>

lemma take_sort_split:
  fixes x :: "'a::linorder"
  assumes "ks = take n (sort xs)" "ks \<noteq> []" "x \<in> set xs"
  shows "x \<in> set ks \<or> last ks \<le> x"
proof -
  have "x \<in> set (take n (sort xs)) \<or> x \<in> set (drop n (sort xs))"
    using assms(3) by (metis Un_iff append_take_drop_id set_append set_sort)
  moreover have "last ks \<le> y" if "y \<in> set (drop n (sort xs))" for y
  proof -
    have "sorted (take n (sort xs) @ drop n (sort xs))" by simp
    then have "\<forall>a\<in>set (take n (sort xs)). \<forall>b\<in>set (drop n (sort xs)). a \<le> b"
      unfolding sorted_append by blast
    then show ?thesis using assms that last_in_set by blast
  qed
  ultimately show ?thesis using assms(1) by blast
qed

lemma stale_actions_set:
  "k \<in> set (sql_stale_actions cutoff after n d) \<Longrightarrow>
    after < k \<and> (\<exists>e\<in>set (entries d). ent_action e = k \<and> ent_accessed e < cutoff)"
  unfolding sql_stale_actions_def by (drule in_set_takeD) auto

lemma stale_actions_complete:
  assumes "ks = sql_stale_actions cutoff after n d" "ks \<noteq> []"
    and "e \<in> set (entries d)" "ent_accessed e < cutoff" "after < ent_action e"
  shows "ent_action e \<in> set ks \<or> last ks < ent_action e"
proof -
  have "ent_action e \<in> set ks \<or> last ks \<le> ent_action e"
    by (rule take_sort_split [OF assms(1) [unfolded sql_stale_actions_def] assms(2)]) (use assms in auto)
  then show ?thesis using assms(2) last_in_set by fastforce
qed

lemma stale_actions_empty:
  "sql_stale_actions cutoff after n d = [] \<Longrightarrow> 0 < n \<Longrightarrow> e \<in> set (entries d) \<Longrightarrow>
    ent_accessed e < cutoff \<Longrightarrow> \<not> after < ent_action e"
  by (auto simp: sql_stale_actions_def filter_empty_conv dest: arg_cong [where f = set])

lemma stale_outputs_set:
  "k \<in> set (sql_stale_outputs cutoff n d) \<Longrightarrow> \<exists>r\<in>set (outputs d). out_key r = k \<and> out_accessed r < cutoff"
  by (force simp: sql_stale_outputs_def dest!: in_set_takeD)

text \<open>Deleting a list of keys is one filter.\<close>

lemma fold_stale_entries:
  "fold (\<lambda>k d. snd (sql_delete_stale_entry cutoff k d)) ks d =
    d\<lparr>entries := filter (\<lambda>e. \<not> (ent_action e \<in> set ks \<and> ent_accessed e < cutoff)) (entries d)\<rparr>"
  by (induction ks arbitrary: d)
    (simp_all add: sql_delete_stale_entry_def, rule arg_cong [where f = "\<lambda>x. _\<lparr>entries := x\<rparr>"], rule filter_cong, auto)

lemma fold_stale_outputs:
  "fold (\<lambda>k d. snd (sql_delete_stale_output cutoff k d)) ks d =
    d\<lparr>outputs := filter (\<lambda>r. \<not> (out_key r \<in> set ks \<and> out_accessed r < cutoff)) (outputs d)\<rparr>"
  by (induction ks arbitrary: d)
    (simp_all add: sql_delete_stale_output_def, rule arg_cong [where f = "\<lambda>x. _\<lparr>outputs := x\<rparr>"], rule filter_cong, auto)

lemma delete_keys_InrD:
  "delete_keys tx stmt cutoff keys n w = (Inr m, w') \<Longrightarrow>
    db w' = fold (\<lambda>k d. snd (stmt cutoff k d)) keys (db w)"
  by (induction keys arbitrary: n w)
    (auto simp: bindE_eq_Inr tx_stmt_def recoverE_eq_Inr ignoreE_eq dest!: sql_InrD split: prod.splits)

text \<open>What a delete statement counts, and that it counts what disappears.\<close>

definition counts :: "stale_stmt \<Rightarrow> (tables \<Rightarrow> nat) \<Rightarrow> bool" where
  "counts stmt f \<longleftrightarrow> (\<forall>c k d n d'. stmt c k d = (n, d') \<longrightarrow> f d = f d' + n)"

lemma length_filter_split: "length xs = length (filter P xs) + length (filter (\<lambda>x. \<not> P x) xs)"
  by (induction xs) auto

lemma length_filter_strict:
  assumes "x \<in> set xs" "Q x" "\<not> P x" "\<And>y. P y \<Longrightarrow> Q y"
  shows "length (filter P xs) < length (filter Q xs)"
proof -
  have "filter P xs = filter P (filter Q xs)" using assms(4) by (auto intro: filter_cong)
  moreover have "length (filter P (filter Q xs)) < length (filter Q xs)"
    using assms by (intro length_filter_less [of x]) auto
  ultimately show ?thesis by simp
qed

lemma counts_stale:
  "counts sql_delete_stale_entry (\<lambda>d. length (entries d))"
  "counts sql_delete_stale_output (\<lambda>d. length (outputs d))"
  unfolding counts_def sql_delete_stale_entry_def sql_delete_stale_output_def
  by (auto simp del: de_Morgan_conj simp: add.commute length_filter_split [symmetric])

lemma delete_keys_count:
  "counts stmt f \<Longrightarrow> delete_keys tx stmt cutoff keys n w = (Inr m, w') \<Longrightarrow>
    int (f (db w)) + n = int (f (db w')) + m"
proof (induction keys arbitrary: n w)
  case Nil
  then show ?case by simp
next
  case (Cons k ks)
  from Cons.prems(2) obtain c w1 where
    s: "tx_stmt tx ''age-expiry delete'' (sql (\<lambda>d. case stmt cutoff k d of (n, d') \<Rightarrow> (Inr n, d'))) w = (Inr c, w1)"
    and rest: "delete_keys tx stmt cutoff ks (n + int c) w1 = (Inr m, w')"
    by (auto simp: bindE_eq_Inr)
  from tx_stmt_db [OF s] have "f (db w) = f (db w1) + c"
    using Cons.prems(1) by (auto simp: counts_def dest!: sql_InrD split: prod.splits)
  with Cons.IH [OF Cons.prems(1) rest] show ?case by simp
qed

lemma deleteStaleByKey_InrD:
  assumes "deleteStaleByKey stmt cutoff keys w = (Inr m, w')"
  shows "db w' = fold (\<lambda>k d. snd (stmt cutoff k d)) keys (db w)"
    and "counts stmt f \<Longrightarrow> int (f (db w)) = int (f (db w')) + m"
proof -
  from assms obtain tx w1 w2 w3 where
    b: "begin_tx w = (Inr tx, w1)" and p: "tx_stmt tx ''prepare age-expiry delete'' (sql_read (\<lambda>_. ())) w1 = (Inr (), w2)"
    and k: "delete_keys tx stmt cutoff keys 0 w2 = (Inr m, w3)" and c: "commit_tx tx w3 = (Inr (), w')"
    by (auto simp: deleteStaleByKey_def bindE_eq_Inr wrapE_eq_Inr)
  have "db w2 = db w"
    using begin_tx_result [OF b] tx_stmt_db [OF p] by (auto dest!: sql_read_InrD)
  moreover have "db w' = db w3" using commit_tx_db [OF c] by simp
  ultimately show "db w' = fold (\<lambda>k d. snd (stmt cutoff k d)) keys (db w)"
    and "counts stmt f \<Longrightarrow> int (f (db w)) = int (f (db w')) + m"
    using delete_keys_InrD [OF k] delete_keys_count [OF _ k] by auto
qed

section \<open>The two loops\<close>

text \<open>
  \<open>deleteStaleEntries\<close>. The loop has no bound of its own: it ends because the cursor moves
  past the keys of every batch, so fewer entries are left above it.
\<close>

definition entries_after :: "bytes \<Rightarrow> tables \<Rightarrow> nat" where
  "entries_after cursor d = length (filter (\<lambda>e. cursor < ent_action e) (entries d))"

lemma stale_batch_progress:
  assumes ids: "staleActionIDs cutoff cursor w = (Inr ids, w1)" "ids \<noteq> []"
    and del: "deleteStaleByKey sql_delete_stale_entry cutoff ids w1 = (Inr n, w2)"
  shows "entries_after (last ids) (db w2) < entries_after cursor (db w)"
proof -
  have ids_eq: "ids = sql_stale_actions cutoff cursor ageBatch (db w)" and "db w1 = db w"
    using ids(1) by (auto simp: staleActionIDs_def dest!: sql_read_InrD)
  then have ents: "entries (db w2) =
      filter (\<lambda>e. \<not> (ent_action e \<in> set ids \<and> ent_accessed e < cutoff)) (entries (db w))"
    using deleteStaleByKey_InrD(1) [OF del] by (simp add: fold_stale_entries)
  have "last ids \<in> set ids" using ids(2) by simp
  then obtain e where e: "cursor < last ids" "e \<in> set (entries (db w))" "ent_action e = last ids"
    using stale_actions_set ids_eq by blast
  have "filter (\<lambda>e. last ids < ent_action e) (entries (db w2)) =
      filter (\<lambda>e. last ids < ent_action e \<and> \<not> (ent_action e \<in> set ids \<and> ent_accessed e < cutoff)) (entries (db w))"
    by (simp add: ents conj_commute)
  also have "length \<dots> < length (filter (\<lambda>e. cursor < ent_action e) (entries (db w)))"
  proof (rule length_filter_strict)
    show "e \<in> set (entries (db w))" "cursor < ent_action e"
      "\<not> (last ids < ent_action e \<and> \<not> (ent_action e \<in> set ids \<and> ent_accessed e < cutoff))"
      using e by auto
    show "cursor < ent_action x" if "last ids < ent_action x \<and> \<not> (ent_action x \<in> set ids \<and> ent_accessed x < cutoff)" for x
      using that e(1) by (meson less_trans)
  qed
  finally show ?thesis by (simp add: entries_after_def)
qed

function delete_stale_entries :: "int \<Rightarrow> bytes \<Rightarrow> int \<Rightarrow> int io" where
  "delete_stale_entries cutoff cursor acc w =
     (case staleActionIDs cutoff cursor w of
        (Inl e, w1) \<Rightarrow> (Inl e, w1)
      | (Inr ids, w1) \<Rightarrow>
          if ids = [] then (Inr acc, w1)
          else (case deleteStaleByKey sql_delete_stale_entry cutoff ids w1 of
                  (Inl e, w2) \<Rightarrow> (Inl e, w2)
                | (Inr removed, w2) \<Rightarrow> delete_stale_entries cutoff (last ids) (acc + removed) w2))"
  by pat_completeness auto
termination
  by (relation "measure (\<lambda>(cutoff, cursor, acc, w). entries_after cursor (db w))")
    (auto intro: stale_batch_progress [OF sym _ sym])

declare delete_stale_entries.simps [simp del]

text \<open>A nil cursor is the empty key, below every other.\<close>

definition deleteStaleEntries :: "int \<Rightarrow> int io" where
  "deleteStaleEntries cutoff = delete_stale_entries cutoff [] 0"

fun delete_stale_outputs :: "nat \<Rightarrow> int \<Rightarrow> int \<Rightarrow> int io" where
  "delete_stale_outputs 0 cutoff acc = returnE acc"
| "delete_stale_outputs (Suc n) cutoff acc =
     bindE (staleOutputIDs cutoff) (\<lambda>ids.
     if ids = [] then returnE acc
     else bindE (deleteStaleByKey sql_delete_stale_output cutoff ids) (\<lambda>removed.
          delete_stale_outputs n cutoff (acc + removed)))"

definition deleteStaleOutputs :: "int \<Rightarrow> int io" where
  "deleteStaleOutputs cutoff = delete_stale_outputs ageMaxBatches cutoff 0"

record reaped =
  reaped_entries :: int
  reaped_outputs :: int

definition deleteAccessedBefore :: "int \<Rightarrow> reaped io" where
  "deleteAccessedBefore cutoff =
     bindE (deleteStaleEntries cutoff) (\<lambda>ents.
     bindE (deleteStaleOutputs cutoff) (\<lambda>outs.
     returnE \<lparr>reaped_entries = ents, reaped_outputs = outs\<rparr>))"

section \<open>What expiry leaves\<close>

text \<open>
  The invariant of the pass: only rows below the cutoff disappear, and nothing else changes.
\<close>

definition fresh_rows :: "int \<Rightarrow> tables \<Rightarrow> tables" where
  "fresh_rows cutoff d =
     d\<lparr>entries := filter (\<lambda>e. cutoff \<le> ent_accessed e) (entries d),
       outputs := filter (\<lambda>r. cutoff \<le> out_accessed r) (outputs d)\<rparr>"

lemma filter_fresh_delete:
  "filter (\<lambda>x. c \<le> f x) (filter (\<lambda>x. \<not> (g x \<and> f x < c)) xs) = filter (\<lambda>x. c \<le> f x) xs" for c :: int
  by (induction xs) auto

lemma fresh_rows_delete [db_simps]:
  "fresh_rows cutoff (snd (sql_delete_stale_entry cutoff k d)) = fresh_rows cutoff d"
  "fresh_rows cutoff (snd (sql_delete_stale_output cutoff k d)) = fresh_rows cutoff d"
  by (simp_all add: fresh_rows_def sql_delete_stale_entry_def sql_delete_stale_output_def
      filter_fresh_delete del: filter_filter de_Morgan_conj)

text \<open>Any invariant the delete statement keeps, the pass keeps, however it ends.\<close>

definition expiry_stable :: "int \<Rightarrow> (tables \<Rightarrow> bool) \<Rightarrow> bool" where
  "expiry_stable cutoff J \<longleftrightarrow>
     (\<forall>k d. J d \<longrightarrow> J (snd (sql_delete_stale_entry cutoff k d)) \<and> J (snd (sql_delete_stale_output cutoff k d)))"

lemma keeps_delete_keys:
  assumes "J tx" and st: "\<And>k d. J d \<Longrightarrow> J (snd (stmt cutoff k d))"
  shows "keeps (\<lambda>w. J (db w)) (delete_keys tx stmt cutoff keys n)"
proof (induction keys arbitrary: n)
  case Nil
  show ?case by (simp only: delete_keys.simps keeps_pure)
next
  case (Cons k ks)
  have "keeps (\<lambda>w. J (db w)) (sql (\<lambda>d. case stmt cutoff k d of (n, d') \<Rightarrow> (Inr n :: err + nat, d')))"
    by (rule keeps_db_sql) (metis (mono_tags, lifting) case_prod_beta snd_conv st)
  then show ?case
    using assms(1) Cons.IH by (auto intro!: keeps_intros keeps_tx_stmt)
qed

lemma keeps_deleteStaleByKey:
  assumes "\<And>k d. J d \<Longrightarrow> J (snd (stmt cutoff k d))"
  shows "keeps (\<lambda>w. J (db w)) (deleteStaleByKey stmt cutoff keys)"
  unfolding deleteStaleByKey_def
  by (intro keeps_transaction keeps_intros keeps_tx_stmt keeps_delete_keys keeps_commit assms)

lemma keeps_delete_stale_entries:
  assumes st: "expiry_stable cutoff J"
  shows "keeps (\<lambda>w. J (db w)) (delete_stale_entries cutoff cursor acc)"
proof -
  have "J (db w) \<Longrightarrow> J (db (snd (delete_stale_entries cutoff cursor acc w)))" for w
    using st
  proof (induction cutoff cursor acc w rule: delete_stale_entries.induct)
    case (1 cutoff cursor acc w)
    obtain r1 w1 where a: "staleActionIDs cutoff cursor w = (r1, w1)" by (cases "staleActionIDs cutoff cursor w")
    have J1: "J (db w1)"
      using a "1.prems"(1) frame_eqD [OF frame_db_sql_read(1) a [unfolded staleActionIDs_def]] by simp
    show ?case
    proof (cases "\<exists>ids. r1 = Inr ids \<and> ids \<noteq> []")
      case False
      with a J1 show ?thesis by (auto simp: delete_stale_entries.simps [of cutoff] split: sum.splits)
    next
      case True
      then obtain ids where ids: "r1 = Inr ids" "ids \<noteq> []" by blast
      obtain r2 w2 where b: "deleteStaleByKey sql_delete_stale_entry cutoff ids w1 = (r2, w2)"
        by (cases "deleteStaleByKey sql_delete_stale_entry cutoff ids w1")
      have "keeps (\<lambda>w. J (db w)) (deleteStaleByKey sql_delete_stale_entry cutoff ids)"
        by (rule keeps_deleteStaleByKey) (use "1.prems"(2) in \<open>auto simp: expiry_stable_def\<close>)
      from keeps_dbD [OF this b J1] have J2: "J (db w2)" .
      show ?thesis
      proof (cases r2)
        case (Inl e)
        with a b ids J2 show ?thesis by (simp add: delete_stale_entries.simps [of cutoff])
      next
        case (Inr n)
        have "J (db (snd (delete_stale_entries cutoff (last ids) (acc + n) w2)))"
          by (rule "1.IH") (use a b ids Inr J2 "1.prems"(2) in auto)
        with a b ids Inr show ?thesis by (simp add: delete_stale_entries.simps [of cutoff cursor])
      qed
    qed
  qed
  then show ?thesis by (simp add: keeps_def)
qed

lemma keeps_delete_stale_outputs:
  "expiry_stable cutoff J \<Longrightarrow> keeps (\<lambda>w. J (db w)) (delete_stale_outputs n cutoff acc)"
  by (induction n arbitrary: acc)
    (auto simp: staleOutputIDs_def expiry_stable_def intro!: keeps_intros keeps_deleteStaleByKey)

lemma keeps_deleteAccessedBefore:
  "expiry_stable cutoff J \<Longrightarrow> keeps (\<lambda>w. J (db w)) (deleteAccessedBefore cutoff)"
  unfolding deleteAccessedBefore_def deleteStaleEntries_def deleteStaleOutputs_def
  by (intro keeps_intros keeps_delete_stale_entries keeps_delete_stale_outputs)

lemma keeps_expiry_shrinks [keeps_intros]:
  "shrink_stable J \<Longrightarrow> keeps (\<lambda>w. J (db w)) (deleteAccessedBefore cutoff)"
  by (rule keeps_deleteAccessedBefore, unfold expiry_stable_def)
    (blast intro: shrink_stableD shrinks_sql)

text \<open>What a finished walk of the entries has removed.\<close>

lemma delete_stale_entries_exact:
  assumes "delete_stale_entries cutoff cursor acc w = (Inr n, w')"
    and "\<And>e. e \<in> set (entries (db w)) \<Longrightarrow> ent_accessed e < cutoff \<Longrightarrow> cursor < ent_action e"
  shows "db w' = (db w)\<lparr>entries := filter (\<lambda>e. cutoff \<le> ent_accessed e) (entries (db w))\<rparr> \<and>
    n = acc + int (length (filter (\<lambda>e. ent_accessed e < cutoff) (entries (db w))))"
  using assms
proof (induction cutoff cursor acc w rule: delete_stale_entries.induct)
  case (1 cutoff cursor acc w)
  from "1.prems"(1) obtain ids w1 where a: "staleActionIDs cutoff cursor w = (Inr ids, w1)"
    by (auto simp: delete_stale_entries.simps [of cutoff] split: prod.splits sum.splits)
  then have ids: "ids = sql_stale_actions cutoff cursor ageBatch (db w)" and d1: "db w1 = db w"
    by (auto simp: staleActionIDs_def dest!: sql_read_InrD)
  show ?case
  proof (cases "ids = []")
    case True
    with ids "1.prems"(2) have fresh: "e \<in> set (entries (db w)) \<Longrightarrow> \<not> ent_accessed e < cutoff" for e
      using stale_actions_empty [of cutoff cursor ageBatch "db w" e] by (auto simp: ageBatch_def)
    from fresh have "filter (\<lambda>e. cutoff \<le> ent_accessed e) (entries (db w)) = entries (db w)"
      "filter (\<lambda>e. ent_accessed e < cutoff) (entries (db w)) = []"
      by (auto simp: filter_id_conv filter_empty_conv not_less)
    with a True "1.prems"(1) d1 show ?thesis by (auto simp: delete_stale_entries.simps [of cutoff])
  next
    case False
    with a "1.prems"(1) obtain m w2 where
      b: "deleteStaleByKey sql_delete_stale_entry cutoff ids w1 = (Inr m, w2)"
      and rest: "delete_stale_entries cutoff (last ids) (acc + m) w2 = (Inr n, w')"
      by (auto simp: delete_stale_entries.simps [of cutoff cursor] split: prod.splits sum.splits)
    have d2: "db w2 = (db w)\<lparr>entries := filter (\<lambda>e. \<not> (ent_action e \<in> set ids \<and> ent_accessed e < cutoff)) (entries (db w))\<rparr>"
      using deleteStaleByKey_InrD(1) [OF b] d1 by (simp add: fold_stale_entries)
    have m: "int (length (entries (db w))) = int (length (entries (db w2))) + m"
      using deleteStaleByKey_InrD(2) [OF b counts_stale(1)] d1 by simp
    have above: "last ids < ent_action e" if "e \<in> set (entries (db w2))" "ent_accessed e < cutoff" for e
      using stale_actions_complete [OF ids False, of e] that "1.prems"(2) [of e] by (auto simp: d2)
    have keep: "filter (\<lambda>e. cutoff \<le> ent_accessed e) (entries (db w2)) = filter (\<lambda>e. cutoff \<le> ent_accessed e) (entries (db w))"
      by (auto simp: d2 intro: filter_cong)
    have "db w' = (db w2)\<lparr>entries := filter (\<lambda>e. cutoff \<le> ent_accessed e) (entries (db w2))\<rparr> \<and>
      n = acc + m + int (length (filter (\<lambda>e. ent_accessed e < cutoff) (entries (db w2))))"
      by (rule "1.IH" [OF a [symmetric] _ False b [symmetric] _ rest above]) auto
    moreover have "int (length (filter (\<lambda>e. ent_accessed e < cutoff) (entries d))) =
        int (length (entries d)) - int (length (filter (\<lambda>e. cutoff \<le> ent_accessed e) (entries d)))" for d :: tables
      using length_filter_split [of "entries d" "\<lambda>e. ent_accessed e < cutoff"] by (simp add: not_less)
    moreover have "(db w2)\<lparr>entries := xs\<rparr> = (db w)\<lparr>entries := xs\<rparr>" for xs by (simp add: d2)
    ultimately show ?thesis using keep m by simp
  qed
qed

definition stale_rows :: "int \<Rightarrow> tables \<Rightarrow> output_row list" where
  "stale_rows cutoff d = filter (\<lambda>r. out_accessed r < cutoff) (outputs d)"

lemma stale_rows_count:
  "int (length (stale_rows cutoff d)) =
    int (length (outputs d)) - int (length (filter (\<lambda>r. cutoff \<le> out_accessed r) (outputs d)))"
  using length_filter_split [of "outputs d" "\<lambda>r. out_accessed r < cutoff"]
  by (simp add: stale_rows_def not_less)

lemma batch_removes:
  assumes dist: "distinct (map out_key (outputs d))" and ids: "ids = sql_stale_outputs cutoff n d"
  shows "length (filter (\<lambda>r. out_key r \<in> set ids \<and> out_accessed r < cutoff) (outputs d)) =
    min n (length (stale_rows cutoff d))"
proof -
  let ?s = "sort_key out_accessed (stale_rows cutoff d)"
  have ids': "ids = map out_key (take n ?s)"
    by (simp add: ids sql_stale_outputs_def stale_rows_def)
  have "distinct (map out_key (stale_rows cutoff d))"
    unfolding stale_rows_def by (rule distinct_map_filterI [OF dist])
  then have ds: "distinct (map out_key ?s)" by (simp add: distinct_map)
  then have di: "distinct ids"
    unfolding ids' by (simp add: take_map [symmetric] distinct_take)
  let ?F = "filter (\<lambda>r. out_key r \<in> set ids \<and> out_accessed r < cutoff) (outputs d)"
  have "set ids = set (map out_key ?F)"
    using stale_outputs_set [of _ cutoff n d] ids by fastforce
  moreover have "distinct (map out_key ?F)" by (rule distinct_map_filterI [OF dist])
  ultimately have "length (map out_key ?F) = length ids"
    using di by (metis distinct_card)
  then show ?thesis by (simp add: ids')
qed

lemma delete_stale_outputs_exact:
  assumes "delete_stale_outputs n cutoff acc w = (Inr m, w')"
    and "distinct (map out_key (outputs (db w)))"
    and "length (stale_rows cutoff (db w)) \<le> n * ageBatch"
  shows "db w' = (db w)\<lparr>outputs := filter (\<lambda>r. cutoff \<le> out_accessed r) (outputs (db w))\<rparr> \<and>
    m = acc + int (length (stale_rows cutoff (db w)))"
  using assms
proof (induction n arbitrary: acc w)
  case 0
  then have "stale_rows cutoff (db w) = []" by simp
  then have "filter (\<lambda>r. cutoff \<le> out_accessed r) (outputs (db w)) = outputs (db w)"
    by (auto simp: stale_rows_def filter_empty_conv filter_id_conv not_less)
  with 0 show ?case by simp
next
  case (Suc n)
  from Suc.prems(1) obtain ids w1 where a: "staleOutputIDs cutoff w = (Inr ids, w1)"
    and rest: "(if ids = [] then returnE acc else bindE (deleteStaleByKey sql_delete_stale_output cutoff ids) (\<lambda>removed.
          delete_stale_outputs n cutoff (acc + removed))) w1 = (Inr m, w')"
    by (auto simp: bindE_eq_Inr)
  from a have ids: "ids = sql_stale_outputs cutoff ageBatch (db w)" and d1: "db w1 = db w"
    by (auto simp: staleOutputIDs_def dest!: sql_read_InrD)
  show ?case
  proof (cases "ids = []")
    case True
    have "length ids = min ageBatch (length (stale_rows cutoff (db w)))"
      by (simp add: ids sql_stale_outputs_def stale_rows_def)
    with True have none: "stale_rows cutoff (db w) = []" by (auto simp: ageBatch_def min_def split: if_splits)
    then have "filter (\<lambda>r. cutoff \<le> out_accessed r) (outputs (db w)) = outputs (db w)"
      by (auto simp: stale_rows_def filter_empty_conv filter_id_conv not_less)
    with True rest d1 none show ?thesis by simp
  next
    case False
    with rest obtain k w2 where
      b: "deleteStaleByKey sql_delete_stale_output cutoff ids w1 = (Inr k, w2)"
      and rec: "delete_stale_outputs n cutoff (acc + k) w2 = (Inr m, w')"
      by (auto simp: bindE_eq_Inr)
    have d2: "db w2 = (db w)\<lparr>outputs := filter (\<lambda>r. \<not> (out_key r \<in> set ids \<and> out_accessed r < cutoff)) (outputs (db w))\<rparr>"
      using deleteStaleByKey_InrD(1) [OF b] d1 by (simp add: fold_stale_outputs)
    have k: "int (length (outputs (db w))) = int (length (outputs (db w2))) + k"
      using deleteStaleByKey_InrD(2) [OF b counts_stale(2)] d1 by simp
    have keep: "filter (\<lambda>r. cutoff \<le> out_accessed r) (outputs (db w2)) = filter (\<lambda>r. cutoff \<le> out_accessed r) (outputs (db w))"
      unfolding d2 by (simp add: filter_fresh_delete del: filter_filter de_Morgan_conj)
    have "int (length (outputs (db w))) =
        int (min ageBatch (length (stale_rows cutoff (db w)))) + int (length (outputs (db w2)))"
      unfolding batch_removes [OF Suc.prems(2) ids, symmetric] d2
      using length_filter_split [of "outputs (db w)" "\<lambda>r. out_key r \<in> set ids \<and> out_accessed r < cutoff"]
      by (simp del: de_Morgan_conj)
    then have "int (length (stale_rows cutoff (db w2))) =
        int (length (stale_rows cutoff (db w))) - int (min ageBatch (length (stale_rows cutoff (db w))))"
      using stale_rows_count [of cutoff "db w"] stale_rows_count [of cutoff "db w2"] keep by simp
    then have bound: "length (stale_rows cutoff (db w2)) \<le> n * ageBatch"
      using Suc.prems(3) by simp
    have "distinct (map out_key (outputs (db w2)))"
      unfolding d2 using distinct_map_filterI [OF Suc.prems(2)] by simp
    from Suc.IH [OF rec this bound]
    have "db w' = (db w2)\<lparr>outputs := filter (\<lambda>r. cutoff \<le> out_accessed r) (outputs (db w2))\<rparr> \<and>
      m = acc + k + int (length (stale_rows cutoff (db w2)))" .
    moreover have "(db w2)\<lparr>outputs := xs\<rparr> = (db w)\<lparr>outputs := xs\<rparr>" for xs by (simp add: d2)
    ultimately show ?thesis
      using keep k stale_rows_count [of cutoff "db w"] stale_rows_count [of cutoff "db w2"] by simp
  qed
qed

text \<open>When nothing fails, the pass finishes: its loops end for every catalog.\<close>

lemma succeeds_delete_keys: "succeeds (delete_keys tx stmt cutoff keys n)"
proof (induction keys arbitrary: n)
  case Nil
  show ?case by (simp only: delete_keys.simps succeeds_pure)
next
  case (Cons k ks)
  have "succeeds (sql (\<lambda>d. case stmt cutoff k d of (n, d') \<Rightarrow> (Inr n :: err + nat, d')))"
    by (rule succeeds_sql) (simp add: case_prod_beta)
  with Cons.IH show ?case
    unfolding delete_keys.simps tx_stmt_def by (intro succeeds_intros)
qed

lemma succeeds_deleteStaleByKey [succeeds_intros]: "succeeds (deleteStaleByKey stmt cutoff keys)"
  unfolding deleteStaleByKey_def tx_stmt_def by (intro succeeds_intros succeeds_delete_keys)

lemma succeeds_delete_stale_entries: "succeeds (delete_stale_entries cutoff cursor acc)"
proof -
  have "calm w \<Longrightarrow> \<exists>n w'. delete_stale_entries cutoff cursor acc w = (Inr n, w') \<and> calm w'" for w
  proof (induction cutoff cursor acc w rule: delete_stale_entries.induct)
    case (1 cutoff cursor acc w)
    have "succeeds (staleActionIDs cutoff cursor)" unfolding staleActionIDs_def by (rule succeeds_intros)
    from succeedsD [OF this "1.prems"] obtain ids w1 where
      a: "staleActionIDs cutoff cursor w = (Inr ids, w1)" "calm w1" by blast
    from succeedsD [OF succeeds_deleteStaleByKey a(2)] obtain m w2 where
      b: "deleteStaleByKey sql_delete_stale_entry cutoff ids w1 = (Inr m, w2)" "calm w2" by blast
    show ?case
    proof (cases "ids = []")
      case True
      with a show ?thesis by (simp add: delete_stale_entries.simps [of cutoff])
    next
      case False
      have "\<exists>n w'. delete_stale_entries cutoff (last ids) (acc + m) w2 = (Inr n, w') \<and> calm w'"
        by (rule "1.IH") (use a b False in auto)
      with a b False show ?thesis by (simp add: delete_stale_entries.simps [of cutoff cursor])
    qed
  qed
  then show ?thesis by (simp add: succeeds_def)
qed

lemma succeeds_delete_stale_outputs: "succeeds (delete_stale_outputs n cutoff acc)"
proof (induction n arbitrary: acc)
  case 0
  show ?case by (simp only: delete_stale_outputs.simps succeeds_pure)
next
  case (Suc n)
  then show ?case unfolding delete_stale_outputs.simps staleOutputIDs_def by (intro succeeds_intros)
qed

lemma succeeds_deleteAccessedBefore [succeeds_intros]: "succeeds (deleteAccessedBefore cutoff)"
  unfolding deleteAccessedBefore_def deleteStaleEntries_def deleteStaleOutputs_def
  by (intro succeeds_intros succeeds_delete_stale_entries succeeds_delete_stale_outputs)

text \<open>
  C14. An age pass ends, and when it ends normally it leaves exactly the rows accessed at or
  after the cutoff, in both tables, and reports how many it removed: the cursor never skips an
  entry (no action is the empty one, which no put records), and the batch bound is enough for
  four million stale outputs. If nothing fails it does end normally.
\<close>

theorem age_expiry_exact:
  assumes inv: "cat_inv (db w)" and keys: "\<And>e. e \<in> set (entries (db w)) \<Longrightarrow> ent_action e \<noteq> []"
    and bound: "length (stale_rows cutoff (db w)) \<le> 4000000"
  shows "(\<forall>n w'. deleteAccessedBefore cutoff w = (Inr n, w') \<longrightarrow> db w' = fresh_rows cutoff (db w) \<and>
    reaped_entries n = int (length (filter (\<lambda>e. ent_accessed e < cutoff) (entries (db w)))) \<and>
    reaped_outputs n = int (length (stale_rows cutoff (db w)))) \<and>
    (fault w = (\<lambda>_. None) \<longrightarrow> (\<exists>n w'. deleteAccessedBefore cutoff w = (Inr n, w')))"
proof (intro conjI impI allI; (elim conjE)?)
  assume "fault w = (\<lambda>_. None)"
  then show "\<exists>n w'. deleteAccessedBefore cutoff w = (Inr n, w')"
    using succeedsD [OF succeeds_deleteAccessedBefore, of w cutoff] by (auto simp: calm_def)
next
  fix n w' assume run: "deleteAccessedBefore cutoff w = (Inr n, w')"
  from run obtain ne w1 no where
    e: "delete_stale_entries cutoff [] 0 w = (Inr ne, w1)"
    and o': "delete_stale_outputs ageMaxBatches cutoff 0 w1 = (Inr no, w')"
    and n: "n = \<lparr>reaped_entries = ne, reaped_outputs = no\<rparr>"
    by (auto simp: deleteAccessedBefore_def deleteStaleEntries_def deleteStaleOutputs_def bindE_eq_Inr)
  have "[] < ent_action x" if "x \<in> set (entries (db w))" for x
    using keys [OF that] by (cases "ent_action x") auto
  from delete_stale_entries_exact [OF e this]
  have d1: "db w1 = (db w)\<lparr>entries := filter (\<lambda>e. cutoff \<le> ent_accessed e) (entries (db w))\<rparr>"
    and ne: "ne = int (length (filter (\<lambda>e. ent_accessed e < cutoff) (entries (db w))))" by auto
  have st: "stale_rows cutoff (db w1) = stale_rows cutoff (db w)" by (simp add: d1 stale_rows_def)
  have "distinct (map out_key (outputs (db w1)))" using inv by (simp add: d1 cat_inv_def wf_tables_def)
  from delete_stale_outputs_exact [OF o' this] bound st d1
  have *: "db w' = fresh_rows cutoff (db w) \<and> no = int (length (stale_rows cutoff (db w)))"
    by (simp add: ageMaxBatches_def ageBatch_def fresh_rows_def)
  show "db w' = fresh_rows cutoff (db w)" "reaped_outputs n = int (length (stale_rows cutoff (db w)))"
    "reaped_entries n = int (length (filter (\<lambda>e. ent_accessed e < cutoff) (entries (db w))))"
    using * n ne by simp_all
qed

text \<open>A catalog with one stale and one fresh row of each kind.\<close>

definition sample_row :: "int \<Rightarrow> bytes \<Rightarrow> int \<Rightarrow> output_row" where
  "sample_row i k at = \<lparr>out_id = i, out_key = k, out_size = 10, out_compressed = 4, out_accessed = at,
     out_blob_type = None, out_blob_version = None, out_retained_type = None, out_retained_version = None\<rparr>"

definition sample_tables :: tables where
  "sample_tables = \<lparr>outputs = [sample_row 1 ''o'' 5, sample_row 2 ''p'' 50],
     entries = [\<lparr>ent_action = ''a'', ent_output = 1, ent_tag = ''o'', ent_created = 1, ent_accessed = 5\<rparr>,
                \<lparr>ent_action = ''b'', ent_output = 2, ent_tag = ''p'', ent_created = 1, ent_accessed = 50\<rparr>],
     runs = [], out_seq = 2, user_version = 2\<rparr>"

definition sample_world :: world where
  "sample_world = calm_world\<lparr>db := sample_tables\<rparr>"

lemma sample_world_simps [simp]:
  "db sample_world = sample_tables" "fault sample_world = (\<lambda>_. None)" "clock sample_world = (\<lambda>_. 0)"
  "ticks sample_world = 0" "nodes sample_world = []" "mem sample_world = calm_mem" "held sample_world = []"
  by (simp_all add: sample_world_def)

lemma sample_inv [simp]: "cat_inv sample_tables"
  by (simp add: cat_inv_def wf_tables_def tags_agree_def sample_tables_def sample_row_def max_i64_def
      outputTag_def outputTagLen_def)

lemma sample_expiry:
  "\<exists>n w'. deleteAccessedBefore 10 sample_world = (Inr n, w')"
  using succeedsD [OF succeeds_deleteAccessedBefore, of sample_world 10] by (auto simp: calm_def)

lemma age_expiry_exact_witness:
  "\<exists>n w'. deleteAccessedBefore 10 sample_world = (Inr n, w') \<and>
    outputs (db w') = [sample_row 2 ''p'' 50] \<and> reaped_entries n = 1"
proof -
  have "(\<forall>n w'. deleteAccessedBefore 10 sample_world = (Inr n, w') \<longrightarrow>
      db w' = fresh_rows 10 (db sample_world) \<and>
      reaped_entries n = int (length (filter (\<lambda>e. ent_accessed e < 10) (entries (db sample_world)))) \<and>
      reaped_outputs n = int (length (stale_rows 10 (db sample_world)))) \<and>
    (fault sample_world = (\<lambda>_. None) \<longrightarrow> (\<exists>n w'. deleteAccessedBefore 10 sample_world = (Inr n, w')))"
    by (rule age_expiry_exact)
      (auto simp: stale_rows_def sample_tables_def sample_inv [unfolded sample_tables_def])
  moreover have "outputs (fresh_rows 10 sample_tables) = [sample_row 2 ''p'' 50]"
    "length (filter (\<lambda>e. ent_accessed e < 10) (entries sample_tables)) = 1"
    by (simp_all add: fresh_rows_def sample_tables_def sample_row_def)
  ultimately show ?thesis by auto
qed

text \<open>
  C15. Whatever fails, and however many rows are stale, an age pass never removes or changes a
  row accessed at or after the cutoff, and keeps the catalog's invariant.
\<close>

theorem age_expiry_safe:
  assumes inv: "cat_inv (db w)" and run: "deleteAccessedBefore cutoff w = (r, w')"
  shows "fresh_rows cutoff (db w') = fresh_rows cutoff (db w) \<and> shrinks (db w) (db w') \<and> cat_inv (db w')"
proof -
  have "keeps (\<lambda>v. fresh_rows cutoff (db v) = fresh_rows cutoff (db w)) (deleteAccessedBefore cutoff)"
    by (rule keeps_deleteAccessedBefore) (simp add: expiry_stable_def db_simps)
  from keeps_dbD [OF this run] have f: "fresh_rows cutoff (db w') = fresh_rows cutoff (db w)" by simp
  have "keeps (\<lambda>v. shrinks (db w) (db v)) (deleteAccessedBefore cutoff)"
    by (rule keeps_expiry_shrinks) (auto simp: shrink_stable_def intro: shrinks_trans)
  from keeps_dbD [OF this run] have "shrinks (db w) (db w')" by simp
  with f shrink_stableD [OF cat_inv_stable inv] show ?thesis by blast
qed

lemma age_expiry_safe_witness:
  "\<exists>n w'. deleteAccessedBefore 10 sample_world = (Inr n, w') \<and>
    map ent_action (filter (\<lambda>e. 10 \<le> ent_accessed e) (entries (db w'))) = [''b'']"
proof -
  obtain n w' where run: "deleteAccessedBefore 10 sample_world = (Inr n, w')"
    using sample_expiry by blast
  have "fresh_rows 10 (db w') = fresh_rows 10 (db sample_world)"
    using age_expiry_safe [OF _ run] by simp
  then have "entries (fresh_rows 10 (db w')) = entries (fresh_rows 10 sample_tables)" by simp
  with run show ?thesis by (simp add: fresh_rows_def sample_tables_def)
qed

end
