(* ===== verification/Store_State.thy ===== *)
theory Store_State
  imports Expiry
begin

text \<open>
  The configuration and the immutable part of \<open>store\<close> (\<open>config.go\<close>, \<open>store.go\<close>), the
  layout of the cache directory, and the file locks. The mutable fields of \<open>store\<close> are the
  world's \<open>mem\<close>; the database handle and the pools of encoders and buffers have no state the
  code can observe.
\<close>

record config =
  dir :: path
  maxSize :: int
  maxAge :: int
  maxRetainedAge :: int
  verbose :: bool
  types :: bool
  cpuProfile :: string
  memProfile :: string

definition defaultMaxAge :: int where
  "defaultMaxAge = 5 * 24 * 3600000000000"

definition retainedAge :: "config \<Rightarrow> int" where
  "retainedAge c = (if 0 < maxRetainedAge c then maxRetainedAge c else maxAge c)"

record store =
  cfg :: config
  versionDir :: path
  blobsDir :: path
  liveRoot :: path
  lifecycleLockPath :: path
  runID :: bytes
  runDir :: path

definition mtimeInterval :: int where "mtimeInterval = 3600000000000"
definition pruneInterval :: int where "pruneInterval = 3600000000000"
definition pruneOvershootDivisor :: int where "pruneOvershootDivisor = 16"
definition evictionSampleSize :: nat where "evictionSampleSize = 2048"
definition accessFlushInterval :: int where "accessFlushInterval = 30000000000"
definition orphanGrace :: int where "orphanGrace = 60000000000"
definition keepEveryOutput :: int where "keepEveryOutput = min_i64"

section \<open>Layout\<close>

definition cacheVersionDir :: "config \<Rightarrow> path" where
  "cacheVersionDir c = dir c @ [''v2'']"

definition cachePaths :: "config \<Rightarrow> path \<times> path \<times> path \<times> path" where
  "cachePaths c =
     (let v = cacheVersionDir c in (v, v @ [''blobs''], v @ [''live''], v @ [''lifecycle.lock'']))"

definition stripesDir :: "path \<Rightarrow> path" where "stripesDir v = v @ [''stripes'']"
definition retainedDirName :: bytes where "retainedDirName = ''retained''"
definition retainedRoot :: "path \<Rightarrow> path" where "retainedRoot v = v @ [retainedDirName]"
definition pruneStampPath :: "path \<Rightarrow> path" where "pruneStampPath v = v @ [''prune.stamp'']"
definition sweepStampPath :: "path \<Rightarrow> path" where "sweepStampPath v = v @ [''sweep.stamp'']"
definition retainedStampPath :: "path \<Rightarrow> path" where "retainedStampPath v = v @ [''retained.stamp'']"
definition maintenanceLockPath :: "path \<Rightarrow> path" where "maintenanceLockPath v = v @ [''maintenance.lock'']"
definition dbPath :: "path \<Rightarrow> path" where "dbPath v = v @ [''cache.db'']"
definition runDirPrefix :: bytes where "runDirPrefix = ''run-''"
definition runLockName :: bytes where "runLockName = ''run.lock''"

definition blobDir :: "path \<Rightarrow> bytes \<Rightarrow> path" where
  "blobDir blobs outputHex = blobs @ [outputShard outputHex]"

definition blobPath :: "path \<Rightarrow> bytes \<Rightarrow> path" where
  "blobPath blobs outputHex = blobDir blobs outputHex @ [outputHex @ ''.zst'']"

definition retainedDir :: "store \<Rightarrow> bytes \<Rightarrow> path" where
  "retainedDir st outputHex = retainedRoot (versionDir st) @ [outputShard outputHex]"

definition retainedPath :: "store \<Rightarrow> bytes \<Rightarrow> bytes \<Rightarrow> path" where
  "retainedPath st outputHex ext = retainedDir st outputHex @ [outputHex @ ext]"

text \<open>\<open>regularFile\<close> and \<open>fileSize\<close> of \<open>util.go\<close>.\<close>

definition regularFile :: "path \<Rightarrow> bool io" where
  "regularFile p = bindE (tryE (os_stat p)) (\<lambda>r.
     returnE (case r of Inl _ \<Rightarrow> False | Inr info \<Rightarrow> fi_regular info))"

definition fileSize :: "path \<Rightarrow> int io" where
  "fileSize p = bindE (wrapE ''stat file'' (os_stat p)) (\<lambda>info. returnE (fi_size info))"

text \<open>\<open>if err := os.Remove(p); err != nil && !errors.Is(err, os.ErrNotExist)\<close>.\<close>

definition remove_if_present :: "string \<Rightarrow> path \<Rightarrow> unit io" where
  "remove_if_present msg p = recoverE (os_remove p) (\<lambda>e.
     if errors_is ErrNotExist e then returnE () else failE (Wrap msg [e]))"

section \<open>Locks\<close>

definition err_of :: "err + 'a \<Rightarrow> err option" where
  "err_of r = (case r of Inl e \<Rightarrow> Some e | Inr _ \<Rightarrow> None)"

text \<open>
  \<open>runUnlocking\<close>: the errors of the body, of unlocking and of closing are joined; the body's
  result, which the closures of the code store in a captured variable, is returned when there
  are none.
\<close>

definition runUnlocking :: "path \<Rightarrow> 'a io \<Rightarrow> 'a io" where
  "runUnlocking lock fn =
     bindE (tryE fn) (\<lambda>r.
     bindE (tryE (wrapE ''unlock cache lifecycle'' (flock_unlock lock))) (\<lambda>u.
     bindE (tryE (wrapE ''close cache lifecycle lock'' (flock_close lock))) (\<lambda>c.
     let e0 = join_err None (err_of r);
         e1 = (case u of Inl x \<Rightarrow> join_err e0 (Some x) | Inr _ \<Rightarrow> e0);
         e2 = (case c of Inl x \<Rightarrow> join_err e1 (Some x) | Inr _ \<Rightarrow> e1)
     in liftE (case e2 of Some e \<Rightarrow> Inl e | None \<Rightarrow> r))))"

definition withFileLock :: "path \<Rightarrow> 'a io \<Rightarrow> 'a io" where
  "withFileLock path fn =
     bindE (recoverE (flock_lock path) (\<lambda>e.
              bindE (ignoreE (flock_close path)) (\<lambda>_. failE (Wrap ''lock cache lifecycle'' [e])))) (\<lambda>_.
     runUnlocking path fn)"

text \<open>\<open>withFileLockIfFree\<close>: \<open>None\<close> is \<open>false\<close>, another holder; \<open>Some x\<close> is \<open>true\<close>.\<close>

definition withFileLockIfFree :: "path \<Rightarrow> 'a io \<Rightarrow> 'a option io" where
  "withFileLockIfFree path fn =
     bindE (recoverE (flock_try True path) (\<lambda>e.
              bindE (ignoreE (flock_close path)) (\<lambda>_. failE (Wrap ''lock cache lifecycle'' [e])))) (\<lambda>locked.
     if \<not> locked
     then bindE (wrapE ''close cache lifecycle lock'' (flock_close path)) (\<lambda>_. returnE None)
     else bindE (runUnlocking path fn) (\<lambda>x. returnE (Some x)))"

text \<open>
  \<open>withOutputLock\<close>: the stripe directory is created once per store, and a failure to is
  remembered.
\<close>

definition withOutputLock :: "store \<Rightarrow> bytes \<Rightarrow> 'a io \<Rightarrow> 'a io" where
  "withOutputLock st outputHex fn =
     bindE (getE (\<lambda>w. stripeDirOnce (mem w))) (\<lambda>once.
     bindE (case once of
              Some e \<Rightarrow> returnE e
            | None \<Rightarrow>
                bindE (tryE (wrapE ''create stripe dir'' (os_mkdir_all (stripesDir (versionDir st))))) (\<lambda>r.
                bindE (modify_mem (\<lambda>m. m\<lparr>stripeDirOnce := Some (err_of r)\<rparr>)) (\<lambda>_.
                returnE (err_of r)))) (\<lambda>stripeDirErr.
     case stripeDirErr of
       Some e \<Rightarrow> failE e
     | None \<Rightarrow> withFileLock (stripesDir (versionDir st) @ [outputShard outputHex @ ''.lock'']) fn))"

section \<open>Rules\<close>

lemma runUnlocking_InrD:
  assumes "runUnlocking lock fn w = (Inr x, w')"
  shows "\<exists>w1. fn w = (Inr x, w1) \<and> outside w' = outside w1"
proof -
  obtain r w1 where f: "fn w = (r, w1)" by (cases "fn w")
  obtain u w2 where u: "flock_unlock lock w1 = (u, w2)" by (cases "flock_unlock lock w1")
  obtain c w3 where c: "flock_close lock w2 = (c, w3)" by (cases "flock_close lock w2")
  have "outside w3 = outside w1"
    using frame_eqD [OF outside_lock_effects(3) u] frame_eqD [OF outside_lock_effects(4) c] by simp
  with assms f u c show ?thesis
    by (cases r; cases u; cases c)
      (auto simp: runUnlocking_def bindE_def tryE_def wrapE_def err_of_def join_err_def Let_def)
qed

lemma keeps_runUnlocking:
  assumes "keeps I fn" "keeps I (flock_unlock lock)" "keeps I (flock_close lock)"
  shows "keeps I (runUnlocking lock fn)"
  unfolding runUnlocking_def Let_def by (intro keeps_intros assms)

lemma keeps_withFileLock:
  assumes "keeps I fn" "keeps I (flock_unlock p)" "keeps I (flock_close p)" "keeps I (flock_lock p)"
  shows "keeps I (withFileLock p fn)"
  unfolding withFileLock_def by (intro keeps_intros keeps_runUnlocking assms)

lemma keeps_withFileLockIfFree:
  assumes "keeps I fn" "keeps I (flock_unlock p)" "keeps I (flock_close p)" "keeps I (flock_try True p)"
  shows "keeps I (withFileLockIfFree p fn)"
  unfolding withFileLockIfFree_def by (intro keeps_intros keeps_runUnlocking assms)

lemma keeps_db_locks [keeps_intros]:
  "keeps (\<lambda>w. J (db w)) fn \<Longrightarrow> keeps (\<lambda>w. J (db w)) (withFileLock p fn)"
  "keeps (\<lambda>w. J (db w)) fn \<Longrightarrow> keeps (\<lambda>w. J (db w)) (withFileLockIfFree p fn)"
  "keeps (\<lambda>w. J (db w)) fn \<Longrightarrow> keeps (\<lambda>w. J (db w)) (withOutputLock st h fn)"
  unfolding withOutputLock_def
  by (intro keeps_withFileLock keeps_withFileLockIfFree keeps_intros; assumption)+

lemma keeps_db_files [keeps_intros]:
  "keeps (\<lambda>w. J (db w)) (regularFile p)" "keeps (\<lambda>w. J (db w)) (fileSize p)"
  "keeps (\<lambda>w. J (db w)) (remove_if_present msg p)"
  unfolding regularFile_def fileSize_def remove_if_present_def by (intro keeps_intros)+

end
