(* ===== verification/File_Rules.thy ===== *)
theory File_Rules
  imports Store_State
begin

text \<open>
  What file effects do to one file: \<open>file_at p i ino\<close> says the path is a regular file with
  that inode and contents. Every effect that does not remove, replace or write that very file
  keeps it, which is how the components show what they spare.
\<close>

definition file_at :: "path \<Rightarrow> nat \<Rightarrow> inode \<Rightarrow> world \<Rightarrow> bool" where
  "file_at p i ino w \<longleftrightarrow>
     p \<noteq> [] \<and> node_at w p = Some (FileN i) \<and> inodes w i = ino \<and> i < next_ino w"

lemma file_at_simps [simp]:
  "file_at p i ino (w\<lparr>ticks := n\<rparr>) = file_at p i ino w" "file_at p i ino (w\<lparr>db := d\<rparr>) = file_at p i ino w"
  "file_at p i ino (w\<lparr>mem := m\<rparr>) = file_at p i ino w" "file_at p i ino (w\<lparr>held := h\<rparr>) = file_at p i ino w"
  by (auto simp: file_at_def node_at_def)

lemma ticks_blind_file_at [simp]: "ticks_blind (\<lambda>w. file_at p i ino w)"
  by (simp add: ticks_blind_def)

lemma node_at_next_ino [simp]: "node_at (w\<lparr>next_ino := n\<rparr>) = node_at w" "node_at (w\<lparr>mem := m\<rparr>) = node_at w"
  "node_at (w\<lparr>held := h\<rparr>) = node_at w"
  by (auto simp: node_at_def fun_eq_iff)

lemma file_at_del_node: "q \<noteq> p \<Longrightarrow> file_at p i ino w \<Longrightarrow> file_at p i ino (del_node q w)"
  by (auto simp: file_at_def node_at_def del_node_def delete_conv')

lemma file_at_set_new:
  "file_at p i ino w \<Longrightarrow> node_at w q = None \<Longrightarrow> file_at p i ino (set_node q n w)"
  by (cases "q = []") (auto simp: file_at_def node_at_def set_node_def update_conv')

lemma file_at_set_node:
  "file_at p i ino w \<Longrightarrow> node_at w q \<noteq> Some (FileN i) \<or> q \<noteq> p \<Longrightarrow> q \<noteq> [] \<Longrightarrow> file_at p i ino (set_node q n w)"
  by (auto simp: file_at_def)

lemma file_at_new_file:
  "file_at p i ino w \<Longrightarrow> node_at w q = None \<Longrightarrow> q \<noteq> [] \<Longrightarrow> file_at p i ino (snd (new_file q w))"
  by (auto simp: file_at_def new_file_def Let_def)

lemma file_at_mkdir_chain:
  "file_at p i ino w \<Longrightarrow> file_at p i ino (snd (mkdir_chain pre cs w))"
  by (induction cs arbitrary: pre w)
    (auto intro: file_at_set_new split: option.splits node.splits)

lemma node_at_Nil [simp]: "node_at w [] = Some DirN"
  by (simp add: node_at_def)

lemma keeps_file_pure [keeps_intros]:
  "keeps (\<lambda>w. file_at p i ino w) (modify_mem h)" "keeps (\<lambda>w. file_at p i ino w) time_now"
  "keeps (\<lambda>w. file_at p i ino w) (rollback_tx tx)" "keeps (\<lambda>w. file_at p i ino w) (commit_tx tx)"
  "keeps (\<lambda>w. file_at p i ino w) (sql q)" "keeps (\<lambda>w. file_at p i ino w) (sql_read g)"
  "keeps (\<lambda>w. file_at p i ino w) (sql_exec u)" "keeps (\<lambda>w. file_at p i ino w) begin_tx"
  by (auto simp: keeps_def modify_mem_def time_now_def rollback_tx_def commit_tx_def sql_def sql_read_def
      sql_exec_def begin_tx_def effect_def Let_def split: option.splits prod.splits)

lemma keeps_file_stat [keeps_intros]:
  "keeps (\<lambda>w. file_at p i ino w) (os_stat q)" "keeps (\<lambda>w. file_at p i ino w) (os_open q)"
  "keeps (\<lambda>w. file_at p i ino w) (file_read j)" "keeps (\<lambda>w. file_at p i ino w) (file_close j)"
  "keeps (\<lambda>w. file_at p i ino w) (os_read_dir q)" "keeps (\<lambda>w. file_at p i ino w) (walk_dir q)"
  unfolding os_stat_def os_open_def file_read_def file_close_def os_read_dir_def walk_dir_def
  by (rule keeps_sys; auto simp: keeps_def split: option.splits node.splits)+

lemma keeps_file_mkdir [keeps_intros]: "keeps (\<lambda>w. file_at p i ino w) (os_mkdir_all q)"
  unfolding os_mkdir_all_def by (rule keeps_sys) (auto simp: keeps_def file_at_mkdir_chain)

lemma keeps_file_lock_file: "keeps (\<lambda>w. file_at p i ino w) (lock_file c q)"
  unfolding keeps_def lock_file_def by (auto intro: file_at_new_file)

lemma keeps_file_locks [keeps_intros]:
  "keeps (\<lambda>w. file_at p i ino w) (flock_try c q)" "keeps (\<lambda>w. file_at p i ino w) (flock_lock q)"
  "keeps (\<lambda>w. file_at p i ino w) (flock_unlock q)" "keeps (\<lambda>w. file_at p i ino w) (flock_close q)"
  unfolding flock_try_def flock_lock_def flock_unlock_def flock_close_def
  by (rule keeps_sys, simp, (rule keeps_bindE [OF keeps_file_lock_file])?, simp add: keeps_def)+

lemma keeps_file_remove: "q \<noteq> p \<Longrightarrow> keeps (\<lambda>w. file_at p i ino w) (os_remove q)"
  unfolding os_remove_def
  by (rule keeps_sys) (auto simp: keeps_def file_at_del_node split: option.splits node.splits)

lemma keeps_file_output_lock [keeps_intros]:
  "keeps (\<lambda>w. file_at p i ino w) fn \<Longrightarrow> keeps (\<lambda>w. file_at p i ino w) (withFileLock q fn)"
  "keeps (\<lambda>w. file_at p i ino w) fn \<Longrightarrow> keeps (\<lambda>w. file_at p i ino w) (withFileLockIfFree q fn)"
  "keeps (\<lambda>w. file_at p i ino w) fn \<Longrightarrow> keeps (\<lambda>w. file_at p i ino w) (withOutputLock st h fn)"
  unfolding withOutputLock_def
  by (intro keeps_withFileLock keeps_withFileLockIfFree keeps_intros; assumption)+

lemma keeps_file_regular [keeps_intros]:
  "keeps (\<lambda>w. file_at p i ino w) (regularFile q)" "keeps (\<lambda>w. file_at p i ino w) (fileSize q)"
  unfolding regularFile_def fileSize_def by (intro keeps_intros)+

lemma keeps_file_remove_if: "q \<noteq> p \<Longrightarrow> keeps (\<lambda>w. file_at p i ino w) (remove_if_present msg q)"
  unfolding remove_if_present_def by (intro keeps_intros keeps_file_remove)

end
