(* ===== verification/Body_Stream.thy ===== *)
theory Body_Stream
  imports Go_Bytes
begin

text \<open>
  The body of a put (\<open>protocol.go\<close>): a JSON string of base64 text read straight off the
  protocol stream. \<open>jsonStringReader\<close> hands over the slices \<open>bufio.Reader\<close> finds between
  quotes, at most a buffer at a time; \<open>base64.NewDecoder\<close> filters line breaks, gathers quanta
  in its 1024-byte buffer and decodes them. The stream is the input not yet read and the error
  it ends with.
\<close>

section \<open>Base64\<close>

definition b64_digit :: "nat \<Rightarrow> byte" where
  "b64_digit n = (if n < 26 then mk_byte (65 + n) else if n < 52 then mk_byte (71 + n)
     else if n < 62 then mk_byte (n - 4) else if n = 62 then CHR ''+'' else CHR ''/'')"

definition b64_val :: "byte \<Rightarrow> nat option" where
  "b64_val c = (let v = byte_val c in
     if 65 \<le> v \<and> v \<le> 90 then Some (v - 65)
     else if 97 \<le> v \<and> v \<le> 122 then Some (v - 71)
     else if 48 \<le> v \<and> v \<le> 57 then Some (v + 4)
     else if v = 43 then Some 62
     else if v = 47 then Some 63
     else None)"

text \<open>The encoding the go command writes (\<open>StdEncoding\<close>, padded).\<close>

definition join3 :: "byte \<Rightarrow> byte \<Rightarrow> byte \<Rightarrow> nat" where
  "join3 a b c = (byte_val a * 256 + byte_val b) * 256 + byte_val c"

definition digits4 :: "nat \<Rightarrow> bytes" where
  "digits4 n = [b64_digit (n div 262144), b64_digit (n div 4096 mod 64), b64_digit (n div 64 mod 64), b64_digit (n mod 64)]"

fun b64_encode :: "bytes \<Rightarrow> bytes" where
  "b64_encode [] = []"
| "b64_encode [a] = take 2 (digits4 (join3 a (mk_byte 0) (mk_byte 0))) @ ''==''"
| "b64_encode [a, b] = take 3 (digits4 (join3 a b (mk_byte 0))) @ ''=''"
| "b64_encode (a # b # c # rest) = digits4 (join3 a b c) @ b64_encode rest"

text \<open>
  \<open>Encoding.Decode\<close> of whole quanta: the bytes decoded and whether the input was good. Padding
  is accepted only in the last quantum; the bits it cuts off are ignored.
\<close>

definition b64_bytes :: "nat \<Rightarrow> bytes" where
  "b64_bytes n = [mk_byte (n div 65536), mk_byte (n div 256 mod 256), mk_byte (n mod 256)]"

fun b64_decode :: "bytes \<Rightarrow> bytes \<times> bool" where
  "b64_decode [] = ([], True)"
| "b64_decode (a # b # c # d # rest) =
     (case (b64_val a, b64_val b) of
        (Some x, Some y) \<Rightarrow>
          (case b64_val c of
             Some z \<Rightarrow>
               (case b64_val d of
                  Some v \<Rightarrow>
                    (case b64_decode rest of (out, ok) \<Rightarrow>
                       (b64_bytes (((x * 64 + y) * 64 + z) * 64 + v) @ out, ok))
                | None \<Rightarrow>
                    if d = CHR ''='' then (take 2 (b64_bytes (((x * 64 + y) * 64 + z) * 64)), rest = [])
                    else ([], False))
           | None \<Rightarrow>
               if c = CHR ''='' \<and> d = CHR ''='' then (take 1 (b64_bytes ((x * 64 + y) * 4096)), rest = [])
               else ([], False))
      | _ \<Rightarrow> ([], False))"
| "b64_decode _ = ([], False)"

section \<open>The string reader\<close>

record raw =
  rd_input :: bytes
  rd_end :: err
  rd_pending :: bytes
  rd_done :: bool

definition bufSize :: nat where "bufSize = 4096"

text \<open>
  \<open>bufio.Reader.ReadSlice\<close>: through the delimiter if it is within a buffer's length, a full
  buffer (\<open>ErrBufferFull\<close>) if not, and the rest with the stream's error at its end.
\<close>

datatype slice_end = Found | BufferFull | Ended err

definition read_slice :: "byte \<Rightarrow> bytes \<Rightarrow> err \<Rightarrow> bytes \<times> slice_end \<times> bytes" where
  "read_slice delim inp fin =
     (let k = length (takeWhile (\<lambda>c. c \<noteq> delim) inp)
      in if k < length inp \<and> k < bufSize then (take (Suc k) inp, Found, drop (Suc k) inp)
         else if bufSize \<le> length inp then (take bufSize inp, BufferFull, drop bufSize inp)
         else (inp, Ended fin, []))"

definition escape_err :: err where
  "escape_err = Msg ''unsupported escape sequence in body''"

text \<open>\<open>jsonStringReader.Read\<close> into a buffer of \<open>n\<close> bytes.\<close>

definition raw_read :: "nat \<Rightarrow> raw \<Rightarrow> bytes \<times> err option \<times> raw" where
  "raw_read n r =
     (if n = 0 then ([], None, r)
      else if rd_pending r \<noteq> [] then (take n (rd_pending r), None, r\<lparr>rd_pending := drop n (rd_pending r)\<rparr>)
      else if rd_done r then ([], Some ErrEOF, r)
      else
        (case read_slice (CHR 34) (rd_input r) (rd_end r) of
           (slice, Ended e, rest) \<Rightarrow> ([], Some e, r\<lparr>rd_input := rest\<rparr>)
         | (slice, e, rest) \<Rightarrow>
             let finished = (e = Found);
                 chunk = (if finished then butlast slice else slice);
                 r' = r\<lparr>rd_input := rest, rd_done := finished\<rparr>
             in if CHR 92 \<in> set chunk then ([], Some escape_err, r')
                else if chunk = [] \<and> finished then ([], Some ErrEOF, r')
                else (take n chunk, None, r'\<lparr>rd_pending := drop n chunk\<rparr>)))"

definition raw_left :: "raw \<Rightarrow> nat" where
  "raw_left r = length (rd_input r) + length (rd_pending r)"

lemma raw_read_less:
  "raw_read n r = (bs, e, r') \<Longrightarrow> bs \<noteq> [] \<Longrightarrow> raw_left r' < raw_left r"
  by (auto simp: raw_read_def raw_left_def read_slice_def Let_def bufSize_def split: if_splits)

lemma raw_read_length:
  "raw_read n r = (bs, e, r') \<Longrightarrow> raw_left r' + length bs \<le> raw_left r"
  by (auto simp: raw_read_def raw_left_def read_slice_def Let_def bufSize_def butlast_take split: if_splits)

lemma raw_read_some: "0 < n \<Longrightarrow> raw_read n r = ([], e, r') \<Longrightarrow> e \<noteq> None"
  by (auto simp: raw_read_def read_slice_def Let_def bufSize_def split: if_splits)

text \<open>The reader under the decoder, which drops line breaks and never returns an empty slice of them.\<close>

function filt_read :: "nat \<Rightarrow> raw \<Rightarrow> bytes \<times> err option \<times> raw" where
  "filt_read n r =
     (case raw_read n r of (bs, e, r') \<Rightarrow>
        if bs = [] then ([], e, r')
        else
          let kept = filter (\<lambda>c. c \<noteq> CHR 13 \<and> c \<noteq> CHR 10) bs
          in if kept \<noteq> [] then (kept, e, r') else filt_read n r')"
  by pat_completeness auto
termination
  by (relation "measure (\<lambda>(n, r). raw_left r)") (auto dest: raw_read_less [OF sym])

declare filt_read.simps [simp del]

lemma filt_read_facts:
  "filt_read n r = (bs, e, r') \<Longrightarrow>
    (bs \<noteq> [] \<longrightarrow> raw_left r' < raw_left r) \<and> raw_left r' + length bs \<le> raw_left r \<and>
    (0 < n \<longrightarrow> bs = [] \<longrightarrow> e \<noteq> None)"
proof (induction n r rule: filt_read.induct)
  case (1 n r)
  obtain cs d r1 where raw: "raw_read n r = (cs, d, r1)" by (metis prod_cases3)
  note len = raw_read_length [OF raw]
  show ?case
  proof (cases "cs = []")
    case True
    with raw 1(2) len raw_read_some [of n r d r1] show ?thesis by (auto simp: filt_read.simps [of n r])
  next
    case False
    then have less: "raw_left r1 < raw_left r" using raw_read_less [OF raw] by simp
    show ?thesis
    proof (cases "filter (\<lambda>c. c \<noteq> CHR 13 \<and> c \<noteq> CHR 10) cs = []")
      case True
      with raw False 1(2) have "filt_read n r1 = (bs, e, r')" by (simp add: filt_read.simps [of n r] Let_def)
      from 1(1) [OF raw [symmetric] _ False refl _ this] True less show ?thesis by auto
    next
      case nonempty: False
      have "length (filter (\<lambda>c. c \<noteq> CHR 13 \<and> c \<noteq> CHR 10) cs) \<le> length cs" by (rule length_filter_le)
      with raw False nonempty 1(2) less len show ?thesis by (auto simp: filt_read.simps [of n r] Let_def)
    qed
  qed
qed

lemma filt_read_less:
  "filt_read n r = (bs, e, r') \<Longrightarrow> 0 < n \<Longrightarrow> e = None \<Longrightarrow> raw_left r' < raw_left r"
  using filt_read_facts by blast

section \<open>The decoder\<close>

text \<open>
  \<open>decoder.Read\<close>: fill the buffer until it holds a quantum or the source ends, then decode the
  whole quanta in it. The destination \<open>io.Copy\<close> offers is large enough for all of them.
\<close>

definition decBuf :: nat where "decBuf = 1024"

function fill :: "bytes \<Rightarrow> err option \<Rightarrow> raw \<Rightarrow> bytes \<times> err option \<times> raw" where
  "fill buf e r =
     (if 4 \<le> length buf \<or> e \<noteq> None then (buf, e, r)
      else case filt_read (decBuf - length buf) r of (bs, e', r') \<Rightarrow> fill (buf @ bs) e' r')"
  by pat_completeness auto
termination
proof (relation "measure (\<lambda>(buf, e, r). if e = None then Suc (raw_left r) else 0)", goal_cases)
  case (2 buf e r bs y e1 r1)
  then show ?case
    using filt_read_less [of "decBuf - length buf" r bs e1 r1] by (auto simp: decBuf_def)
qed simp

declare fill.simps [simp del]

lemma fill_facts:
  "fill buf e r = (buf', e', r') \<Longrightarrow>
    length buf' + raw_left r' \<le> length buf + raw_left r \<and> (length buf' < 4 \<longrightarrow> e' \<noteq> None)"
proof (induction buf e r rule: fill.induct)
  case (1 buf e r)
  show ?case
  proof (cases "4 \<le> length buf \<or> e \<noteq> None")
    case True
    with 1(2) show ?thesis by (auto simp: fill.simps [of buf])
  next
    case False
    obtain bs e1 r1 where f: "filt_read (decBuf - length buf) r = (bs, e1, r1)" by (metis prod_cases3)
    with False 1(2) have "fill (buf @ bs) e1 r1 = (buf', e', r')" by (simp add: fill.simps [of buf])
    from 1(1) [OF False f [symmetric] _ this] filt_read_facts [OF f] show ?thesis by auto
  qed
qed

record decoder =
  dec_buf :: bytes
  dec_readErr :: "err option"
  dec_raw :: raw

definition dec_read :: "decoder \<Rightarrow> bytes \<times> err option \<times> decoder" where
  "dec_read d =
     (case fill (dec_buf d) (dec_readErr d) (dec_raw d) of (buf, e, r) \<Rightarrow>
        if length buf < 4
        then ([], if e = Some ErrEOF \<and> buf \<noteq> [] then Some ErrUnexpectedEOF else e,
              \<lparr>dec_buf = buf, dec_readErr = e, dec_raw = r\<rparr>)
        else
          let nr = length buf div 4 * 4
          in case b64_decode (take nr buf) of (out, ok) \<Rightarrow>
               (out, if ok then None else Some (Msg ''illegal base64 data''),
                \<lparr>dec_buf = drop nr buf, dec_readErr = e, dec_raw = r\<rparr>))"

text \<open>\<open>io.Copy\<close> from the decoder: everything it yields up to its error; EOF is no error.\<close>

definition dec_left :: "decoder \<Rightarrow> nat" where
  "dec_left d = length (dec_buf d) + raw_left (dec_raw d)"

lemma dec_read_less:
  assumes "dec_read d = (out, None, d')"
  shows "dec_left d' < dec_left d"
proof -
  obtain buf e r where f: "fill (dec_buf d) (dec_readErr d) (dec_raw d) = (buf, e, r)" by (metis prod_cases3)
  have len: "\<not> length buf < 4"
    using assms f fill_facts [OF f] by (auto simp: dec_read_def split: if_splits)
  then have "4 \<le> length buf div 4 * 4" by presburger
  with assms f len fill_facts [OF f] show ?thesis
    by (auto simp: dec_read_def dec_left_def Let_def split: prod.splits if_splits)
qed

function copy_all :: "decoder \<Rightarrow> bytes \<times> err option \<times> decoder" where
  "copy_all d =
     (case dec_read d of
        (out, Some e, d') \<Rightarrow> (out, if e = ErrEOF then None else Some e, d')
      | (out, None, d') \<Rightarrow>
          (case copy_all d' of (out', e, d'') \<Rightarrow> (out @ out', e, d'')))"
  by pat_completeness auto
termination
  by (relation "measure dec_left") (auto intro: dec_read_less [OF sym])

declare copy_all.simps [simp del]

text \<open>\<open>drain\<close>: the rest of the string is read and dropped, up to the first error.\<close>

function drain_raw :: "raw \<Rightarrow> raw" where
  "drain_raw r =
     (case raw_read 32768 r of (bs, e, r') \<Rightarrow> if e \<noteq> None then r' else drain_raw r')"
  by pat_completeness auto
termination
proof (relation "measure raw_left", goal_cases)
  case (2 r a b e r')
  then show ?case
    using raw_read_some [of 32768 r e r'] raw_read_less [of 32768 r a e r'] by (cases "a = []") auto
qed auto

declare drain_raw.simps [simp del]

section \<open>Bodies\<close>

fun skipWhitespace :: "bytes \<Rightarrow> err \<Rightarrow> err + bytes" where
  "skipWhitespace [] fin = Inl fin"
| "skipWhitespace (c # cs) fin =
     (if c \<in> {CHR 32, CHR 10, CHR 13, CHR 9} then skipWhitespace cs fin else Inr (c # cs))"

definition newJSONStringReader :: "bytes \<Rightarrow> err \<Rightarrow> (err \<times> bytes) + raw" where
  "newJSONStringReader inp fin =
     (case skipWhitespace inp fin of
        Inl e \<Rightarrow> Inl (e, [])
      | Inr [] \<Rightarrow> Inl (fin, [])
      | Inr (c # cs) \<Rightarrow>
          if c \<noteq> CHR 34 then Inl (Msg ''expected JSON string body'', cs)
          else Inr \<lparr>rd_input = cs, rd_end = fin, rd_pending = [], rd_done = False\<rparr>)"

datatype body = EmptyBody | StringBody raw

text \<open>
  \<open>bodyReader\<close>. The left result is the error and the input left over.
\<close>

definition bodyReader :: "bytes \<Rightarrow> err \<Rightarrow> int \<Rightarrow> (err \<times> bytes) + body" where
  "bodyReader inp fin sz =
     (if sz = 0 then Inr EmptyBody
      else if sz < 0 then Inl (Msg ''negative body size'', inp)
      else case newJSONStringReader inp fin of Inl e \<Rightarrow> Inl e | Inr r \<Rightarrow> Inr (StringBody r))"

text \<open>
  Copying a whole body: the bytes and error \<open>io.Copy\<close> gets, and the reader afterwards; and
  draining it, which is what a failed put does with the reader it has.
\<close>

definition copy_body :: "body \<Rightarrow> bytes \<times> err option \<times> body" where
  "copy_body b = (case b of
     EmptyBody \<Rightarrow> ([], None, EmptyBody)
   | StringBody r \<Rightarrow>
       (case copy_all \<lparr>dec_buf = [], dec_readErr = None, dec_raw = r\<rparr> of
          (out, e, d) \<Rightarrow> (out, e, StringBody (dec_raw d))))"

definition drainBody :: "body \<Rightarrow> body" where
  "drainBody b = (case b of EmptyBody \<Rightarrow> EmptyBody | StringBody r \<Rightarrow> StringBody (drain_raw r))"

definition body_rest :: "bytes \<Rightarrow> body \<Rightarrow> bytes" where
  "body_rest inp b = (case b of EmptyBody \<Rightarrow> inp | StringBody r \<Rightarrow> rd_input r)"


section \<open>Decoding what was encoded\<close>

lemma b64_val_chars:
  "byte_val (CHR ''+'') = 43" "byte_val (CHR ''/'') = 47"
  "b64_val (CHR ''='') = None" "b64_val (CHR 34) = None" "b64_val (CHR 92) = None"
  "b64_val (CHR 10) = None" "b64_val (CHR 13) = None"
  by (simp_all add: b64_val_def byte_val_def)

lemma b64_val_digit [simp]: "n < 64 \<Longrightarrow> b64_val (b64_digit n) = Some n"
proof -
  assume "n < 64"
  then consider "n < 26" | "26 \<le> n" "n < 52" | "52 \<le> n" "n < 62" | "n = 62" | "n = 63" by linarith
  then show ?thesis
    by cases (auto simp: b64_digit_def b64_val_def b64_val_chars Let_def)
qed

lemma b64_digit_val: "b64_val (b64_digit n) \<noteq> None"
proof (cases "n < 64")
  case False
  then show ?thesis by (simp add: b64_digit_def b64_val_def b64_val_chars)
qed simp

lemma base_split: "(m div k div 64) * 64 + m div k mod 64 = m div k" for m k :: nat
  by (rule div_mult_mod_eq)

lemma b64_join:
  assumes "m < 16777216"
  shows "((m div 262144 * 64 + m div 4096 mod 64) * 64 + m div 64 mod 64) * 64 + m mod 64 = (m::nat)"
proof -
  have "m div 262144 * 64 + m div 4096 mod 64 = m div 4096"
    using base_split [of m 4096] by (simp add: div_mult2_eq [symmetric])
  moreover have "m div 4096 * 64 + m div 64 mod 64 = m div 64"
    using base_split [of m 64] by (simp add: div_mult2_eq [symmetric])
  moreover have "m div 64 * 64 + m mod 64 = m" by (rule div_mult_mod_eq)
  ultimately show ?thesis by simp
qed

lemma shift_byte: "z < 256 \<Longrightarrow> (m * 256 + z) div 256 = m \<and> (m * 256 + z) mod 256 = z" for m z :: nat
  by simp

lemma b64_bytes_join [simp]: "b64_bytes (join3 a b c) = [a, b, c]"
proof -
  have "join3 a b c div 256 = byte_val a * 256 + byte_val b" "join3 a b c mod 256 = byte_val c"
    unfolding join3_def using shift_byte [OF byte_val_less] by blast+
  moreover have "(byte_val a * 256 + byte_val b) div 256 = byte_val a" "(byte_val a * 256 + byte_val b) mod 256 = byte_val b"
    using shift_byte [OF byte_val_less] by blast+
  moreover have "join3 a b c div 65536 = join3 a b c div 256 div 256" by (simp add: div_mult2_eq [symmetric])
  ultimately show ?thesis unfolding b64_bytes_def by (simp only: mk_byte_val)
qed

lemma join3_bound: "join3 a b c < 16777216"
proof -
  have "byte_val a \<le> 255" "byte_val b \<le> 255" "byte_val c \<le> 255"
    using byte_val_less [of a] byte_val_less [of b] byte_val_less [of c] by (simp_all del: byte_val_less)
  moreover have "(x * 256 + y) * 256 + z < 16777216" if "x \<le> 255" "y \<le> 255" "z \<le> 255" for x y z :: nat
    using that by simp
  ultimately show ?thesis unfolding join3_def by blast
qed

lemma join3_digits:
  "join3 a b c div 262144 < 64" "join3 a b c div 4096 mod 64 < 64" "join3 a b c div 64 mod 64 < 64" "join3 a b c mod 64 < 64"
  using join3_bound [of a b c] by linarith+

lemma join3_zero:
  "join3 a b (mk_byte 0) mod 64 = 0" "join3 a (mk_byte 0) (mk_byte 0) div 64 mod 64 = 0"
proof -
  have "join3 a b (mk_byte 0) = 64 * ((byte_val a * 256 + byte_val b) * 4)" by (simp add: join3_def)
  then show "join3 a b (mk_byte 0) mod 64 = 0" by simp
  have "join3 a (mk_byte 0) (mk_byte 0) = 64 * (64 * (byte_val a * 16))" by (simp add: join3_def)
  then have "join3 a (mk_byte 0) (mk_byte 0) div 64 = 64 * (byte_val a * 16)" by simp
  then show "join3 a (mk_byte 0) (mk_byte 0) div 64 mod 64 = 0" by simp
qed

lemma b64_decode_encode [simp]: "b64_decode (b64_encode bs) = (bs, True)"
proof (induction bs rule: b64_encode.induct)
  case 1
  show ?case by simp
next
  case (2 a)
  let ?n = "join3 a (mk_byte 0) (mk_byte 0)"
  have "(?n div 262144 * 64 + ?n div 4096 mod 64) * 4096 = ?n"
    using b64_join [OF join3_bound, of a "mk_byte 0" "mk_byte 0"] join3_zero(2) [of a] join3_zero(1) [of a "mk_byte 0"]
    by simp
  then show ?case by (simp add: digits4_def join3_digits b64_val_chars)
next
  case (3 a b)
  let ?n = "join3 a b (mk_byte 0)"
  have "((?n div 262144 * 64 + ?n div 4096 mod 64) * 64 + ?n div 64 mod 64) * 64 = ?n"
    using b64_join [OF join3_bound, of a b "mk_byte 0"] join3_zero(1) [of a b] by simp
  then show ?case by (simp add: digits4_def join3_digits numeral_3_eq_3 b64_val_chars)
next
  case (4 a b c rest)
  then show ?case using b64_join [OF join3_bound, of a b c] by (simp add: digits4_def join3_digits)
qed

lemma b64_encode_take_drop:
  "4 * m \<le> length (b64_encode bs) \<Longrightarrow>
    take (4 * m) (b64_encode bs) = b64_encode (take (3 * m) bs) \<and>
    drop (4 * m) (b64_encode bs) = b64_encode (drop (3 * m) bs)"
proof (induction m arbitrary: bs)
  case (Suc m)
  show ?case
  proof (cases bs rule: b64_encode.cases)
    case (4 a b c rest)
    with Suc.prems have "4 * m \<le> length (b64_encode rest)" by (simp add: digits4_def)
    from Suc.IH [OF this] have IH: "take (4 * m) (b64_encode rest) = b64_encode (take (3 * m) rest)"
      "drop (4 * m) (b64_encode rest) = b64_encode (drop (3 * m) rest)" by auto
    have "4 * Suc m = Suc (Suc (Suc (Suc (4 * m))))" "3 * Suc m = Suc (Suc (Suc (3 * m)))" by simp_all
    then show ?thesis unfolding 4 by (simp only: IH b64_encode.simps digits4_def append_Cons append_Nil
          take_Suc_Cons drop_Suc_Cons simp_thms)
  qed (use Suc.prems in \<open>auto simp: digits4_def numeral_3_eq_3\<close>)
qed simp

lemma length_digits4 [simp]: "length (digits4 n) = 4"
  by (simp add: digits4_def)

lemma b64_encode_length: "length (b64_encode bs) mod 4 = 0"
  by (induction bs rule: b64_encode.induct) simp_all

lemma b64_encode_Nil_iff [simp]: "b64_encode bs = [] \<longleftrightarrow> bs = []"
  by (cases bs rule: b64_encode.cases) (simp_all add: digits4_def)

definition plain_text :: "bytes \<Rightarrow> bool" where
  "plain_text t \<longleftrightarrow> CHR 34 \<notin> set t \<and> CHR 92 \<notin> set t"

definition b64_text :: "bytes \<Rightarrow> bool" where
  "b64_text t \<longleftrightarrow> (\<forall>c\<in>set t. b64_val c \<noteq> None \<or> c = CHR ''='')"

lemma b64_text_digits [simp]: "b64_text (digits4 n)" "b64_text (take k (digits4 n))"
proof -
  show d: "b64_text (digits4 n)" using b64_digit_val by (auto simp: b64_text_def digits4_def)
  show "b64_text (take k (digits4 n))" using d set_take_subset [of k "digits4 n"] unfolding b64_text_def by blast
qed

lemma b64_text_append [simp]: "b64_text (xs @ ys) \<longleftrightarrow> b64_text xs \<and> b64_text ys"
  by (auto simp: b64_text_def)

lemma b64_text_pad: "b64_text []" "b64_text ''=''" "b64_text ''==''"
  by (simp_all add: b64_text_def)

lemma b64_text_encode: "b64_text (b64_encode bs)"
  by (induction bs rule: b64_encode.induct)
    (simp_all only: b64_encode.simps b64_text_append b64_text_digits b64_text_pad simp_thms)

lemma b64_text_plain:
  "b64_text t \<Longrightarrow> plain_text t \<and> CHR 10 \<notin> set t \<and> CHR 13 \<notin> set t"
proof -
  assume t: "b64_text t"
  have no: "c \<notin> set t" if "b64_val c = None" "c \<noteq> CHR ''=''" for c
    using t that by (auto simp: b64_text_def)
  show ?thesis unfolding plain_text_def by (simp add: no b64_val_chars)
qed


section \<open>Reading a string off the stream\<close>

text \<open>
  \<open>reads r t rest\<close>: the reader still has the text \<open>t\<close> to hand over, after which the stream
  stands right behind the closing quote, at \<open>rest\<close>.
\<close>

definition reads :: "raw \<Rightarrow> bytes \<Rightarrow> bytes \<Rightarrow> bool" where
  "reads r t rest \<longleftrightarrow> plain_text t \<and>
     (if rd_done r then rd_pending r = t \<and> rd_input r = rest
      else \<exists>u. t = rd_pending r @ u \<and> rd_input r = u @ CHR 34 # rest)"

lemma read_slice_quote:
  assumes "CHR 34 \<notin> set u"
  shows "read_slice (CHR 34) (u @ CHR 34 # rest) fin =
    (if length u < bufSize then (u @ [CHR 34], Found, rest)
     else (take bufSize u, BufferFull, drop bufSize u @ CHR 34 # rest))"
proof -
  have "takeWhile (\<lambda>c. c \<noteq> CHR 34) (u @ CHR 34 # rest) = u"
    using assms by (subst takeWhile_append2) auto
  then show ?thesis by (auto simp: read_slice_def Let_def)
qed

lemma plain_take_drop: "plain_text t \<Longrightarrow> plain_text (take n t) \<and> plain_text (drop n t)"
  by (auto simp: plain_text_def dest: in_set_takeD in_set_dropD)

lemma raw_read_reads:
  assumes r: "reads r t rest" and n: "0 < n"
  obtains (eof) r' where "t = []" "raw_read n r = ([], Some ErrEOF, r')" "reads r' [] rest" "rd_done r'" "rd_pending r' = []"
  | (got) k r' where "0 < k" "k \<le> length t" "raw_read n r = (take k t, None, r')" "reads r' (drop k t) rest"
      "n mod 4 = 0 \<Longrightarrow> length t mod 4 = 0 \<Longrightarrow> length (rd_pending r) mod 4 = 0 \<Longrightarrow>
        k mod 4 = 0 \<and> length (rd_pending r') mod 4 = 0"
proof (cases "rd_pending r")
  case (Cons x xs)
  let ?p = "rd_pending r"
  obtain u where t: "t = ?p @ u" and u: "rd_done r \<Longrightarrow> u = []"
    and inp: "if rd_done r then rd_input r = rest else rd_input r = u @ CHR 34 # rest"
    using r by (auto simp: reads_def split: if_splits)
  let ?k = "min n (length ?p)"
  have rr: "raw_read n r = (take n ?p, None, r\<lparr>rd_pending := drop n ?p\<rparr>)"
    using Cons n by (simp add: raw_read_def)
  show ?thesis
  proof (rule got)
    show "0 < ?k" "?k \<le> length t" using Cons n t by auto
    show "raw_read n r = (take ?k t, None, r\<lparr>rd_pending := drop n ?p\<rparr>)"
      unfolding rr t by (simp add: min_def)
    have dk: "drop ?k t = drop n ?p @ u" unfolding t by (simp add: min_def)
    have "plain_text (drop ?k t)" using r plain_take_drop by (auto simp: reads_def)
    then show "reads (r\<lparr>rd_pending := drop n ?p\<rparr>) (drop ?k t) rest"
      using inp u dk by (auto simp: reads_def split: if_splits)
    show "?k mod 4 = 0 \<and> length (rd_pending (r\<lparr>rd_pending := drop n ?p\<rparr>)) mod 4 = 0"
      if "n mod 4 = 0" "length t mod 4 = 0" "length ?p mod 4 = 0"
    proof (cases "n \<le> length ?p")
      case True
      with that show ?thesis by (simp add: min_def) presburger
    next
      case False
      with that show ?thesis by (simp add: min_def)
    qed
  qed
next
  case Nil
  show ?thesis
  proof (cases "rd_done r")
    case True
    with r Nil have "t = []" by (simp add: reads_def)
    moreover have "raw_read n r = ([], Some ErrEOF, r)" using True Nil n by (simp add: raw_read_def)
    ultimately show ?thesis using r True Nil by (intro eof [of r]) auto
  next
    case False
    with r Nil have inp: "rd_input r = t @ CHR 34 # rest" and plain: "plain_text t" by (auto simp: reads_def)
    have q: "CHR 34 \<notin> set t" using plain by (simp add: plain_text_def)
    show ?thesis
    proof (cases "length t < bufSize")
      case short: True
      then have sl: "read_slice (CHR 34) (rd_input r) (rd_end r) = (t @ [CHR 34], Found, rest)"
        using read_slice_quote [OF q] inp by simp
      let ?r = "r\<lparr>rd_input := rest, rd_done := True\<rparr>"
      show ?thesis
      proof (cases "t = []")
        case True
        have "raw_read n r = ([], Some ErrEOF, ?r)"
          using Nil False n sl True by (simp add: raw_read_def Let_def)
        moreover have "reads ?r [] rest" using Nil plain True by (simp add: reads_def)
        ultimately show ?thesis using True Nil by (intro eof [of ?r]) auto
      next
        case nonempty: False
        have rr: "raw_read n r = (take n t, None, ?r\<lparr>rd_pending := drop n t\<rparr>)"
          using Nil False n sl nonempty plain by (simp add: raw_read_def Let_def plain_text_def)
        let ?k = "min n (length t)"
        show ?thesis
        proof (rule got)
          show "0 < ?k" "?k \<le> length t" using n nonempty by auto
          show "raw_read n r = (take ?k t, None, ?r\<lparr>rd_pending := drop n t\<rparr>)" unfolding rr by (simp add: min_def)
          have "drop ?k t = drop n t" by (simp add: min_def)
          then show "reads (?r\<lparr>rd_pending := drop n t\<rparr>) (drop ?k t) rest"
            using plain_take_drop [OF plain, of n] by (simp add: reads_def)
          show "?k mod 4 = 0 \<and> length (rd_pending (?r\<lparr>rd_pending := drop n t\<rparr>)) mod 4 = 0"
            if "n mod 4 = 0" "length t mod 4 = 0"
            using that by (auto simp: min_def)
        qed
      qed
    next
      case long: False
      then have sl: "read_slice (CHR 34) (rd_input r) (rd_end r) =
          (take bufSize t, BufferFull, drop bufSize t @ CHR 34 # rest)"
        using read_slice_quote [OF q] inp by simp
      let ?c = "take bufSize t"
      let ?r = "r\<lparr>rd_input := drop bufSize t @ CHR 34 # rest, rd_done := False\<rparr>"
      have nc: "CHR 92 \<notin> set ?c" using plain_take_drop [OF plain, of bufSize] by (simp add: plain_text_def)
      have rr: "raw_read n r = (take n ?c, None, ?r\<lparr>rd_pending := drop n ?c\<rparr>)"
        using Nil False n sl nc by (simp add: raw_read_def Let_def)
      let ?k = "min n bufSize"
      show ?thesis
      proof (rule got)
        show "0 < ?k" "?k \<le> length t" using n long by (auto simp: bufSize_def)
        show "raw_read n r = (take ?k t, None, ?r\<lparr>rd_pending := drop n ?c\<rparr>)" unfolding rr by simp
        have "drop ?k t = drop n ?c @ drop bufSize t"
        proof (cases "n \<le> bufSize")
          case True
          have "drop n t = drop n (take bufSize t @ drop bufSize t)" by simp
          also have "\<dots> = drop n ?c @ drop bufSize t" using True long by (simp del: append_take_drop_id)
          finally show ?thesis using True by (simp add: min_def)
        qed (simp add: min_def)
        then show "reads (?r\<lparr>rd_pending := drop n ?c\<rparr>) (drop ?k t) rest"
          using plain_take_drop [OF plain, of ?k] by (simp add: reads_def)
        have "length ?c = bufSize" using long by simp
        then show "?k mod 4 = 0 \<and> length (rd_pending (?r\<lparr>rd_pending := drop n ?c\<rparr>)) mod 4 = 0"
          if "n mod 4 = 0"
          using that by (auto simp: min_def bufSize_def)
      qed
    qed
  qed
qed

text \<open>Whatever is read, the reader stays on its string.\<close>

definition on_string :: "bytes \<Rightarrow> raw \<Rightarrow> bool" where
  "on_string rest r \<longleftrightarrow> (\<exists>t. reads r t rest)"

lemma raw_read_on_string:
  assumes "on_string rest r" "raw_read n r = (bs, e, r')"
  shows "on_string rest r'"
proof (cases "n = 0")
  case True
  with assms show ?thesis by (simp add: raw_read_def)
next
  case False
  obtain t where t: "reads r t rest" using assms(1) by (auto simp: on_string_def)
  have "0 < n" using False by simp
  from t this show ?thesis
    by (cases rule: raw_read_reads) (use assms(2) in \<open>auto simp: on_string_def\<close>)
qed

lemma filt_read_on_string:
  "filt_read n r = (bs, e, r') \<Longrightarrow> on_string rest r \<Longrightarrow> on_string rest r'"
proof (induction n r rule: filt_read.induct)
  case (1 n r)
  obtain cs d r1 where raw: "raw_read n r = (cs, d, r1)" by (metis prod_cases3)
  have on: "on_string rest r1" by (rule raw_read_on_string [OF 1(3) raw])
  show ?case
  proof (cases "cs \<noteq> [] \<and> filter (\<lambda>c. c \<noteq> CHR 13 \<and> c \<noteq> CHR 10) cs = []")
    case True
    with raw 1(2) have "filt_read n r1 = (bs, e, r')" by (simp add: filt_read.simps [of n r] Let_def)
    from 1(1) [OF raw [symmetric] _ _ refl _ this on] True show ?thesis by simp
  next
    case False
    with raw 1(2) on show ?thesis by (auto simp: filt_read.simps [of n r] Let_def split: if_splits)
  qed
qed

lemma fill_on_string: "fill buf e r = (buf', e', r') \<Longrightarrow> on_string rest r \<Longrightarrow> on_string rest r'"
proof (induction buf e r rule: fill.induct)
  case (1 buf e r)
  show ?case
  proof (cases "4 \<le> length buf \<or> e \<noteq> None")
    case True
    with 1(2,3) show ?thesis by (simp add: fill.simps [of buf])
  next
    case False
    obtain bs e1 r1 where f: "filt_read (decBuf - length buf) r = (bs, e1, r1)" by (metis prod_cases3)
    with False 1(2) have "fill (buf @ bs) e1 r1 = (buf', e', r')" by (simp add: fill.simps [of buf])
    from 1(1) [OF False f [symmetric] _ this filt_read_on_string [OF f 1(3)]] show ?thesis by simp
  qed
qed

lemma dec_read_on_string:
  assumes "dec_read d = (out, e, d')" "on_string rest (dec_raw d)"
  shows "on_string rest (dec_raw d')"
proof -
  obtain buf x r where f: "fill (dec_buf d) (dec_readErr d) (dec_raw d) = (buf, x, r)" by (metis prod_cases3)
  from fill_on_string [OF f assms(2)] f assms(1) show ?thesis
    by (auto simp: dec_read_def Let_def split: prod.splits if_splits)
qed

lemma raw_read_ended:
  assumes "on_string rest r" "0 < n" "raw_read n r = (bs, Some e, r')"
  shows "rd_input r' = rest"
proof -
  obtain t where t: "reads r t rest" using assms(1) by (auto simp: on_string_def)
  from t assms(2) show ?thesis
    by (cases rule: raw_read_reads) (use assms(3) in \<open>auto simp: reads_def\<close>)
qed

lemma filt_read_ended:
  "filt_read n r = (bs, Some e, r') \<Longrightarrow> on_string rest r \<Longrightarrow> 0 < n \<Longrightarrow> rd_input r' = rest"
proof (induction n r rule: filt_read.induct)
  case (1 n r)
  obtain cs d r1 where raw: "raw_read n r = (cs, d, r1)" by (metis prod_cases3)
  show ?case
  proof (cases "cs \<noteq> [] \<and> filter (\<lambda>c. c \<noteq> CHR 13 \<and> c \<noteq> CHR 10) cs = []")
    case True
    with raw 1(2) have "filt_read n r1 = (bs, Some e, r')" by (simp add: filt_read.simps [of n r] Let_def)
    from 1(1) [OF raw [symmetric] _ _ refl _ this raw_read_on_string [OF 1(3) raw] 1(4)] True show ?thesis by simp
  next
    case False
    with raw 1(2) have "d = Some e" "r' = r1" by (auto simp: filt_read.simps [of n r] Let_def split: if_splits)
    with raw_read_ended [OF 1(3,4)] raw show ?thesis by simp
  qed
qed

lemma fill_ended:
  "fill buf e r = (buf', Some e', r') \<Longrightarrow> on_string rest r \<Longrightarrow> (e \<noteq> None \<longrightarrow> rd_input r = rest) \<Longrightarrow> rd_input r' = rest"
proof (induction buf e r rule: fill.induct)
  case (1 buf e r)
  show ?case
  proof (cases "4 \<le> length buf \<or> e \<noteq> None")
    case True
    with 1(2,4) show ?thesis by (auto simp: fill.simps [of buf])
  next
    case False
    obtain bs e1 r1 where f: "filt_read (decBuf - length buf) r = (bs, e1, r1)" by (metis prod_cases3)
    with False 1(2) have fl: "fill (buf @ bs) e1 r1 = (buf', Some e', r')" by (simp add: fill.simps [of buf])
    have n: "0 < decBuf - length buf" using False by (simp add: decBuf_def)
    have "e1 \<noteq> None \<longrightarrow> rd_input r1 = rest" using filt_read_ended [OF _ 1(3) n] f by fastforce
    from 1(1) [OF False f [symmetric] _ fl filt_read_on_string [OF f 1(3)] this] show ?thesis by simp
  qed
qed

text \<open>
  An error of the readers comes at the end of the string only, so a decoder that has seen one
  stands behind the closing quote; and so does one whose copy ended with EOF.
\<close>

definition decoding :: "bytes \<Rightarrow> decoder \<Rightarrow> bool" where
  "decoding rest d \<longleftrightarrow> on_string rest (dec_raw d) \<and> (dec_readErr d \<noteq> None \<longrightarrow> rd_input (dec_raw d) = rest)"

lemma dec_read_decoding:
  assumes d: "decoding rest d" and r: "dec_read d = (out, e, d')"
  shows "decoding rest d' \<and> (e = Some ErrEOF \<longrightarrow> rd_input (dec_raw d') = rest)"
proof -
  obtain buf x raw where f: "fill (dec_buf d) (dec_readErr d) (dec_raw d) = (buf, x, raw)" by (metis prod_cases3)
  have on: "on_string rest raw" using fill_on_string [OF f] d by (simp add: decoding_def)
  have fin: "x \<noteq> None \<longrightarrow> rd_input raw = rest" using fill_ended f d by (fastforce simp: decoding_def)
  from f r on fin show ?thesis
    by (auto simp: dec_read_def Let_def decoding_def split: prod.splits if_splits)
qed

lemma drain_raw_rest: "on_string rest r \<Longrightarrow> rd_input (drain_raw r) = rest"
proof (induction r rule: drain_raw.induct)
  case (1 r)
  obtain t where t: "reads r t rest" using 1(2) by (auto simp: on_string_def)
  have "(0::nat) < 32768" by simp
  from t this show ?case
  proof (cases rule: raw_read_reads)
    case (eof r')
    then have "drain_raw r = r'" by (simp add: drain_raw.simps [of r])
    with eof show ?thesis by (simp add: reads_def)
  next
    case (got k r')
    have "rd_input (drain_raw r') = rest"
      by (rule "1.IH" [OF got(3) [symmetric]]) (use got in \<open>auto simp: on_string_def\<close>)
    with got show ?thesis by (simp add: drain_raw.simps [of r])
  qed
qed

lemma new_reader_on_string:
  assumes "plain_text t"
  shows "reads \<lparr>rd_input = t @ CHR 34 # rest, rd_end = fin, rd_pending = [], rd_done = False\<rparr> t rest"
  using assms by (simp add: reads_def)

section \<open>Decoding the whole string\<close>

lemma filt_read_plain:
  assumes "raw_read n r = (bs, e, r')" "CHR 13 \<notin> set bs" "CHR 10 \<notin> set bs"
  shows "filt_read n r = (bs, e, r')"
proof -
  have "filter (\<lambda>c. c \<noteq> CHR 13 \<and> c \<noteq> CHR 10) bs = bs" using assms(2,3) by (auto simp: filter_id_conv)
  with assms(1) show ?thesis by (auto simp: filt_read.simps [of n r] Let_def)
qed

lemma copy_all_decodes:
  assumes "reads r (b64_encode bs) rest" "length (rd_pending r) mod 4 = 0"
  shows "\<exists>d'. copy_all \<lparr>dec_buf = [], dec_readErr = None, dec_raw = r\<rparr> = (bs, None, d') \<and>
    rd_input (dec_raw d') = rest"
  using assms
proof (induction "length bs" arbitrary: bs r rule: less_induct)
  case less
  let ?t = "b64_encode bs" and ?d = "\<lparr>dec_buf = [], dec_readErr = None, dec_raw = r\<rparr>"
  have plain_chars: "CHR 10 \<notin> set ?t" "CHR 13 \<notin> set ?t"
    using b64_text_plain [OF b64_text_encode] by auto
  have "(0::nat) < decBuf" by (simp add: decBuf_def)
  from less.prems(1) this show ?case
  proof (cases rule: raw_read_reads)
    case (eof r')
    then have f: "filt_read decBuf r = ([], Some ErrEOF, r')" by (simp add: filt_read.simps [of decBuf])
    have "fill [] None r = ([], Some ErrEOF, r')" using f by (simp add: fill.simps)
    then have "dec_read ?d = ([], Some ErrEOF, \<lparr>dec_buf = [], dec_readErr = Some ErrEOF, dec_raw = r'\<rparr>)"
      by (simp add: dec_read_def)
    then have "copy_all ?d = ([], None, \<lparr>dec_buf = [], dec_readErr = Some ErrEOF, dec_raw = r'\<rparr>)"
      by (simp add: copy_all.simps [of ?d])
    with eof show ?thesis by (auto simp: reads_def)
  next
    case (got k r')
    have al: "k mod 4 = 0" "length (rd_pending r') mod 4 = 0"
      using got(5) b64_encode_length less.prems(2) by (auto simp: decBuf_def)
    then obtain m where k: "k = 4 * m" by (metis mod_0_imp_dvd dvd_def)
    have m: "0 < m" using got(1) k by simp
    note td = b64_encode_take_drop [of m bs] got(2)
    have take: "take k ?t = b64_encode (take (3 * m) bs)" and drop: "drop k ?t = b64_encode (drop (3 * m) bs)"
      using td k by auto
    have len4: "4 \<le> length (take k ?t)" using got(1,2) k by simp
    have "set (take k ?t) \<subseteq> set ?t" by (rule set_take_subset)
    then have f: "filt_read decBuf r = (take k ?t, None, r')"
      using got(3) plain_chars by (intro filt_read_plain) auto
    have fl: "fill [] None r = (take k ?t, None, r')"
      using f len4 by (simp add: fill.simps)
    have full: "length (take k ?t) div 4 * 4 = length (take k ?t)" using got(2) k by simp
    have "dec_read ?d = (take (3 * m) bs, None, \<lparr>dec_buf = [], dec_readErr = None, dec_raw = r'\<rparr>)"
      using fl len4 full by (simp add: dec_read_def Let_def take)
    moreover have "length (drop (3 * m) bs) < length bs"
    proof -
      have "bs \<noteq> []" using got(1,2) by (metis b64_encode.simps(1) le_zero_eq list.size(3) not_gr_zero)
      with m show ?thesis by simp
    qed
    from less.hyps [OF this _ al(2)] got(4) drop obtain d' where
      "copy_all \<lparr>dec_buf = [], dec_readErr = None, dec_raw = r'\<rparr> = (drop (3 * m) bs, None, d')"
      "rd_input (dec_raw d') = rest" by auto
    ultimately show ?thesis by (auto simp: copy_all.simps [of ?d])
  qed
qed

section \<open>Bodies on the stream\<close>

lemma skipWhitespace_spaces:
  "set ws \<subseteq> {CHR 32, CHR 10, CHR 13, CHR 9} \<Longrightarrow> c \<notin> {CHR 32, CHR 10, CHR 13, CHR 9} \<Longrightarrow>
    skipWhitespace (ws @ c # cs) fin = Inr (c # cs)"
  by (induction ws) auto

lemma bodyReader_string:
  assumes "0 < sz" "set ws \<subseteq> {CHR 32, CHR 10, CHR 13, CHR 9}"
  shows "bodyReader (ws @ CHR 34 # inp) fin sz =
    Inr (StringBody \<lparr>rd_input = inp, rd_end = fin, rd_pending = [], rd_done = False\<rparr>)"
  using assms skipWhitespace_spaces [OF assms(2), of "CHR 34" inp fin]
  by (simp add: bodyReader_def newJSONStringReader_def)

lemma copy_encoded:
  "\<exists>raw. copy_body (StringBody \<lparr>rd_input = b64_encode data @ CHR 34 # rest, rd_end = fin, rd_pending = [], rd_done = False\<rparr>) =
    (data, None, StringBody raw) \<and> rd_input raw = rest"
proof -
  have plain: "plain_text (b64_encode data)" using b64_text_plain [OF b64_text_encode] by blast
  show ?thesis
    using copy_all_decodes [OF new_reader_on_string [OF plain, of rest fin]] by (auto simp: copy_body_def)
qed

text \<open>
  C8. A body the go command sends is received as sent: for white space, a quote, the base64 of the
  data and a quote, of any length, \<open>bodyReader\<close> and \<open>io.Copy\<close> yield exactly the data with no
  error, however the text falls into the reader's 4096-byte slices and the decoder's 1024-byte
  buffer, and leave the stream at the byte behind the closing quote.
\<close>

theorem body_roundtrip:
  assumes "0 < sz" "set ws \<subseteq> {CHR 32, CHR 10, CHR 13, CHR 9}"
  shows "\<exists>b b'. bodyReader (ws @ CHR 34 # b64_encode data @ CHR 34 # rest) fin sz = Inr b \<and>
    copy_body b = (data, None, b') \<and> body_rest inp b' = rest"
proof -
  from copy_encoded [of data rest fin] obtain raw where
    "copy_body (StringBody \<lparr>rd_input = b64_encode data @ CHR 34 # rest, rd_end = fin, rd_pending = [], rd_done = False\<rparr>) =
      (data, None, StringBody raw)" "rd_input raw = rest" by blast
  then show ?thesis using bodyReader_string [OF assms] by (simp add: body_rest_def)
qed

theorem body_roundtrip_witness:
  "\<exists>b b'. bodyReader (''  '' @ CHR 34 # b64_encode ''hello'' @ CHR 34 # ''{}'') ErrEOF 5 = Inr b \<and>
    copy_body b = (''hello'', None, b') \<and> body_rest [] b' = ''{}''"
  by (rule body_roundtrip) simp_all

end
