(* ===== verification/Builds.thy ===== *)
theory Builds
  imports Store_State File_Rules Body_Stream
begin

text \<open>
  What a build asks of the store (\<open>put\<close>, \<open>get\<close> and what they call in \<open>cache.go\<close>, with the
  messages of \<open>protocol.go\<close>). A put streams its body into a live file and a compressed blob,
  installs the blob under its output's stripe and records it; a get resolves an action and
  hands out a live file, decompressing the blob when there is none.
\<close>

section \<open>Messages\<close>

datatype command = CmdPut | CmdGet | CmdClose | UnknownCommand string

record request =
  rq_ID :: int
  rq_Command :: command
  rq_ActionID :: bytes
  rq_OutputID :: bytes
  rq_BodySize :: int

record response =
  rs_ID :: int
  rs_Err :: "err option"
  rs_KnownCommands :: "command list"
  rs_Miss :: bool
  rs_OutputID :: bytes
  rs_Size :: int
  rs_Time :: "int option"
  rs_DiskPath :: path

definition no_response :: response where
  "no_response = \<lparr>rs_ID = 0, rs_Err = None, rs_KnownCommands = [], rs_Miss = False,
     rs_OutputID = [], rs_Size = 0, rs_Time = None, rs_DiskPath = []\<rparr>"

text \<open>
  The zstd library: \<open>compress\<close> is the frame an encoder has written once it is closed,
  \<open>decompress\<close> the bytes a decoder yields and the error that ends them.
\<close>

record codec =
  compress :: "bytes \<Rightarrow> bytes"
  decompress :: "bytes \<Rightarrow> bytes \<times> err option"

section \<open>The store's maps\<close>

definition getMaterialized :: "bytes \<Rightarrow> path option io" where
  "getMaterialized outputID = getE (\<lambda>w. map_of (materialized (mem w)) outputID)"

definition setMaterialized :: "bytes \<Rightarrow> path \<Rightarrow> unit io" where
  "setMaterialized outputID path = modify_mem (\<lambda>m. m\<lparr>materialized := AList.update outputID path (materialized m)\<rparr>)"

definition deleteMaterialized :: "bytes \<Rightarrow> unit io" where
  "deleteMaterialized outputID = modify_mem (\<lambda>m. m\<lparr>materialized := AList.delete outputID (materialized m)\<rparr>)"

definition writeAccessTimes :: "(bytes \<times> int) list \<Rightarrow> (bytes \<times> int) list \<Rightarrow> unit io" where
  "writeAccessTimes accs outs =
     bindE (wrapE ''begin access-time transaction'' begin_tx) (\<lambda>tx.
     bindE (recoverE (q_touchAccessed accs outs) (\<lambda>e. bindE (ignoreE (rollback_tx tx)) (\<lambda>_. failE e))) (\<lambda>_.
     wrapE ''commit access-time transaction'' (commit_tx tx)))"

text \<open>A later access wins; a missing key reads as zero.\<close>

definition restore_map :: "(bytes \<times> int) list \<Rightarrow> (bytes \<times> int) list \<Rightarrow> (bytes \<times> int) list" where
  "restore_map batch m =
     fold (\<lambda>(k, at) acc. if the_default 0 (map_of acc k) < at then AList.update k at acc else acc) batch m"

definition restoreAccessed :: "(bytes \<times> int) list \<Rightarrow> (bytes \<times> int) list \<Rightarrow> unit io" where
  "restoreAccessed accs outs = modify_mem (\<lambda>m.
     m\<lparr>accessed := restore_map accs (accessed m), accessedOutputs := restore_map outs (accessedOutputs m)\<rparr>)"

definition flushAccessTimes :: "unit io" where
  "flushAccessTimes =
     bindE (getE (\<lambda>w. (accessed (mem w), accessedOutputs (mem w)))) (\<lambda>(accs, outs).
     bindE (modify_mem (\<lambda>m. m\<lparr>accessed := [], accessedOutputs := []\<rparr>)) (\<lambda>_.
     if accs = [] \<and> outs = [] then returnE ()
     else recoverE (writeAccessTimes accs outs) (\<lambda>e.
       bindE (restoreAccessed accs outs) (\<lambda>_. failE e))))"

definition markEntryAccess :: "bytes \<Rightarrow> bytes \<Rightarrow> unit io" where
  "markEntryAccess actionID outputID =
     bindE time_now (\<lambda>now.
     bindE (getE (\<lambda>w. accessFlushInterval \<le> time_sub now (accessFlushed (mem w)))) (\<lambda>due.
     bindE (modify_mem (\<lambda>m. m\<lparr>accessed := AList.update actionID (unixMillis now) (accessed m),
              accessedOutputs := AList.update outputID (unixMillis now) (accessedOutputs m),
              accessFlushed := (if due then now else accessFlushed m)\<rparr>)) (\<lambda>_.
     if \<not> due then returnE () else ignoreE flushAccessTimes)))"

section \<open>Files\<close>

definition createLiveFile :: "store \<Rightarrow> bytes \<Rightarrow> path io" where
  "createLiveFile st outputHex =
     (let dir = runDir st @ [outputShard outputHex] in
     bindE (wrapE ''create live shard dir'' (os_mkdir_all dir)) (\<lambda>_.
     bindE (wrapE ''create live file'' (os_create_temp dir (outputHex @ ''-'') [])) (\<lambda>(file, path).
     recoverE (bindE (file_close file) (\<lambda>_. returnE path)) (\<lambda>e.
       bindE (ignoreE (os_remove path)) (\<lambda>_. failE (Wrap ''close live file placeholder'' [e]))))))"

definition adoptBlob :: "path \<Rightarrow> int io" where
  "adoptBlob dst =
     bindE time_now (\<lambda>now.
     bindE (wrapE ''stamp compressed file'' (os_chtimes dst now)) (\<lambda>_. fileSize dst))"

definition installBlobLocked :: "path \<Rightarrow> path \<Rightarrow> int io" where
  "installBlobLocked tmpPath dst =
     (let install =
        bindE (tryE (os_rename tmpPath dst)) (\<lambda>r.
        case r of
          Inr _ \<Rightarrow> fileSize dst
        | Inl e \<Rightarrow> bindE (regularFile dst) (\<lambda>reg.
            if \<not> reg then failE (Wrap ''install compressed file'' [e]) else adoptBlob dst))
     in bindE (regularFile dst) (\<lambda>present.
        if present
        then recoverE (adoptBlob dst) (\<lambda>e. if errors_is ErrNotExist e then install else failE e)
        else install))"

section \<open>Streaming a put\<close>

text \<open>
  \<open>bufio.Writer.Write\<close>: what does not fit into the buffer is written with it.
\<close>

definition liveWriteBuffer :: nat where "liveWriteBuffer = 1048576"

definition buf_write :: "nat \<Rightarrow> bytes \<Rightarrow> bytes \<Rightarrow> bytes io" where
  "buf_write file buf p =
     (let n = liveWriteBuffer - length buf
      in if length p \<le> n then returnE (buf @ p)
         else bindE (file_write file (buf @ take n p)) (\<lambda>_. returnE (drop n p)))"

text \<open>
  \<open>io.Copy(io.MultiWriter(bw, blob), body)\<close>: each chunk goes to the buffered live file and
  then to the encoder, which gathers what it has been given. The result is the error, the
  buffer, what the encoder was given and the decoder.
\<close>

function copy_put :: "nat \<Rightarrow> bytes \<Rightarrow> bytes \<Rightarrow> decoder \<Rightarrow> (err option \<times> bytes \<times> bytes \<times> decoder) io" where
  "copy_put file buf data d w =
     (case dec_read d of (out, e, d') \<Rightarrow>
        (case buf_write file buf out w of
           (Inl x, w') \<Rightarrow> (Inr (Some x, buf, data, d'), w')
         | (Inr buf', w') \<Rightarrow>
             (case e of
                Some x \<Rightarrow> (Inr (if x = ErrEOF then None else Some x, buf', data @ out, d'), w')
              | None \<Rightarrow> copy_put file buf' (data @ out) d' w')))"
  by pat_completeness auto
termination
  by (relation "measure (\<lambda>(file, buf, data, d, w). dec_left d)") (auto intro: dec_read_less [OF sym])

declare copy_put.simps [simp del]

text \<open>
  \<open>streamPutBody\<close>: its error, the bytes the encoder was given and the body afterwards.
\<close>

definition copy_body_put :: "nat \<Rightarrow> body \<Rightarrow> (err option \<times> bytes \<times> bytes \<times> body) io" where
  "copy_body_put file b = (case b of
     EmptyBody \<Rightarrow> returnE (None, [], [], EmptyBody)
   | StringBody r \<Rightarrow>
       bindE (copy_put file [] [] \<lparr>dec_buf = [], dec_readErr = None, dec_raw = r\<rparr>) (\<lambda>(e, buf, data, d).
       returnE (e, buf, data, StringBody (dec_raw d))))"

definition streamPutBody :: "nat \<Rightarrow> body \<Rightarrow> (err option \<times> bytes \<times> body) io" where
  "streamPutBody live b =
     bindE (copy_body_put live b) (\<lambda>(e, buf, data, b').
     case e of
       Some x \<Rightarrow> returnE (Some (Wrap ''read put body'' [x]), data, b')
     | None \<Rightarrow>
         bindE (tryE (if buf = [] then returnE () else file_write live buf)) (\<lambda>r.
         case r of
           Inl x \<Rightarrow> returnE (Some (Wrap ''write live file'' [x]), data, b')
         | Inr _ \<Rightarrow> returnE (None, data, b')))"

text \<open>
  \<open>put\<close> up to the open files: the live file and the pending blob, each with its path.
\<close>

definition open_pending :: "store \<Rightarrow> bytes \<Rightarrow> path \<Rightarrow> (path \<times> nat \<times> path \<times> nat) io" where
  "open_pending st outputHex bodyPath =
     bindE (wrapE ''create compressed file''
              (os_create_temp (blobDir (blobsDir st) outputHex) (outputHex @ ''-pending-'') ''.zst'')) (\<lambda>(blobTmp, blobTmpPath).
     recoverE
       (bindE (os_create bodyPath) (\<lambda>bodyFile. returnE (bodyPath, bodyFile, blobTmpPath, blobTmp)))
       (\<lambda>e. bindE (ignoreE (file_close blobTmp)) (\<lambda>_.
            bindE (ignoreE (os_remove blobTmpPath)) (\<lambda>_. failE (Wrap ''create live file'' [e])))))"

definition put_open :: "store \<Rightarrow> bytes \<Rightarrow> (path \<times> nat \<times> path \<times> nat) io" where
  "put_open st outputHex =
     bindE (wrapE ''create blob dir'' (os_mkdir_all (blobDir (blobsDir st) outputHex))) (\<lambda>_.
     bindE (createLiveFile st outputHex) (\<lambda>bodyPath.
     recoverE (open_pending st outputHex bodyPath)
       (\<lambda>e. bindE (ignoreE (os_remove bodyPath)) (\<lambda>_. failE e))))"

definition upsertEntry :: "entry \<Rightarrow> unit io" where
  "upsertEntry ent = wrapE ''upsert entry'' (q_upsertEntry ent)"

definition lookupEntry :: "bytes \<Rightarrow> entry io" where
  "lookupEntry actionID = q_lookupEntry actionID"

definition dropAction :: "store \<Rightarrow> bytes \<Rightarrow> bytes \<Rightarrow> unit io" where
  "dropAction st actionID outputID =
     bindE (withOutputLock st outputID (remove_if_present ''remove bad blob'' (blobPath (blobsDir st) outputID))) (\<lambda>_.
     bindE (wrapE ''drop bad output'' (q_dropAction actionID outputID)) (\<lambda>_.
     deleteMaterialized outputID))"

text \<open>\<open>put\<close> after the copy: the blob is installed, the entry recorded and the live file kept.\<close>

definition put_record :: "store \<Rightarrow> request \<Rightarrow> bytes \<Rightarrow> bytes \<Rightarrow> path \<Rightarrow> path \<Rightarrow> int \<Rightarrow> response io" where
  "put_record st req actionHex outputHex bodyPath blobTmpPath written =
     bindE (withOutputLock st outputHex (installBlobLocked blobTmpPath (blobPath (blobsDir st) outputHex))) (\<lambda>compressedSz.
     bindE (modify_mem (\<lambda>m. m\<lparr>installed := i64 (installed m + compressedSz)\<rparr>)) (\<lambda>_.
     bindE time_now (\<lambda>now.
     bindE (upsertEntry \<lparr>ActionID = actionHex, OutputID = outputHex, Size = written,
              CompressedSize = compressedSz, CreatedAt = now, AccessedAt = now\<rparr>) (\<lambda>_.
     bindE (setMaterialized outputHex bodyPath) (\<lambda>_.
     returnE (no_response\<lparr>rs_ID := rq_ID req, rs_DiskPath := bodyPath\<rparr>))))))"

definition put_finish ::
  "codec \<Rightarrow> store \<Rightarrow> request \<Rightarrow> bytes \<Rightarrow> bytes \<Rightarrow> path \<times> nat \<times> path \<times> nat \<Rightarrow> err option \<Rightarrow> bytes \<Rightarrow> response io" where
  "put_finish cd st req actionHex outputHex fs copyErr data =
     (case fs of (bodyPath, bodyFile, blobTmpPath, blobTmp) \<Rightarrow>
     bindE (tryE (file_write blobTmp (compress cd data))) (\<lambda>closeErr.
     bindE (tryE (file_close bodyFile)) (\<lambda>bodyCloseErr.
     bindE (tryE (file_close blobTmp)) (\<lambda>blobCloseErr.
     case copyErr of Some e \<Rightarrow> failE e | None \<Rightarrow>
     bindE (wrapE ''finish zstd stream'' (liftE closeErr)) (\<lambda>_.
     bindE (wrapE ''close live file'' (liftE bodyCloseErr)) (\<lambda>_.
     bindE (wrapE ''close compressed file'' (liftE blobCloseErr)) (\<lambda>_.
     if int (length data) \<noteq> rq_BodySize req then failE (Msg ''put body size mismatch'')
     else put_record st req actionHex outputHex bodyPath blobTmpPath (int (length data)))))))))"

text \<open>
  The whole put. Its result is the response or error and what is left of the stream: the
  deferred calls remove the pending blob, remove the live file unless the put succeeded, and
  drain a body that was not read to its end.
\<close>

definition put_body ::
  "codec \<Rightarrow> store \<Rightarrow> request \<Rightarrow> bytes \<Rightarrow> bytes \<Rightarrow> body \<Rightarrow> ((err + response) \<times> body) io" where
  "put_body cd st req actionHex outputHex b =
     bindE (tryE (put_open st outputHex)) (\<lambda>opened.
     case opened of
       Inl e \<Rightarrow> returnE (Inl e, drainBody b)
     | Inr (bodyPath, bodyFile, blobTmpPath, blobTmp) \<Rightarrow>
         bindE (streamPutBody bodyFile b) (\<lambda>(copyErr, data, b').
         bindE (tryE (put_finish cd st req actionHex outputHex
                        (bodyPath, bodyFile, blobTmpPath, blobTmp) copyErr data)) (\<lambda>r.
         bindE (ignoreE (os_remove blobTmpPath)) (\<lambda>_.
         bindE (case r of Inl e \<Rightarrow> ignoreE (os_remove bodyPath) | Inr _ \<Rightarrow> returnE ()) (\<lambda>_.
         returnE (r, if copyErr = None then b' else drainBody b'))))))"

definition put :: "codec \<Rightarrow> store \<Rightarrow> request \<Rightarrow> bytes \<Rightarrow> err \<Rightarrow> ((err + response) \<times> bytes) io" where
  "put cd st req inp fin =
     (case idHex ''ActionID'' (rq_ActionID req) of Inl e \<Rightarrow> returnE (Inl e, inp) | Inr actionHex \<Rightarrow>
     (case idHex ''OutputID'' (rq_OutputID req) of Inl e \<Rightarrow> returnE (Inl e, inp) | Inr outputHex \<Rightarrow>
     (case bodyReader inp fin (rq_BodySize req) of Inl (e, rest) \<Rightarrow> returnE (Inl e, rest) | Inr b \<Rightarrow>
     bindE (put_body cd st req actionHex outputHex b) (\<lambda>(r, b').
     returnE (r, body_rest inp b')))))"

section \<open>Answering a get\<close>

text \<open>
  \<open>materialize\<close> after the live file's name is taken: the blob is opened under the stripe and
  decompressed outside it.
\<close>

definition materialize_into :: "codec \<Rightarrow> store \<Rightarrow> entry \<Rightarrow> path \<Rightarrow> unit io" where
  "materialize_into cd st ent bodyPath =
     bindE (withOutputLock st (OutputID ent) (os_open (blobPath (blobsDir st) (OutputID ent)))) (\<lambda>blob.
     finallyE
       (bindE (wrapE ''create live file'' (os_create bodyPath)) (\<lambda>bodyFile.
        bindE (tryE (bindE (file_read blob) (\<lambda>frame.
                 case decompress cd frame of (out, e) \<Rightarrow>
                   bindE (file_write bodyFile out) (\<lambda>_.
                   case e of None \<Rightarrow> returnE (int (length out)) | Some x \<Rightarrow> failE x)))) (\<lambda>copied.
        bindE (tryE (file_close bodyFile)) (\<lambda>closeErr.
        case copied of
          Inl x \<Rightarrow> failE (Wrap ''decompress cache entry'' [ErrInvalidCacheEntry, x])
        | Inr written \<Rightarrow>
            bindE (wrapE ''close live file'' (liftE closeErr)) (\<lambda>_.
            if written \<noteq> Size ent then failE (Wrap ''decompressed size mismatch'' [ErrInvalidCacheEntry])
            else returnE ())))))
       (file_close blob))"

definition materialize :: "codec \<Rightarrow> store \<Rightarrow> entry \<Rightarrow> path io" where
  "materialize cd st ent =
     bindE (createLiveFile st (OutputID ent)) (\<lambda>bodyPath.
     bindE (recoverE (materialize_into cd st ent bodyPath) (\<lambda>e.
              bindE (ignoreE (os_remove bodyPath)) (\<lambda>_. failE e))) (\<lambda>_.
     returnE bodyPath))"

definition missed :: "request \<Rightarrow> response" where
  "missed req = no_response\<lparr>rs_ID := rq_ID req, rs_Miss := True\<rparr>"

text \<open>The path \<open>get\<close> answers with: one already materialized, or \<open>None\<close> when there is none to be had.\<close>

definition get_path :: "codec \<Rightarrow> store \<Rightarrow> bytes \<Rightarrow> entry \<Rightarrow> path option io" where
  "get_path cd st actionHex ent =
     bindE (getMaterialized (OutputID ent)) (\<lambda>known.
     bindE (case known of None \<Rightarrow> returnE False | Some p \<Rightarrow> regularFile p) (\<lambda>usable.
     if usable then returnE known
     else
       bindE (tryE (materialize cd st ent)) (\<lambda>r.
       case r of
         Inl e \<Rightarrow>
           if errors_is ErrNotExist e \<or> errors_is ErrInvalidCacheEntry e
           then bindE (ignoreE (dropAction st actionHex (OutputID ent))) (\<lambda>_. returnE None)
           else failE e
       | Inr path \<Rightarrow> bindE (setMaterialized (OutputID ent) path) (\<lambda>_. returnE (Some path)))))"

definition get :: "codec \<Rightarrow> store \<Rightarrow> request \<Rightarrow> response io" where
  "get cd st req =
     bindE (liftE (idHex ''ActionID'' (rq_ActionID req))) (\<lambda>actionHex.
     bindE (tryE (lookupEntry actionHex)) (\<lambda>found.
     case found of
       Inl e \<Rightarrow>
         if errors_is ErrNoRows e then returnE (missed req)
         else if errors_is ErrTagMismatch e
         then bindE (ignoreE (q_deleteAction actionHex)) (\<lambda>_. returnE (missed req))
         else failE e
     | Inr ent \<Rightarrow>
         bindE (get_path cd st actionHex ent) (\<lambda>path.
         case path of
           None \<Rightarrow> returnE (missed req)
         | Some p \<Rightarrow>
             bindE (markEntryAccess actionHex (OutputID ent)) (\<lambda>_.
             bindE (idKeyE (OutputID ent)) (\<lambda>key.
             returnE (no_response\<lparr>rs_ID := rq_ID req, rs_OutputID := key, rs_Size := Size ent,
               rs_Time := Some (CreatedAt ent), rs_DiskPath := p\<rparr>))))))"

end
