(* ===== verification/Eviction.thy ===== *)
theory Eviction
  imports Store_State
begin

text \<open>
  Eviction to the size budget (\<open>planToMaxSize\<close>, \<open>evictToMaxSize\<close> in \<open>cache.go\<close>,
  \<open>evictionCandidates\<close> in \<open>catalog.go\<close>): candidates are paged oldest first by a cursor that is
  a total order, and each is evicted only if nothing has read it since it was chosen.
\<close>

section \<open>Pages\<close>

text \<open>
  The contract of a paged listing: for a state in its invariant, a page is the next rows above
  the cursor in a strict order. Its client's lemma: the rows above a cursor are a page and the
  rows above that page's last row, so a walk misses none and repeats none.
\<close>

locale cursor_pages =
  fixes inv :: "'s \<Rightarrow> bool" and rows :: "'s \<Rightarrow> 'r list" and key :: "'r \<Rightarrow> 'c"
    and less :: "'c \<Rightarrow> 'c \<Rightarrow> bool" and page :: "'c \<Rightarrow> nat \<Rightarrow> 's \<Rightarrow> 'r list"
  assumes less_trans: "less a b \<Longrightarrow> less b c \<Longrightarrow> less a c"
    and less_irrefl: "\<not> less a a"
    and rows_sorted: "inv s \<Longrightarrow> sorted_wrt (\<lambda>x y. less (key x) (key y)) (rows s)"
    and page_take: "inv s \<Longrightarrow> page c n s = take n (filter (\<lambda>r. less c (key r)) (rows s))"
begin

definition rest :: "'c \<Rightarrow> 's \<Rightarrow> 'r list" where
  "rest c s = filter (\<lambda>r. less c (key r)) (rows s)"

lemma rest_sorted: "inv s \<Longrightarrow> sorted_wrt (\<lambda>x y. less (key x) (key y)) (rest c s)"
  unfolding rest_def by (simp add: rows_sorted sorted_wrt_filter)

lemma page_prefix: "inv s \<Longrightarrow> page c n s = take n (rest c s)"
  by (simp add: page_take rest_def)

lemma rest_after_page:
  assumes inv: "inv s" and ne: "page c n s \<noteq> []"
  shows "rest (key (last (page c n s))) s = drop n (rest c s)"
proof -
  let ?p = "page c n s" and ?R = "rest c s"
  have p: "?p = take n ?R" by (rule page_prefix [OF inv])
  have sorted: "sorted_wrt (\<lambda>x y. less (key x) (key y)) (take n ?R @ drop n ?R)"
    using rest_sorted [OF inv] by simp
  have last: "last ?p \<in> set (take n ?R)" using ne p by (metis last_in_set)
  have above: "\<And>y. y \<in> set (drop n ?R) \<Longrightarrow> less (key (last ?p)) (key y)"
    using sorted last unfolding sorted_wrt_append by blast
  have below: "\<not> less (key (last ?p)) (key x)" if "x \<in> set (take n ?R)" for x
  proof -
    have "x = last ?p \<or> less (key x) (key (last ?p))"
    proof -
      from ne have "?p = butlast ?p @ [last ?p]" by simp
      moreover have "sorted_wrt (\<lambda>x y. less (key x) (key y)) ?p"
        using sorted unfolding sorted_wrt_append p by blast
      moreover have "x \<in> set ?p" using that p by simp
      ultimately show ?thesis by (metis (no_types, lifting) Un_iff empty_iff list.set(1) list.set_intros(1)
            set_ConsD set_append sorted_wrt_append)
    qed
    then show ?thesis using less_trans less_irrefl by blast
  qed
  have "less c (key (last ?p))" using last by (auto simp: rest_def dest: in_set_takeD)
  then have "rest (key (last ?p)) s = filter (\<lambda>r. less (key (last ?p)) (key r)) ?R"
    unfolding rest_def by (auto intro!: filter_cong dest: less_trans)
  also have "\<dots> = filter (\<lambda>r. less (key (last ?p)) (key r)) (take n ?R @ drop n ?R)" by simp
  also have "\<dots> = drop n ?R"
    unfolding filter_append using above below by (simp add: filter_empty_conv filter_id_conv)
  finally show ?thesis .
qed

lemma page_progress:
  "inv s \<Longrightarrow> page c n s \<noteq> [] \<Longrightarrow> length (rest (key (last (page c n s))) s) < length (rest c s)"
  using rest_after_page page_prefix by (metis diff_less length_drop length_greater_0_conv neq0_conv take_eq_Nil)

end

section \<open>The eviction order\<close>

lemma cursor_less_trans: "cursor_less a b \<Longrightarrow> cursor_less b c \<Longrightarrow> cursor_less a c"
  by (auto simp: cursor_less_def split: prod.splits)

lemma cursor_less_irrefl [simp]: "\<not> cursor_less a a"
  by (auto simp: cursor_less_def split: prod.splits)

lemma cursor_less_linear: "cursor_less a b \<or> a = b \<or> cursor_less b a"
  by (auto simp: cursor_less_def split: prod.splits)

abbreviation row_less :: "output_row \<Rightarrow> output_row \<Rightarrow> bool" where
  "row_less a b \<equiv> cursor_less (row_cursor a) (row_cursor b)"

lemma mset_insert_row [simp]: "set (insert_row r rs) = insert r (set rs)"
  "length (insert_row r rs) = Suc (length rs)"
  by (induction rs) auto

lemma set_sort_rows [simp]: "set (sort_rows rs) = set rs" "length (sort_rows rs) = length rs"
  unfolding sort_rows_def by (induction rs) auto

lemma insert_row_sorted:
  "sorted_wrt row_less rs \<Longrightarrow> (\<And>s. s \<in> set rs \<Longrightarrow> row_cursor s \<noteq> row_cursor r) \<Longrightarrow>
    sorted_wrt row_less (insert_row r rs)"
proof (induction rs)
  case (Cons s ss)
  show ?case
  proof (cases "cursor_less (row_cursor s) (row_cursor r)")
    case True
    with Cons show ?thesis by auto
  next
    case False
    then have "cursor_less (row_cursor r) (row_cursor s)"
      using Cons.prems(2) [of s] cursor_less_linear [of "row_cursor r" "row_cursor s"] by auto
    with Cons.prems(1) False show ?thesis by (auto intro: cursor_less_trans)
  qed
qed simp

lemma row_cursor_other:
  assumes "s \<in> set rs" "out_id r \<notin> out_id ` set rs"
  shows "row_cursor s \<noteq> row_cursor r"
proof
  assume "row_cursor s = row_cursor r"
  then have "out_id r = out_id s" by (simp add: row_cursor_def)
  with assms show False by (metis imageI)
qed

lemma sort_rows_sorted:
  "distinct (map out_id rs) \<Longrightarrow> sorted_wrt row_less (sort_rows rs)"
proof (induction rs)
  case Nil
  show ?case by (simp add: sort_rows_def)
next
  case (Cons r rs)
  have "row_cursor s \<noteq> row_cursor r" if "s \<in> set (sort_rows rs)" for s
    using that Cons.prems by (intro row_cursor_other) auto
  with Cons show ?case
    by (auto simp: sort_rows_def intro!: insert_row_sorted)
qed

lemma filter_insert_row:
  "sorted_wrt row_less rs \<Longrightarrow> (\<And>s. s \<in> set rs \<Longrightarrow> row_cursor s \<noteq> row_cursor r) \<Longrightarrow>
    filter P (insert_row r rs) = (if P r then insert_row r (filter P rs) else filter P rs)"
proof (induction rs)
  case Nil
  show ?case by simp
next
  case (Cons s ss)
  show ?case
  proof (cases "cursor_less (row_cursor s) (row_cursor r)")
    case True
    with Cons show ?thesis by auto
  next
    case False
    then have rs: "cursor_less (row_cursor r) (row_cursor s)"
      using Cons.prems(2) [of s] cursor_less_linear [of "row_cursor r" "row_cursor s"] by auto
    have "insert_row r (filter P ss) = r # filter P ss"
    proof (cases "filter P ss")
      case (Cons x xs)
      then have "x \<in> set ss" by (metis filter_is_subset list.set_intros(1) subsetD)
      then have "cursor_less (row_cursor r) (row_cursor x)"
        using Cons.prems(1) rs by (auto intro: cursor_less_trans)
      then have "\<not> cursor_less (row_cursor x) (row_cursor r)" by (meson cursor_less_irrefl cursor_less_trans)
      with Cons show ?thesis by simp
    qed simp
    with False show ?thesis by simp
  qed
qed

lemma sort_rows_filter:
  "distinct (map out_id rs) \<Longrightarrow> sort_rows (filter P rs) = filter P (sort_rows rs)"
proof (induction rs)
  case Nil
  show ?case by (simp add: sort_rows_def)
next
  case (Cons r rs)
  have ne: "row_cursor s \<noteq> row_cursor r" if "s \<in> set (sort_rows rs)" for s
    using that Cons.prems by (intro row_cursor_other) auto
  have "filter P (sort_rows (r # rs)) =
      (if P r then insert_row r (filter P (sort_rows rs)) else filter P (sort_rows rs))"
    unfolding sort_rows_def foldr.simps o_apply
    by (rule filter_insert_row) (use Cons.prems sort_rows_sorted [of rs] ne in \<open>auto simp: sort_rows_def\<close>)
  with Cons show ?case by (auto simp: sort_rows_def)
qed

interpretation eviction_pages:
  cursor_pages wf_tables "\<lambda>d. sort_rows (outputs d)" row_cursor cursor_less sql_eviction_page
proof
  show "cursor_less a c" if "cursor_less a b" "cursor_less b c" for a b c
    using that by (rule cursor_less_trans)
  show "\<not> cursor_less a a" for a by simp
  show "sorted_wrt row_less (sort_rows (outputs d))" if "wf_tables d" for d
    using that by (simp add: wf_tables_def sort_rows_sorted)
  show "sql_eviction_page c n d = take n (filter (\<lambda>r. cursor_less c (row_cursor r)) (sort_rows (outputs d)))"
    if "wf_tables d" for c n d
    using that by (simp add: sql_eviction_page_def sort_rows_filter wf_tables_def)
qed

interpretation stale_pages:
  cursor_pages wf_tables
    "\<lambda>d. sort (map ent_action (filter (\<lambda>e. ent_accessed e < cutoff) (entries d)))"
    "\<lambda>k. k" "(<)" "sql_stale_actions cutoff"
proof
  show "sorted_wrt (<) (sort (map ent_action (filter (\<lambda>e. ent_accessed e < cutoff) (entries d))))"
    if "wf_tables d" for d
    using that by (simp add: strict_sorted_iff wf_tables_def distinct_map_filterI)
  show "sql_stale_actions cutoff c n d =
      take n (filter ((<) c) (sort (map ent_action (filter (\<lambda>e. ent_accessed e < cutoff) (entries d)))))" for c n d
    by (simp add: sql_stale_actions_def filter_sort filter_map comp_def conj_commute)
qed auto

section \<open>Planning\<close>

record pruneCandidate =
  pc_outputID :: bytes
  pc_id :: int
  pc_size :: int
  pc_accessedAt :: int

definition candidate_of :: "output_row \<Rightarrow> pruneCandidate" where
  "candidate_of r = \<lparr>pc_outputID = hex_encode (out_key r), pc_id = out_id r,
     pc_size = out_compressed r, pc_accessedAt = out_accessed r\<rparr>"

definition evictionCandidates :: "cursor \<Rightarrow> nat \<Rightarrow> pruneCandidate list io" where
  "evictionCandidates after limit = sql_read (\<lambda>d. map candidate_of (sql_eviction_page after limit d))"

definition candidate_cursor :: "pruneCandidate \<Rightarrow> cursor" where
  "candidate_cursor c = (pc_accessedAt c, pc_size c, pc_id c)"

lemma candidate_cursor_of [simp]: "candidate_cursor (candidate_of r) = row_cursor r"
  by (simp add: candidate_cursor_def candidate_of_def row_cursor_def)

definition compressedSize :: "int io" where
  "compressedSize = wrapE ''calculate compressed size'' q_compressedSize"

text \<open>
  The inner loop of \<open>planToMaxSize\<close>: it takes the candidates not seen before until the need
  is covered. \<open>need\<close> is an \<open>int64\<close>.
\<close>

fun take_candidates ::
    "pruneCandidate list \<Rightarrow> bytes list \<Rightarrow> pruneCandidate list \<Rightarrow> int \<Rightarrow> bytes list \<times> pruneCandidate list \<times> int" where
  "take_candidates [] seen cands need = (seen, cands, need)"
| "take_candidates (c # cs) seen cands need =
     (if pc_outputID c \<in> set seen then take_candidates cs seen cands need
      else
        let need' = i64 (need - pc_size c);
            seen' = pc_outputID c # seen;
            cands' = cands @ [c]
        in if need' \<le> 0 then (seen', cands', need') else take_candidates cs seen' cands' need')"

text \<open>The outer loop. It ends because the cursor moves past every page it has read.\<close>

definition rows_after :: "cursor \<Rightarrow> tables \<Rightarrow> nat" where
  "rows_after c d = length (filter (\<lambda>r. cursor_less c (row_cursor r)) (outputs d))"

lemma page_batch_progress:
  assumes run: "evictionCandidates cursor n w = (Inr batch, w1)" and ne: "batch \<noteq> []"
  shows "rows_after (candidate_cursor (last batch)) (db w1) < rows_after cursor (db w)"
proof -
  let ?p = "sql_eviction_page cursor n (db w)"
  have batch: "batch = map candidate_of ?p" and w1: "db w1 = db w"
    using run by (auto simp: evictionCandidates_def dest!: sql_read_InrD)
  from ne batch have last: "candidate_cursor (last batch) = row_cursor (last ?p)" "last ?p \<in> set ?p"
    by (simp_all add: last_map)
  then have r: "last ?p \<in> set (outputs (db w))" "cursor_less cursor (row_cursor (last ?p))"
    unfolding sql_eviction_page_def by (auto dest!: in_set_takeD)
  show ?thesis
    unfolding rows_after_def last(1) w1
    by (rule length_filter_strict [OF r(1)]) (use r(2) in \<open>auto dest: cursor_less_trans\<close>)
qed

function plan_pages ::
    "cursor \<Rightarrow> bytes list \<Rightarrow> pruneCandidate list \<Rightarrow> int \<Rightarrow> pruneCandidate list io" where
  "plan_pages cursor seen cands need w =
     (if need \<le> 0 then (Inr cands, w)
      else case evictionCandidates cursor evictionSampleSize w of
        (Inl e, w1) \<Rightarrow> (Inl (Wrap ''query eviction candidates'' [e]), w1)
      | (Inr batch, w1) \<Rightarrow>
          if batch = [] then (Inr cands, w1)
          else case take_candidates batch seen cands need of
            (seen', cands', need') \<Rightarrow>
              plan_pages (candidate_cursor (last batch)) seen' cands' need' w1)"
  by pat_completeness auto
termination
  by (relation "measure (\<lambda>(cursor, seen, cands, need, w). rows_after cursor (db w))")
    (auto intro: page_batch_progress [OF sym])

declare plan_pages.simps [simp del]

definition planToMaxSize :: "store \<Rightarrow> int \<Rightarrow> pruneCandidate list io" where
  "planToMaxSize st entryCutoff =
     (if maxSize (cfg st) \<le> 0 then returnE []
      else bindE compressedSize (\<lambda>sz.
        if sz \<le> maxSize (cfg st) then returnE []
        else plan_pages (entryCutoff, -1, -1) [] [] (i64 (sz - maxSize (cfg st)))))"

section \<open>Evicting\<close>

text \<open>
  The loop of \<open>evictToMaxSize\<close>. A candidate whose row is gone or was read since is skipped and
  frees nothing; an evicted one loses its row first and then, under the output's stripe, its blob.
\<close>

fun evict_loop :: "store \<Rightarrow> pruneCandidate list \<Rightarrow> int \<Rightarrow> bytes list \<Rightarrow> bytes list io" where
  "evict_loop st [] sz evicted = returnE evicted"
| "evict_loop st (c # cs) sz evicted =
     (if sz \<le> maxSize (cfg st) then returnE evicted
      else
        bindE (wrapE ''evict output'' (q_evictOutput (pc_outputID c) (pc_accessedAt c))) (\<lambda>removed.
        if \<not> removed then evict_loop st cs sz evicted
        else
          bindE (withOutputLock st (pc_outputID c)
                   (remove_if_present ''remove compressed entry'' (blobPath (blobsDir st) (pc_outputID c)))) (\<lambda>_.
          evict_loop st cs (i64 (sz - pc_size c)) (evicted @ [pc_outputID c]))))"

definition evictToMaxSize :: "store \<Rightarrow> pruneCandidate list \<Rightarrow> bytes list io" where
  "evictToMaxSize st candidates =
     (if candidates = [] then returnE []
      else bindE compressedSize (\<lambda>sz. evict_loop st candidates sz []))"


section \<open>What a plan lists\<close>

definition sizes_ok :: "tables \<Rightarrow> bool" where
  "sizes_ok d \<longleftrightarrow> (\<forall>r\<in>set (outputs d). 0 \<le> out_compressed r \<and> out_compressed r \<le> max_i64)"

definition row_sizes :: "output_row list \<Rightarrow> int" where
  "row_sizes rs = sum_list (map out_compressed rs)"

definition total_compressed :: "tables \<Rightarrow> int" where
  "total_compressed d = row_sizes (outputs d)"

lemma row_sizes_simps [simp]:
  "row_sizes [] = 0" "row_sizes (r # rs) = out_compressed r + row_sizes rs"
  "row_sizes (xs @ ys) = row_sizes xs + row_sizes ys"
  by (simp_all add: row_sizes_def)

text \<open>The outputs at or above an access time, least recently used first.\<close>

definition lru_rows :: "int \<Rightarrow> tables \<Rightarrow> output_row list" where
  "lru_rows cutoff d = filter (\<lambda>r. cutoff \<le> out_accessed r) (sort_rows (outputs d))"

lemma lru_rows_rest:
  "sizes_ok d \<Longrightarrow> eviction_pages.rest (cutoff, -1, -1) d = lru_rows cutoff d"
  unfolding eviction_pages.rest_def lru_rows_def
  by (rule filter_cong) (fastforce simp: cursor_less_def row_cursor_def sizes_ok_def)+

text \<open>The rows that cover a need, in order.\<close>

fun take_need :: "int \<Rightarrow> output_row list \<Rightarrow> output_row list" where
  "take_need need [] = []"
| "take_need need (r # rs) = (if need \<le> 0 then [] else r # take_need (need - out_compressed r) rs)"

lemma take_need_done [simp]: "need \<le> 0 \<Longrightarrow> take_need need rs = []"
  by (cases rs) auto

lemma take_need_append:
  "take_need need (p @ q) = take_need need p @ take_need (need - row_sizes (take_need need p)) q"
  by (induction p arbitrary: need) (auto simp: algebra_simps)

lemma take_need_prefix: "\<exists>n. take_need need rs = take n rs"
proof (induction rs arbitrary: need)
  case (Cons r rs)
  obtain n where "take_need (need - out_compressed r) rs = take n rs" using Cons by blast
  then show ?case
    by (cases "need \<le> 0") (auto intro: exI [of _ 0] exI [of _ "Suc n"])
qed simp

lemma take_need_covers: "need \<le> row_sizes (take_need need rs) \<or> take_need need rs = rs"
  by (induction rs arbitrary: need) (auto, smt (verit))

lemma candidate_of_simps [simp]:
  "pc_outputID (candidate_of r) = hex_encode (out_key r)" "pc_size (candidate_of r) = out_compressed r"
  "pc_accessedAt (candidate_of r) = out_accessed r"
  by (simp_all add: candidate_of_def)

lemma take_candidates_exact:
  assumes "distinct (map out_key p)" "hex_encode ` out_key ` set p \<inter> set seen = {}"
    and "\<forall>r\<in>set p. 0 \<le> out_compressed r \<and> out_compressed r \<le> max_i64"
    and "0 < need" "need \<le> max_i64"
  shows "\<exists>seen'. take_candidates (map candidate_of p) seen cands need =
      (seen', cands @ map candidate_of (take_need need p), need - row_sizes (take_need need p)) \<and>
    set seen' \<subseteq> set seen \<union> hex_encode ` out_key ` set p \<and>
    need - row_sizes (take_need need p) \<le> max_i64"
  using assms
proof (induction p arbitrary: seen cands need)
  case Nil
  then show ?case by simp
next
  case (Cons r rs)
  let ?need = "need - out_compressed r"
  have i: "i64 ?need = ?need"
    using Cons.prems(3-5) by (intro i64_in_range) (auto simp: in_i64_def min_i64_def max_i64_def)
  have fresh: "hex_encode (out_key r) \<notin> set seen" using Cons.prems(2) by auto
  show ?case
  proof (cases "?need \<le> 0")
    case True
    with fresh i Cons.prems(4) show ?thesis
      by (auto simp: max_i64_def)
  next
    case False
    have "hex_encode ` out_key ` set rs \<inter> set (hex_encode (out_key r) # seen) = {}"
      using Cons.prems(1,2) by auto
    moreover have "?need \<le> max_i64" using Cons.prems(3,5) by auto
    ultimately obtain seen' where "take_candidates (map candidate_of rs) (hex_encode (out_key r) # seen) (cands @ [candidate_of r]) ?need =
        (seen', (cands @ [candidate_of r]) @ map candidate_of (take_need ?need rs), ?need - row_sizes (take_need ?need rs))"
      "set seen' \<subseteq> set (hex_encode (out_key r) # seen) \<union> hex_encode ` out_key ` set rs"
      "?need - row_sizes (take_need ?need rs) \<le> max_i64"
      using Cons.IH [of "hex_encode (out_key r) # seen" ?need "cands @ [candidate_of r]"] Cons.prems(1,3) False by auto
    moreover have "take_candidates (map candidate_of (r # rs)) seen cands need =
        take_candidates (map candidate_of rs) (hex_encode (out_key r) # seen) (cands @ [candidate_of r]) ?need"
      using False fresh by (simp add: Let_def i)
    ultimately show ?thesis
      using Cons.prems(4) by (auto simp: diff_diff_eq)
  qed
qed

lemma distinct_sort_rows: "distinct (map f rs) \<Longrightarrow> distinct (map f (sort_rows rs))"
  using distinct_card [of "map f rs"] by (intro card_distinct) simp

lemma plan_pages_exact:
  assumes "plan_pages cursor seen cands need w = (Inr out, w')"
    and "wf_tables (db w)" "sizes_ok (db w)" "need \<le> max_i64"
    and "hex_encode ` out_key ` set (eviction_pages.rest cursor (db w)) \<inter> set seen = {}"
  shows "out = cands @ map candidate_of (take_need need (eviction_pages.rest cursor (db w))) \<and> db w' = db w"
  using assms
proof (induction cursor seen cands need w rule: plan_pages.induct)
  case (1 cursor seen cands need w)
  let ?R = "eviction_pages.rest cursor (db w)"
  show ?case
  proof (cases "need \<le> 0")
    case True
    with "1.prems"(1) show ?thesis by (simp add: plan_pages.simps [of cursor])
  next
    case pos: False
    with "1.prems"(1) obtain batch w1 where b: "evictionCandidates cursor evictionSampleSize w = (Inr batch, w1)"
      by (auto simp: plan_pages.simps [of cursor] split: prod.splits sum.splits)
    let ?p = "sql_eviction_page cursor evictionSampleSize (db w)"
    have batch: "batch = map candidate_of ?p" and d1: "db w1 = db w"
      using b by (auto simp: evictionCandidates_def dest!: sql_read_InrD)
    have p: "?p = take evictionSampleSize ?R" by (rule eviction_pages.page_prefix [OF "1.prems"(2)])
    have distR: "distinct (map out_key ?R)"
      unfolding eviction_pages.rest_def using "1.prems"(2)
      by (intro distinct_map_filterI distinct_sort_rows) (simp add: wf_tables_def)
    show ?thesis
    proof (cases "batch = []")
      case True
      then have "?R = []" using p batch by (simp add: evictionSampleSize_def)
      with True b pos d1 "1.prems"(1) show ?thesis by (auto simp: plan_pages.simps [of cursor])
    next
      case ne: False
      have setp: "set ?p \<subseteq> set ?R" unfolding p by (rule set_take_subset)
      have rows: "set ?R \<subseteq> set (outputs (db w))" by (auto simp: eviction_pages.rest_def)
      have "distinct (map out_key ?p)" unfolding p using distR by (simp add: take_map [symmetric] distinct_take)
      moreover have "hex_encode ` out_key ` set ?p \<inter> set seen = {}" using "1.prems"(5) setp by blast
      moreover have "\<forall>r\<in>set ?p. 0 \<le> out_compressed r \<and> out_compressed r \<le> max_i64"
        using "1.prems"(3) setp rows by (auto simp: sizes_ok_def)
      ultimately obtain seen' where t: "take_candidates batch seen cands need =
          (seen', cands @ map candidate_of (take_need need ?p), need - row_sizes (take_need need ?p))"
        and seen': "set seen' \<subseteq> set seen \<union> hex_encode ` out_key ` set ?p"
        and need': "need - row_sizes (take_need need ?p) \<le> max_i64"
        using take_candidates_exact [of ?p seen need cands] pos "1.prems"(4) batch by auto
      let ?c = "candidate_cursor (last batch)"
      have ne': "?p \<noteq> []" using ne batch by simp
      have rest: "eviction_pages.rest ?c (db w1) = drop evictionSampleSize ?R"
        using eviction_pages.rest_after_page [OF "1.prems"(2) ne'] ne' by (simp add: batch last_map d1)
      have rec: "plan_pages ?c seen' (cands @ map candidate_of (take_need need ?p))
          (need - row_sizes (take_need need ?p)) w1 = (Inr out, w')"
        using "1.prems"(1) b pos ne t by (simp add: plan_pages.simps [of cursor])
      have disj: "hex_encode ` out_key ` set (eviction_pages.rest ?c (db w1)) \<inter> set seen' = {}"
      proof -
        have "distinct (map out_key (take evictionSampleSize ?R @ drop evictionSampleSize ?R))" using distR by simp
        then have "out_key ` set (drop evictionSampleSize ?R) \<inter> out_key ` set ?p = {}"
          unfolding map_append distinct_append p set_map by blast
        then have "hex_encode ` out_key ` set (drop evictionSampleSize ?R) \<inter> hex_encode ` out_key ` set ?p = {}"
          by (subst image_Int [symmetric]) (auto simp: inj_def)
        moreover have "hex_encode ` out_key ` set (drop evictionSampleSize ?R) \<inter> set seen = {}"
          using "1.prems"(5) set_drop_subset [of evictionSampleSize ?R] by blast
        ultimately show ?thesis
          unfolding rest using Int_mono [OF subset_refl seen', of "hex_encode ` out_key ` set (drop evictionSampleSize ?R)"]
          by (simp only: Int_Un_distrib Un_empty_left subset_empty)
      qed
      have "out = (cands @ map candidate_of (take_need need ?p)) @
          map candidate_of (take_need (need - row_sizes (take_need need ?p)) (eviction_pages.rest ?c (db w1))) \<and>
        db w' = db w1"
        by (rule "1.IH" [OF pos b [symmetric] _ ne t [symmetric] _ rec])
          (use "1.prems"(2,3) d1 need' disj in auto)
      then show ?thesis
        using take_need_append [of need ?p "drop evictionSampleSize ?R"] p d1 rest by simp
    qed
  qed
qed

lemma compressedSize_InrD:
  "compressedSize w = (Inr n, w') \<Longrightarrow> n = total_compressed (db w) \<and> in_i64 n \<and> db w' = db w"
  by (auto simp: compressedSize_def wrapE_eq_Inr q_compressedSize_def sql_sum_def total_compressed_def
      row_sizes_def dest!: sql_InrD split: option.splits if_splits)

lemma plan_exact:
  assumes wf: "wf_tables (db w)" and sz: "sizes_ok (db w)" and max: "0 < maxSize (cfg st)"
    and run: "planToMaxSize st cutoff w = (Inr out, w')"
  shows "db w' = db w \<and>
    out = map candidate_of (take_need (total_compressed (db w) - maxSize (cfg st)) (lru_rows cutoff (db w)))"
proof -
  from run max obtain w1 where c: "compressedSize w = (Inr (total_compressed (db w)), w1)"
    and rest: "(if total_compressed (db w) \<le> maxSize (cfg st) then returnE []
        else plan_pages (cutoff, -1, -1) [] [] (i64 (total_compressed (db w) - maxSize (cfg st)))) w1 = (Inr out, w')"
    by (auto simp: planToMaxSize_def bindE_eq_Inr dest: compressedSize_InrD)
  have d1: "db w1 = db w" and r: "in_i64 (total_compressed (db w))"
    using compressedSize_InrD [OF c] by auto
  show ?thesis
  proof (cases "total_compressed (db w) \<le> maxSize (cfg st)")
    case True
    with rest d1 show ?thesis by auto
  next
    case False
    then have i: "i64 (total_compressed (db w) - maxSize (cfg st)) = total_compressed (db w) - maxSize (cfg st)"
      using max r by (intro i64_in_range) (auto simp: in_i64_def min_i64_def)
    have "total_compressed (db w) - maxSize (cfg st) \<le> max_i64" using max r by (auto simp: in_i64_def)
    with False rest i d1 wf sz plan_pages_exact [of "(cutoff, -1, -1)" "[]" "[]" _ w1 out w'] lru_rows_rest [OF sz]
    show ?thesis by simp
  qed
qed


section \<open>What eviction removes\<close>

lemma evictOutput_InrD:
  assumes "q_evictOutput (hex_encode k) at w = (Inr b, w')"
  shows "b \<longleftrightarrow> (\<exists>r\<in>set (outputs (db w)). out_key r = k \<and> out_accessed r \<le> at)"
    and "db w' = (db w)\<lparr>outputs := filter (\<lambda>r. \<not> (out_key r = k \<and> out_accessed r \<le> at)) (outputs (db w))\<rparr>"
  using assms
  by (auto simp: q_evictOutput_def bindE_eq_Inr idKeyE_cases sql_evict_output_def filter_empty_conv
      dest!: sql_InrD)

lemma output_lock_remove_db:
  assumes "withOutputLock st h (remove_if_present msg p) w = (r, w')"
  shows "db w' = db w"
proof -
  have "keeps (\<lambda>v. db v = db w) (withOutputLock st h (remove_if_present msg p))"
    by (intro keeps_db_locks(3) keeps_db_files(3))
  from keeps_dbD [OF this assms] show ?thesis by simp
qed

text \<open>
  Evicting a list of rows that are all in the catalog takes them in order and stops at the
  first point where the budget is met.
\<close>

lemma filter_neq_id: "r \<notin> set xs \<Longrightarrow> filter (\<lambda>x. x \<noteq> r) xs = xs"
  by (auto simp: filter_id_conv)

lemma evict_loop_exact:
  assumes "evict_loop st (map candidate_of rs) sz ev w = (Inr ev', w')"
    and "distinct (map out_key (outputs (db w)))" "set rs \<subseteq> set (outputs (db w))" "distinct rs"
    and "sz = total_compressed (db w)" "in_i64 sz" "sizes_ok (db w)"
  shows "\<exists>n\<le>length rs. ev' = ev @ map (hex_encode \<circ> out_key) (take n rs) \<and>
    db w' = (db w)\<lparr>outputs := filter (\<lambda>r. r \<notin> set (take n rs)) (outputs (db w))\<rparr> \<and>
    (n = length rs \<or> total_compressed (db w') \<le> maxSize (cfg st)) \<and>
    (\<forall>m<n. maxSize (cfg st) < sz - row_sizes (take m rs)) \<and>
    total_compressed (db w') = sz - row_sizes (take n rs)"
  using assms
proof (induction rs arbitrary: sz ev w)
  case Nil
  then show ?case by simp
next
  case (Cons r rs)
  show ?case
  proof (cases "sz \<le> maxSize (cfg st)")
    case True
    with Cons.prems show ?thesis by (intro exI [of _ 0]) simp
  next
    case over: False
    have r: "r \<in> set (outputs (db w))" using Cons.prems(3) by simp
    from over Cons.prems(1) obtain b w1 where e: "q_evictOutput (hex_encode (out_key r)) (out_accessed r) w = (Inr b, w1)"
      by (auto simp: bindE_eq_Inr wrapE_eq_Inr)
    have b: b using evictOutput_InrD(1) [OF e] r by auto
    with over Cons.prems(1) e obtain w2 where
      l: "withOutputLock st (hex_encode (out_key r)) (remove_if_present ''remove compressed entry''
            (blobPath (blobsDir st) (hex_encode (out_key r)))) w1 = (Inr (), w2)"
      and rec: "evict_loop st (map candidate_of rs) (i64 (sz - out_compressed r)) (ev @ [hex_encode (out_key r)]) w2 = (Inr ev', w')"
      by (auto simp: bindE_eq_Inr wrapE_eq_Inr)
    have "filter (\<lambda>x. \<not> (out_key x = out_key r \<and> out_accessed x \<le> out_accessed r)) (outputs (db w)) =
        filter (\<lambda>x. x \<noteq> r) (outputs (db w))"
      using distinct_map_filter_eq [OF Cons.prems(2) _ r] by (intro filter_cong) auto
    then have d2: "db w2 = (db w)\<lparr>outputs := filter (\<lambda>x. x \<noteq> r) (outputs (db w))\<rparr>"
      using evictOutput_InrD(2) [OF e] output_lock_remove_db [OF l] by simp
    have dist: "distinct (outputs (db w))" using Cons.prems(2) by (simp add: distinct_map)
    have removed: "row_sizes (filter (\<lambda>x. x \<noteq> r) xs) = row_sizes xs - out_compressed r"
      if "distinct xs" "r \<in> set xs" for xs
      using that
    proof (induction xs)
      case (Cons x xs)
      then show ?case
        by (cases "x = r") (auto simp: filter_neq_id)
    qed simp
    have total2: "total_compressed (db w2) = sz - out_compressed r"
      using removed [OF dist r] Cons.prems(5) by (simp add: d2 total_compressed_def)
    have "0 \<le> row_sizes (outputs (db w2))"
      unfolding row_sizes_def using Cons.prems(7) by (intro sum_list_nonneg) (auto simp: d2 sizes_ok_def)
    then have in64: "in_i64 (sz - out_compressed r)"
      using total2 Cons.prems(6,7) r by (auto simp: total_compressed_def in_i64_def sizes_ok_def min_i64_def)
    have IH: "\<exists>n\<le>length rs. ev' = (ev @ [hex_encode (out_key r)]) @ map (hex_encode \<circ> out_key) (take n rs) \<and>
      db w' = (db w2)\<lparr>outputs := filter (\<lambda>r. r \<notin> set (take n rs)) (outputs (db w2))\<rparr> \<and>
      (n = length rs \<or> total_compressed (db w') \<le> maxSize (cfg st)) \<and>
      (\<forall>m<n. maxSize (cfg st) < (sz - out_compressed r) - row_sizes (take m rs)) \<and>
      total_compressed (db w') = (sz - out_compressed r) - row_sizes (take n rs)"
    proof (rule Cons.IH)
      show "evict_loop st (map candidate_of rs) (sz - out_compressed r) (ev @ [hex_encode (out_key r)]) w2 = (Inr ev', w')"
        using rec in64 by simp
      show "distinct (map out_key (outputs (db w2)))" using distinct_map_filterI [OF Cons.prems(2)] by (simp add: d2)
      show "set rs \<subseteq> set (outputs (db w2))" "distinct rs" using Cons.prems(3,4) by (auto simp: d2)
      show "sizes_ok (db w2)" using Cons.prems(7) by (simp add: d2 sizes_ok_def)
    qed (use total2 in64 in auto)
    then obtain n where n: "n \<le> length rs"
      "ev' = (ev @ [hex_encode (out_key r)]) @ map (hex_encode \<circ> out_key) (take n rs)"
      "db w' = (db w2)\<lparr>outputs := filter (\<lambda>r. r \<notin> set (take n rs)) (outputs (db w2))\<rparr>"
      "n = length rs \<or> total_compressed (db w') \<le> maxSize (cfg st)"
      "\<And>m. m < n \<Longrightarrow> maxSize (cfg st) < (sz - out_compressed r) - row_sizes (take m rs)"
      "total_compressed (db w') = (sz - out_compressed r) - row_sizes (take n rs)" by blast
    have "maxSize (cfg st) < sz - row_sizes (take m (r # rs))" if "m < Suc n" for m
      using that n(5) over by (cases m) (auto simp: diff_diff_eq)
    moreover have "db w' = (db w)\<lparr>outputs := filter (\<lambda>x. x \<notin> set (take (Suc n) (r # rs))) (outputs (db w))\<rparr>"
      using n(3) by (simp add: d2 conj_commute)
    ultimately show ?thesis
      using n by (intro exI [of _ "Suc n"]) (simp add: diff_diff_eq)
  qed
qed

text \<open>The loop over the planned candidates stops at a prefix of the rows in eviction order.\<close>

lemma evict_planned:
  assumes wf: "wf_tables d" and sz: "sizes_ok d" and r: "in_i64 (total_compressed d)" and d2: "db w2 = d"
    and k: "take_need (total_compressed d - maxSize (cfg st)) (lru_rows cutoff d) = take k (lru_rows cutoff d)"
    and l: "evict_loop st (map candidate_of (take k (lru_rows cutoff d))) (total_compressed d) [] w2 = (Inr evicted, w')"
  shows "\<exists>n\<le>length (lru_rows cutoff d). let L = lru_rows cutoff d in
    evicted = map (hex_encode \<circ> out_key) (take n L) \<and>
    db w' = d\<lparr>outputs := filter (\<lambda>r. r \<notin> set (take n L)) (outputs d)\<rparr> \<and>
    (total_compressed (db w') \<le> maxSize (cfg st) \<or> n = length L) \<and>
    (\<forall>m<n. maxSize (cfg st) < total_compressed d - row_sizes (take m L))"
proof -
  let ?L = "lru_rows cutoff d" and ?need = "total_compressed d - maxSize (cfg st)"
  have dk: "distinct (map out_key (outputs d))" and di: "distinct (map out_id (outputs d))"
    using wf by (auto simp: wf_tables_def)
  have "distinct ?L" unfolding lru_rows_def
    using distinct_sort_rows [OF dk] by (simp add: distinct_map distinct_filter)
  moreover have "set (take k ?L) \<subseteq> set (outputs d)"
    using set_take_subset [of k ?L] by (auto simp: lru_rows_def)
  ultimately have "\<exists>n\<le>length (take k ?L). evicted = [] @ map (hex_encode \<circ> out_key) (take n (take k ?L)) \<and>
    db w' = (db w2)\<lparr>outputs := filter (\<lambda>r. r \<notin> set (take n (take k ?L))) (outputs (db w2))\<rparr> \<and>
    (n = length (take k ?L) \<or> total_compressed (db w') \<le> maxSize (cfg st)) \<and>
    (\<forall>m<n. maxSize (cfg st) < total_compressed d - row_sizes (take m (take k ?L))) \<and>
    total_compressed (db w') = total_compressed d - row_sizes (take n (take k ?L))"
    by (intro evict_loop_exact [OF l]) (use d2 dk sz r in simp_all)
  then obtain n where n: "n \<le> length (take k ?L)"
    "evicted = [] @ map (hex_encode \<circ> out_key) (take n (take k ?L))"
    "db w' = (db w2)\<lparr>outputs := filter (\<lambda>r. r \<notin> set (take n (take k ?L))) (outputs (db w2))\<rparr>"
    "n = length (take k ?L) \<or> total_compressed (db w') \<le> maxSize (cfg st)"
    "\<forall>m<n. maxSize (cfg st) < total_compressed d - row_sizes (take m (take k ?L))"
    "total_compressed (db w') = total_compressed d - row_sizes (take n (take k ?L))"
    by blast
  have tk: "take m (take k ?L) = take m ?L" if "m \<le> n" for m
  proof -
    have "m \<le> k" using that n(1) by simp
    then show ?thesis by (simp add: min_absorb1)
  qed
  have "total_compressed (db w') \<le> maxSize (cfg st) \<or> n = length ?L"
    using n(4)
  proof
    assume all: "n = length (take k ?L)"
    from take_need_covers [of ?need ?L] show ?thesis
    proof
      assume "?need \<le> row_sizes (take_need ?need ?L)"
      moreover have "take n (take k ?L) = take k ?L"
        using all take_all [of "take k ?L" n] by (simp del: length_take take_take)
      ultimately show ?thesis using n(6) k by simp
    next
      assume "take_need ?need ?L = ?L"
      then have "length (take k ?L) = length ?L" by (simp only: k)
      with all show ?thesis by simp
    qed
  qed simp
  with n tk d2 show ?thesis
    by (intro exI [of _ n]) (simp add: Let_def)
qed

text \<open>
  C9. Planning and evicting with nothing in between takes exactly the least recently used
  outputs: the shortest prefix of the outputs at or above the age cutoff, by access time, then
  size, then id, whose removal brings the total compressed size within the budget (or all of
  them), and nothing else in the catalog changes.
\<close>

theorem evict_to_budget:
  assumes inv: "cat_inv (db w)" and sz: "sizes_ok (db w)" and max: "0 < maxSize (cfg st)"
    and run: "bindE (planToMaxSize st cutoff) (evictToMaxSize st) w = (Inr evicted, w')"
  shows "\<exists>n\<le>length (lru_rows cutoff (db w)).
    let L = lru_rows cutoff (db w) in
    evicted = map (hex_encode \<circ> out_key) (take n L) \<and>
    db w' = (db w)\<lparr>outputs := filter (\<lambda>r. r \<notin> set (take n L)) (outputs (db w))\<rparr> \<and>
    (total_compressed (db w') \<le> maxSize (cfg st) \<or> n = length L) \<and>
    (\<forall>m<n. maxSize (cfg st) < total_compressed (db w) - row_sizes (take m L))"
proof -
  let ?L = "lru_rows cutoff (db w)" and ?need = "total_compressed (db w) - maxSize (cfg st)"
  have wf: "wf_tables (db w)" using inv by (simp add: cat_inv_def)
  from run obtain cands w1 where p: "planToMaxSize st cutoff w = (Inr cands, w1)"
    and e: "evictToMaxSize st cands w1 = (Inr evicted, w')" by (auto simp: bindE_eq_Inr)
  have d1: "db w1 = db w" and cands: "cands = map candidate_of (take_need ?need ?L)"
    using plan_exact [OF wf sz max p] by auto
  obtain k where k: "take_need ?need ?L = take k ?L" using take_need_prefix by blast
  show ?thesis
  proof (cases "cands = []")
    case True
    then have none: "take_need ?need ?L = []" using cands by simp
    from True e have "evicted = []" "w' = w1" by (auto simp: evictToMaxSize_def)
    moreover have "total_compressed (db w) \<le> maxSize (cfg st) \<or> 0 = length ?L"
      using none by (cases ?L) (auto split: if_splits)
    ultimately show ?thesis using d1 by (intro exI [of _ 0]) (simp add: Let_def)
  next
    case False
    with e obtain t w2 where c: "compressedSize w1 = (Inr t, w2)" and l0: "evict_loop st cands t [] w2 = (Inr evicted, w')"
      by (auto simp: evictToMaxSize_def bindE_eq_Inr)
    have l: "evict_loop st (map candidate_of (take k ?L)) (total_compressed (db w)) [] w2 = (Inr evicted, w')"
      using l0 compressedSize_InrD [OF c] d1 cands k by simp
    have d2: "db w2 = db w" and r: "in_i64 (total_compressed (db w))"
      using compressedSize_InrD [OF c] d1 by auto
    show ?thesis by (rule evict_planned [OF wf sz r d2 k l])
  qed
qed

definition sample_store :: store where
  "sample_store = \<lparr>cfg = \<lparr>dir = [''c''], maxSize = 4, maxAge = 0, maxRetainedAge = 0, verbose = False, types = False, cpuProfile = [], memProfile = []\<rparr>,
     versionDir = [''v''], blobsDir = [''v'', ''blobs''], liveRoot = [''v'', ''live''],
     lifecycleLockPath = [''v'', ''l''], runID = ''run-1'', runDir = [''v'', ''live'', ''run-1'']\<rparr>"


lemma sample_store_simps [simp]:
  "maxSize (cfg sample_store) = 4" "maxAge (cfg sample_store) = 0" "versionDir sample_store = [''v'']"
  "blobsDir sample_store = [''v'', ''blobs'']" "runDir sample_store = [''v'', ''live'', ''run-1'']"
  "lifecycleLockPath sample_store = [''v'', ''l'']" "liveRoot sample_store = [''v'', ''live'']"
  by (simp_all add: sample_store_def)

lemma i64_small: "\<bar>x\<bar> < 1000000 \<Longrightarrow> i64 x = x"
  by (rule i64_in_range) (auto simp: in_i64_def min_i64_def max_i64_def)

lemma sample_total:
  "compressedSize sample_world = (Inr 8, sample_world\<lparr>ticks := 1\<rparr>)"
  by (simp add: compressedSize_def q_compressedSize_def wrapE_def sql_def effect_def Let_def sql_sum_def
      sample_tables_def sample_row_def in_i64_def min_i64_def max_i64_def sample_world_def)

lemma sample_page:
  "sql_eviction_page (0, -1, -1) evictionSampleSize sample_tables = [sample_row 1 ''o'' 5, sample_row 2 ''p'' 50]"
  by (simp add: sql_eviction_page_def sample_tables_def sort_rows_def row_cursor_def cursor_less_def
      evictionSampleSize_def sample_row_def)

lemma sample_plan:
  "planToMaxSize sample_store 0 sample_world =
    (Inr [candidate_of (sample_row 1 ''o'' 5)], sample_world\<lparr>ticks := 2\<rparr>)"
  by (simp add: planToMaxSize_def bindE_def sample_total plan_pages.simps
      evictionCandidates_def sql_read_def sql_def effect_def Let_def sample_page sample_row_def i64_small)

lemma sample_total2:
  "compressedSize (sample_world\<lparr>ticks := 2\<rparr>) = (Inr 8, sample_world\<lparr>ticks := 3\<rparr>)"
  by (simp add: compressedSize_def q_compressedSize_def wrapE_def sql_def effect_def Let_def sql_sum_def
      sample_tables_def sample_row_def in_i64_def min_i64_def max_i64_def sample_world_def)

lemma sample_evict:
  "\<exists>w'. bindE (planToMaxSize sample_store 0) (evictToMaxSize sample_store) sample_world = (Inr [hex_encode ''o''], w')"
  by (simp add: sample_plan bindE_def evictToMaxSize_def sample_total2 wrapE_def q_evictOutput_def idKeyE_def
      sql_def effect_def Let_def sql_evict_output_def sample_row_def sample_tables_def
      withOutputLock_def calm_mem_def sys_def tryE_def os_mkdir_all_def stripesDir_def node_at_def set_node_def
      withFileLock_def recoverE_def flock_lock_def lock_file_def is_dir_def new_file_def runUnlocking_def
      remove_if_present_def os_remove_def blobPath_def blobDir_def
      flock_unlock_def flock_close_def err_of_def join_err_def modify_mem_def)
lemma evict_to_budget_witness:
  "\<exists>w'. bindE (planToMaxSize sample_store 0) (evictToMaxSize sample_store) sample_world = (Inr [hex_encode ''o''], w') \<and>
    (total_compressed (db w') \<le> 4 \<or> 2 \<le> length [hex_encode ''o''])"
proof -
  obtain w' where run: "bindE (planToMaxSize sample_store 0) (evictToMaxSize sample_store) sample_world = (Inr [hex_encode ''o''], w')"
    using sample_evict by blast
  have inv: "cat_inv (db sample_world)" by simp
  have sz: "sizes_ok (db sample_world)" by (simp add: sizes_ok_def sample_tables_def sample_row_def max_i64_def)
  have max: "0 < maxSize (cfg sample_store)" by simp
  from evict_to_budget [OF inv sz max run] obtain n where
    n: "[hex_encode ''o''] = map (hex_encode \<circ> out_key) (take n (lru_rows 0 (db sample_world)))"
    "total_compressed (db w') \<le> maxSize (cfg sample_store) \<or> n = length (lru_rows 0 (db sample_world))"
    unfolding Let_def by (elim exE conjE) (rule that)
  have "length (lru_rows 0 sample_tables) = 2"
    by (simp add: lru_rows_def sample_tables_def sort_rows_def row_cursor_def cursor_less_def sample_row_def)
  then have "n \<noteq> length (lru_rows 0 sample_tables)"
    using arg_cong [OF n(1), of length] by auto
  with run n(2) show ?thesis by auto
qed

text \<open>The rows a list of candidates may cost.\<close>

definition still_coldest :: "pruneCandidate list \<Rightarrow> output_row \<Rightarrow> bool" where
  "still_coldest cs r \<longleftrightarrow>
     list_ex (\<lambda>c. idKey (pc_outputID c) = Some (out_key r) \<and> out_accessed r \<le> pc_accessedAt c) cs"

definition spared :: "pruneCandidate list \<Rightarrow> tables \<Rightarrow> tables" where
  "spared cs d = d\<lparr>outputs := filter (\<lambda>r. \<not> still_coldest cs r) (outputs d)\<rparr>"

lemma spared_evict:
  assumes "c \<in> set cs" "idKey (pc_outputID c) = Some k"
  shows "spared cs (snd (sql_evict_output k (pc_accessedAt c) d)) = spared cs d"
proof -
  have "filter (\<lambda>r. \<not> still_coldest cs r) (filter (\<lambda>r. \<not> (out_key r = k \<and> out_accessed r \<le> pc_accessedAt c)) (outputs d)) =
      filter (\<lambda>r. \<not> still_coldest cs r) (outputs d)"
    unfolding filter_filter
    by (rule filter_cong) (use assms in \<open>auto simp: still_coldest_def list_ex_iff\<close>)
  then show ?thesis by (simp add: spared_def sql_evict_output_def)
qed

lemma bindE_returnE: "bindE (returnE x) f = f x"
  by (rule ext) (simp add: bindE_def)

lemma keeps_evictOutput:
  assumes "\<And>k d. idKey h = Some k \<Longrightarrow> J d \<Longrightarrow> J (snd (sql_evict_output k t d))"
  shows "keeps (\<lambda>w. J (db w)) (q_evictOutput h t)"
proof (cases "idKey h")
  case None
  then show ?thesis by (simp add: q_evictOutput_def idKeyE_def keeps_def bindE_def)
next
  case (Some k)
  have "keeps (\<lambda>w. J (db w)) (sql (\<lambda>d. case sql_evict_output k t d of (n, d') \<Rightarrow> (Inr n :: err + nat, d')))"
    by (rule keeps_db_sql) (metis (mono_tags, lifting) assms Some case_prod_beta snd_conv)
  moreover have "idKeyE h = returnE k" by (simp add: idKeyE_def Some)
  ultimately show ?thesis
    unfolding q_evictOutput_def by (simp only: bindE_returnE) (intro keeps_intros)
qed

lemma keeps_evict_loop:
  assumes ev: "\<And>c k d. c \<in> set cs \<Longrightarrow> idKey (pc_outputID c) = Some k \<Longrightarrow> J d \<Longrightarrow>
      J (snd (sql_evict_output k (pc_accessedAt c) d))"
  shows "keeps (\<lambda>w. J (db w)) (evict_loop st cs sz evicted)"
  using ev
proof (induction cs arbitrary: sz evicted)
  case Nil
  show ?case by (simp only: evict_loop.simps keeps_pure)
next
  case (Cons c cs)
  have IH: "keeps (\<lambda>w. J (db w)) (evict_loop st cs sz evicted)" for sz evicted
    by (rule Cons.IH) (use Cons.prems in auto)
  have "keeps (\<lambda>w. J (db w)) (q_evictOutput (pc_outputID c) (pc_accessedAt c))"
    by (rule keeps_evictOutput) (use Cons.prems in auto)
  with IH show ?case
    unfolding evict_loop.simps
    by (intro keeps_bindE keeps_wrapE keeps_if keeps_db_locks keeps_db_files keeps_pure)
qed

lemma keeps_db_compressedSize [keeps_intros]: "keeps (\<lambda>w. J (db w)) q_compressedSize"
  unfolding q_compressedSize_def by (intro keeps_intros keeps_db_sql) (simp split: option.splits)

lemma keeps_evictToMaxSize:
  assumes "\<And>c k d. c \<in> set cs \<Longrightarrow> idKey (pc_outputID c) = Some k \<Longrightarrow> J d \<Longrightarrow>
      J (snd (sql_evict_output k (pc_accessedAt c) d))"
  shows "keeps (\<lambda>w. J (db w)) (evictToMaxSize st cs)"
  unfolding evictToMaxSize_def compressedSize_def by (intro keeps_intros keeps_evict_loop assms)

lemma keeps_eviction [keeps_intros]:
  "shrink_stable J \<Longrightarrow> keeps (\<lambda>w. J (db w)) (evictToMaxSize st cs)"
  by (rule keeps_evictToMaxSize) (blast intro: shrink_stableD shrinks_sql)

end
