(* ===== verification/Orphans.thy ===== *)
theory Orphans
  imports Eviction File_Rules
begin

text \<open>
  Collecting files nothing references (\<open>planOrphans\<close>, \<open>removeOrphans\<close>,
  \<open>removeStalePendingBlobs\<close>, \<open>removeEmptyDirs\<close> in \<open>cache.go\<close>). Files are listed per shard
  against the catalog, and each is checked again, with the shard re-queried, before it goes.
  What eviction and collection spare of the files is shown here.
  \<open>filepath.Glob\<close> is modelled for a cache directory whose name holds no pattern character.
\<close>

section \<open>Names\<close>

text \<open>\<open>filepath.Ext\<close> and the pattern \<open>*-pending-*.zst\<close> on a base name.\<close>

definition file_ext :: "bytes \<Rightarrow> bytes" where
  "file_ext name =
     (if CHR ''.'' \<in> set name then CHR ''.'' # rev (takeWhile (\<lambda>c. c \<noteq> CHR ''.'') (rev name)) else [])"

definition file_stem :: "bytes \<Rightarrow> bytes" where
  "file_stem name = trim_suffix name (file_ext name)"

definition pendingName :: "bytes \<Rightarrow> bool" where
  "pendingName name \<longleftrightarrow>
     has_suffix name ''.zst'' \<and> contains_bytes (take (length name - 4) name) ''-pending-''"

section \<open>Listing\<close>

definition referencedInShard :: "nat \<Rightarrow> int \<Rightarrow> bytes list io" where
  "referencedInShard shard minAccessedAt =
     wrapE ''query referenced outputs in shard'' (q_referencedOutputIDs shard minAccessedAt)"

text \<open>
  \<open>filepath.WalkDir\<close> over a root that may not exist: a missing root is an empty walk, any other
  failure is returned.
\<close>

definition walk_existing :: "path \<Rightarrow> (path \<times> node) list io" where
  "walk_existing root = recoverE (walk_dir root) (\<lambda>e.
     if errors_is ErrNotExist e then returnE [] else failE e)"

definition is_orphan :: "bytes list \<Rightarrow> bytes list \<Rightarrow> path \<times> node \<Rightarrow> bool" where
  "is_orphan referenced extensions = (\<lambda>(p, n).
     n \<noteq> DirN \<and>
     (let base = last p; ext = file_ext base
      in ext \<in> set extensions \<and> \<not> pendingName base \<and> trim_suffix base ext \<notin> set referenced))"

definition orphanFilesInDir :: "path \<Rightarrow> bytes list \<Rightarrow> bytes list \<Rightarrow> path list io" where
  "orphanFilesInDir root referenced extensions =
     bindE (walk_existing root) (\<lambda>visited.
     returnE (map fst (filter (is_orphan referenced extensions) visited)))"

fun plan_shards :: "store \<Rightarrow> bool \<Rightarrow> int \<Rightarrow> nat list \<Rightarrow> (nat \<times> path list) list io" where
  "plan_shards st includeBlobs entryCutoff [] = returnE []"
| "plan_shards st includeBlobs entryCutoff (shard # shards) =
     bindE (referencedInShard shard entryCutoff) (\<lambda>referenced.
     bindE (if includeBlobs
            then wrapE ''scan blobs in shard''
                   (orphanFilesInDir (blobsDir st @ [shardPrefix shard]) referenced [''.zst''])
            else returnE []) (\<lambda>blobs.
     bindE (wrapE ''scan retained files in shard''
              (orphanFilesInDir (retainedRoot (versionDir st) @ [shardPrefix shard]) referenced [''.a'', ''.go''])) (\<lambda>retained.
     bindE (plan_shards st includeBlobs entryCutoff shards) (\<lambda>orphans.
     let found = blobs @ retained
     in returnE (if found = [] then orphans else (shard, found) # orphans)))))"

definition planOrphans :: "store \<Rightarrow> bool \<Rightarrow> int \<Rightarrow> (nat \<times> path list) list io" where
  "planOrphans st includeBlobs entryCutoff = plan_shards st includeBlobs entryCutoff [0..<256]"

section \<open>Removing\<close>

fun removeShardOrphans :: "path list \<Rightarrow> bytes list \<Rightarrow> int \<Rightarrow> unit io" where
  "removeShardOrphans [] referenced modifiedBefore = returnE ()"
| "removeShardOrphans (p # ps) referenced modifiedBefore =
     (if file_stem (last p) \<in> set referenced then removeShardOrphans ps referenced modifiedBefore
      else
        bindE (tryE (os_stat p)) (\<lambda>info.
        if (case info of Inl _ \<Rightarrow> False | Inr i \<Rightarrow> \<not> fi_mtime i < modifiedBefore)
        then removeShardOrphans ps referenced modifiedBefore
        else
          bindE (remove_if_present ''remove orphan file'' p) (\<lambda>_.
          removeShardOrphans ps referenced modifiedBefore)))"

text \<open>The plan is a map from shards, walked in the order of its sorted keys.\<close>

definition removeOrphans :: "store \<Rightarrow> (nat \<times> path list) list \<Rightarrow> int \<Rightarrow> unit io" where
  "removeOrphans st orphans modifiedBefore =
     (if orphans = [] then returnE ()
      else forE (sort (remdups (map fst orphans))) (\<lambda>shard.
        bindE (referencedInShard shard keepEveryOutput) (\<lambda>referenced.
        withOutputLock st (shardPrefix shard)
          (removeShardOrphans (the_default [] (map_of orphans shard)) referenced modifiedBefore))))"

text \<open>
  \<open>strconv.ParseInt(s, 16, 32)\<close> of the first two characters; \<open>None\<close> is an error. The
  identifiers offered are hex, so the shard is never negative.
\<close>

definition parse_shard :: "bytes \<Rightarrow> int option" where
  "parse_shard s =
     (case s of
        [] \<Rightarrow> None
      | c # cs \<Rightarrow>
          map_option (\<lambda>n. if c = CHR ''-'' then - int n else int n)
            (parse_uint16 (if c = CHR ''+'' \<or> c = CHR ''-'' then cs else s)))"

definition add_path :: "nat \<Rightarrow> path \<Rightarrow> (nat \<times> path list) list \<Rightarrow> (nat \<times> path list) list" where
  "add_path shard p orphans = AList.update shard (the_default [] (map_of orphans shard) @ [p]) orphans"

definition addRetainedCandidates :: "store \<Rightarrow> (nat \<times> path list) list \<Rightarrow> bytes list \<Rightarrow> (nat \<times> path list) list" where
  "addRetainedCandidates st orphans outputIDs =
     fold (\<lambda>outputID acc.
        case parse_shard (take 2 outputID) of
          None \<Rightarrow> acc
        | Some shard \<Rightarrow>
            add_path (nat shard) (retainedPath st outputID ''.go'')
              (add_path (nat shard) (retainedPath st outputID ''.a'') acc))
       outputIDs orphans"

section \<open>Pending blobs and empty directories\<close>

definition glob_pending :: "path \<Rightarrow> path list io" where
  "glob_pending blobs = getE (\<lambda>w.
     filter (\<lambda>p. length p = length blobs + 2 \<and> pendingName (last p) \<and> is_dir w (butlast p)) (subtree w blobs))"

fun remove_stale :: "int \<Rightarrow> path list \<Rightarrow> err option \<Rightarrow> err option io" where
  "remove_stale cutoff [] errs = returnE errs"
| "remove_stale cutoff (p # ps) errs =
     bindE (tryE (os_stat p)) (\<lambda>r.
     case r of
       Inl e \<Rightarrow>
         remove_stale cutoff ps (if errors_is ErrNotExist e then errs else join_err errs (Some e))
     | Inr info \<Rightarrow>
         if \<not> fi_mtime info < cutoff then remove_stale cutoff ps errs
         else
           bindE (tryE (os_remove p)) (\<lambda>d.
           remove_stale cutoff ps
             (case d of
                Inl e \<Rightarrow> if errors_is ErrNotExist e then errs else join_err errs (Some e)
              | Inr _ \<Rightarrow> errs)))"

definition removeStalePendingBlobs :: "store \<Rightarrow> int \<Rightarrow> unit io" where
  "removeStalePendingBlobs st now =
     bindE (glob_pending (blobsDir st)) (\<lambda>matches.
     bindE (remove_stale (now - mtimeInterval) matches None) returnErr)"

definition removeEmptyDirs :: "path \<Rightarrow> unit io" where
  "removeEmptyDirs root =
     bindE (walk_existing root) (\<lambda>visited.
     let dirs = map fst (filter (\<lambda>(p, n). n = DirN \<and> p \<noteq> root) visited)
     in forE (rev dirs) (\<lambda>d. recoverE (os_remove d) (\<lambda>e.
          if errors_is ErrNotExist e then returnE () else ignoreE (os_read_dir d))))"

section \<open>Shards partition the inventory\<close>

lemma referenced_InrD:
  assumes "q_referencedOutputIDs shard minAt w = (Inr ids, w')"
  shows "db w' = db w" and "ids = map hex_encode (if shard = lastOutputShard
      then sql_shard_outputs_tail [byte_of_int shard] minAt (db w)
      else sql_shard_outputs [byte_of_int shard] [byte_of_int (shard + 1)] minAt (db w))"
  using assms by (auto simp: q_referencedOutputIDs_def bindE_eq_Inr dest!: sql_read_InrD)

lemma shard_lower: "[b] \<le> k \<longleftrightarrow> k \<noteq> [] \<and> b \<le> hd k" for k :: bytes
proof (cases k)
  case (Cons c cs)
  then show ?thesis by (cases cs) (auto simp: le_less)
qed simp

lemma shard_upper: "k < [b] \<longleftrightarrow> k = [] \<or> hd k < b" for k :: bytes
  by (cases k) auto

lemma byte_successor:
  assumes "shard < 255"
  shows "byte_of_int shard \<le> b \<and> b < byte_of_int (shard + 1) \<longleftrightarrow> byte_val b = shard"
  using assms by (auto simp: byte_of_int_def byte_le_iff byte_less_iff)

lemma byte_last: "byte_of_int 255 \<le> b \<longleftrightarrow> byte_val b = 255"
  using byte_val_less [of b] by (auto simp: byte_of_int_def byte_le_iff simp del: byte_val_less)

lemma referenced_exact:
  assumes shard: "shard < 256"
    and run: "q_referencedOutputIDs shard minAt w = (Inr ids, w')"
  shows "ids = map (hex_encode \<circ> out_key)
    (filter (\<lambda>r. out_key r \<noteq> [] \<and> byte_val (hd (out_key r)) = shard \<and> minAt \<le> out_accessed r) (outputs (db w)))"
proof (cases "shard = lastOutputShard")
  case True
  then have "filter (\<lambda>r. [byte_of_int shard] \<le> out_key r \<and> minAt \<le> out_accessed r) (outputs (db w)) =
      filter (\<lambda>r. out_key r \<noteq> [] \<and> byte_val (hd (out_key r)) = shard \<and> minAt \<le> out_accessed r) (outputs (db w))"
    by (intro filter_cong) (auto simp: shard_lower lastOutputShard_def byte_last)
  moreover have "ids = map hex_encode (sql_shard_outputs_tail [byte_of_int shard] minAt (db w))"
    using referenced_InrD(2) [OF run] True by simp
  ultimately show ?thesis by (simp only: sql_shard_outputs_tail_def map_map)
next
  case False
  with shard have "shard < 255" by (simp add: lastOutputShard_def)
  from byte_successor [OF this]
  have "filter (\<lambda>r. [byte_of_int shard] \<le> out_key r \<and> out_key r < [byte_of_int (shard + 1)] \<and> minAt \<le> out_accessed r) (outputs (db w)) =
      filter (\<lambda>r. out_key r \<noteq> [] \<and> byte_val (hd (out_key r)) = shard \<and> minAt \<le> out_accessed r) (outputs (db w))"
    unfolding shard_lower shard_upper by (intro filter_cong) auto
  moreover have "ids = map hex_encode (sql_shard_outputs [byte_of_int shard] [byte_of_int (shard + 1)] minAt (db w))"
    using referenced_InrD(2) [OF run] False by simp
  ultimately show ?thesis by (simp only: sql_shard_outputs_def map_map)
qed

text \<open>
  C13. A shard query returns exactly the outputs whose identifier starts with the shard's byte
  and that were accessed late enough, for every one of the 256 shards, the last one included,
  whose upper bound would wrap to zero.
\<close>

theorem shard_query_exact:
  assumes shard: "shard < 256"
    and run: "q_referencedOutputIDs shard minAt w = (Inr ids, w')"
  shows "ids = map (hex_encode \<circ> out_key)
    (filter (\<lambda>r. out_key r \<noteq> [] \<and> byte_val (hd (out_key r)) = shard \<and> minAt \<le> out_accessed r) (outputs (db w)))"
  by (rule referenced_exact [OF assms])

lemma shard_query_exact_witness:
  "\<exists>w'. q_referencedOutputIDs 111 0 sample_world = (Inr [hex_encode ''o''], w')"
proof -
  obtain ids w' where run: "q_referencedOutputIDs 111 0 sample_world = (Inr ids, w')"
    by (simp add: q_referencedOutputIDs_def bindE_def sql_read_def sql_def effect_def Let_def)
  have "ids = [hex_encode ''o'']"
    using shard_query_exact [OF _ run]
    by (simp add: sample_tables_def sample_row_def byte_val_def)
  with run show ?thesis by blast
qed


section \<open>What collection spares\<close>

text \<open>
  The state a collection is judged by: the catalog's tables and one file.
\<close>

definition holds_file :: "tables \<Rightarrow> path \<Rightarrow> nat \<Rightarrow> inode \<Rightarrow> world \<Rightarrow> bool" where
  "holds_file d p i ino w \<longleftrightarrow> db w = d \<and> file_at p i ino w"

lemma keeps_conj: "keeps I m \<Longrightarrow> keeps J m \<Longrightarrow> keeps (\<lambda>w. I w \<and> J w) m"
  by (simp add: keeps_def)

lemma keeps_holds:
  "keeps (\<lambda>w. db w = d) m \<Longrightarrow> keeps (\<lambda>w. file_at p i ino w) m \<Longrightarrow> keeps (holds_file d p i ino) m"
  unfolding holds_file_def by (rule keeps_conj)

lemma keeps_holds_leaves [keeps_intros]:
  "keeps (holds_file d p i ino) (os_stat q)" "keeps (holds_file d p i ino) (walk_dir q)"
  "keeps (holds_file d p i ino) (sql_read g)" "keeps (holds_file d p i ino) (os_read_dir q)"
  "keeps (holds_file d p i ino) (flock_lock q)" "keeps (holds_file d p i ino) (flock_unlock q)"
  "keeps (holds_file d p i ino) (flock_close q)" "keeps (holds_file d p i ino) (os_mkdir_all q)"
  "keeps (holds_file d p i ino) (modify_mem h)"
  by (rule keeps_holds; intro keeps_intros)+

lemma keeps_holds_lock [keeps_intros]:
  "keeps (holds_file d p i ino) fn \<Longrightarrow> keeps (holds_file d p i ino) (withOutputLock st h fn)"
  unfolding withOutputLock_def by (intro keeps_withFileLock keeps_intros; assumption)

lemma keeps_holds_idle [keeps_intros]:
  "keeps (holds_file d p i ino) (q_referencedOutputIDs shard m)"
  "keeps (holds_file d p i ino) (referencedInShard shard m)"
  "keeps (holds_file d p i ino) (walk_existing root)"
  "keeps (holds_file d p i ino) (orphanFilesInDir root ids exts)"
  unfolding orphanFilesInDir_def walk_existing_def referencedInShard_def q_referencedOutputIDs_def
  by (intro keeps_intros)+

lemma keeps_holds_plan [keeps_intros]: "keeps (holds_file d p i ino) (plan_shards st b c shards)"
proof (induction shards)
  case Nil
  show ?case by (simp only: plan_shards.simps keeps_pure)
next
  case (Cons s ss)
  then show ?case unfolding plan_shards.simps Let_def by (intro keeps_intros)
qed

lemma keeps_holds_remove: "q \<noteq> p \<Longrightarrow> keeps (holds_file d p i ino) (remove_if_present msg q)"
  by (rule keeps_holds) (intro keeps_intros keeps_file_remove_if; assumption)+

text \<open>A stat of the file itself reports its modification time.\<close>

lemma stat_holds:
  "holds_file d p i ino w \<Longrightarrow> os_stat p w = (r, w1) \<Longrightarrow>
    holds_file d p i ino w1 \<and> ((\<exists>t. r = Inl (SysErr t)) \<or> (\<exists>info. r = Inr info \<and> fi_mtime info = ino_mtime ino))"
  by (auto simp: holds_file_def file_at_def os_stat_def sys_def effect_def Let_def info_of_def
      split: option.splits)

text \<open>
  A planned path survives if it is another file, or its output is referenced. A path whose file
  was modified recently survives unless the stat itself fails: the code then goes on to remove
  it, so this case asks for a stat that works.
\<close>

lemma removeShardOrphans_other:
  assumes "p \<notin> set ps \<or> file_stem (last p) \<in> set ids"
  shows "keeps (holds_file d p i ino) (removeShardOrphans ps ids before)"
  using assms
proof (induction ps)
  case Nil
  show ?case by (simp only: removeShardOrphans.simps keeps_pure)
next
  case (Cons q qs)
  have IH: "keeps (holds_file d p i ino) (removeShardOrphans qs ids before)"
    using Cons by auto
  show ?case
  proof (cases "file_stem (last q) \<in> set ids")
    case True
    with IH show ?thesis by simp
  next
    case False
    then have "q \<noteq> p" using Cons.prems by auto
    with False IH show ?thesis
      unfolding removeShardOrphans.simps by (intro keeps_intros keeps_holds_remove)
  qed
qed

text \<open>Statement of the shard a planned path belongs to.\<close>

lemma removeOrphans_spares:
  assumes spared: "\<And>shard ps. map_of orphans shard = Some ps \<Longrightarrow> p \<in> set ps \<Longrightarrow>
      (\<exists>r\<in>set (outputs d). out_key r \<noteq> [] \<and> byte_val (hd (out_key r)) = shard \<and>
         min_i64 \<le> out_accessed r \<and> hex_encode (out_key r) = file_stem (last p))"
    and shards: "\<And>shard. shard \<in> fst ` set orphans \<Longrightarrow> shard < 256"
  shows "keeps (holds_file d p i ino) (removeOrphans st orphans before)"
proof -
  have one: "keeps (holds_file d p i ino) (bindE (referencedInShard shard keepEveryOutput) (\<lambda>ids.
      withOutputLock st (shardPrefix shard)
        (removeShardOrphans (the_default [] (map_of orphans shard)) ids before)))"
    if sh: "shard < 256" for shard
    unfolding keeps_def
  proof (intro allI impI)
    fix w assume h: "holds_file d p i ino w"
    obtain r w1 where q: "referencedInShard shard keepEveryOutput w = (r, w1)"
      by (cases "referencedInShard shard keepEveryOutput w")
    have h1: "holds_file d p i ino w1"
      using keepsD [OF keeps_holds_idle(2) h] q by (metis snd_conv)
    show "holds_file d p i ino (snd (bindE (referencedInShard shard keepEveryOutput) (\<lambda>ids.
      withOutputLock st (shardPrefix shard)
        (removeShardOrphans (the_default [] (map_of orphans shard)) ids before)) w))"
    proof (cases r)
      case (Inl e)
      with q h1 show ?thesis by (simp add: bindE_def)
    next
      case (Inr ids)
      have ids: "ids = map (hex_encode \<circ> out_key)
        (filter (\<lambda>r. out_key r \<noteq> [] \<and> byte_val (hd (out_key r)) = shard \<and> keepEveryOutput \<le> out_accessed r) (outputs d))"
        using q Inr h sh referenced_exact by (auto simp: referencedInShard_def wrapE_eq_Inr holds_file_def)
      have "p \<notin> set (the_default [] (map_of orphans shard)) \<or> file_stem (last p) \<in> set ids"
      proof (cases "map_of orphans shard")
        case (Some ps)
        with spared [OF Some] show ?thesis
          by (auto simp: ids keepEveryOutput_def image_iff) (metis comp_apply)
      qed simp
      from removeShardOrphans_other [OF this] have k: "keeps (holds_file d p i ino)
          (removeShardOrphans (the_default [] (map_of orphans shard)) ids before)" .
      have "keeps (holds_file d p i ino) (withOutputLock st (shardPrefix shard)
          (removeShardOrphans (the_default [] (map_of orphans shard)) ids before))"
        by (rule keeps_holds_lock [OF k])
      with q Inr h1 show ?thesis by (simp add: bindE_def keeps_def)
    qed
  qed
  show ?thesis
    unfolding removeOrphans_def
    by (intro keeps_intros one) (auto intro: shards)
qed


section \<open>What a plan lists\<close>

lemma file_ext_append: "CHR ''.'' \<notin> set e \<Longrightarrow> file_ext (h @ CHR ''.'' # e) = CHR ''.'' # e"
  by (auto simp: file_ext_def takeWhile_append)

lemma file_stem_append: "CHR ''.'' \<notin> set e \<Longrightarrow> file_stem (h @ CHR ''.'' # e) = h"
  by (simp add: file_stem_def file_ext_append trim_suffix_def has_suffix_def)

lemma walk_existing_prefix:
  assumes "walk_existing root w = (Inr visited, w')" "(p, n) \<in> set visited"
  shows "prefix root p"
  using assms
  by (auto simp: walk_existing_def recoverE_eq_Inr walk_dir_def subtree_def strict_prefix_def
      dest!: sys_InrD split: option.splits if_splits)

lemma orphanFiles_prefix:
  "orphanFilesInDir root ids exts w = (Inr ps, w') \<Longrightarrow> p \<in> set ps \<Longrightarrow> prefix root p"
  by (auto simp: orphanFilesInDir_def bindE_eq_Inr) (metis walk_existing_prefix)

lemma plan_shards_planned:
  assumes "plan_shards st b c shards w = (Inr orphans, w')"
  shows "\<forall>(s, ps)\<in>set orphans. s \<in> set shards \<and> (\<forall>p\<in>set ps.
    prefix (blobsDir st @ [shardPrefix s]) p \<or> prefix (retainedRoot (versionDir st) @ [shardPrefix s]) p)"
  using assms
proof (induction shards arbitrary: w w' orphans)
  case (Cons s ss)
  from Cons.prems obtain ids w1 bl w2 re w3 rest w4 where
    "(if b then wrapE ''scan blobs in shard'' (orphanFilesInDir (blobsDir st @ [shardPrefix s]) ids [''.zst'']) else returnE []) w1 = (Inr bl, w2)"
    "orphanFilesInDir (retainedRoot (versionDir st) @ [shardPrefix s]) ids [''.a'', ''.go''] w2 = (Inr re, w3)"
    and r: "plan_shards st b c ss w3 = (Inr rest, w4)"
    and o': "orphans = (if bl @ re = [] then rest else (s, bl @ re) # rest)"
    by (auto simp: bindE_eq_Inr wrapE_eq_Inr Let_def)
  then have "\<forall>p\<in>set (bl @ re). prefix (blobsDir st @ [shardPrefix s]) p \<or> prefix (retainedRoot (versionDir st) @ [shardPrefix s]) p"
    using orphanFiles_prefix by (auto simp: wrapE_eq_Inr split: if_splits)
  with Cons.IH [OF r] show ?case by (auto simp: o')
qed simp

text \<open>The file a live output must keep: its blob, or one of its retained files.\<close>

definition output_file :: "store \<Rightarrow> bytes \<Rightarrow> path \<Rightarrow> bool" where
  "output_file st h p \<longleftrightarrow>
     p = blobPath (blobsDir st) h \<or> p = retainedPath st h ''.a'' \<or> p = retainedPath st h ''.go''"

lemma output_file_stem: "output_file st h p \<Longrightarrow> file_stem (last p) = h"
  by (auto simp: output_file_def blobPath_def retainedPath_def file_stem_append)

lemma output_file_shard:
  assumes f: "output_file st (hex_encode k) p" and k: "k \<noteq> []" and s: "s < 256"
    and p: "prefix (blobsDir st @ [shardPrefix s]) p \<or> prefix (retainedRoot (versionDir st) @ [shardPrefix s]) p"
    and layout: "blobsDir st = versionDir st @ [''blobs'']"
  shows "byte_val (hd k) = s"
proof -
  have "shardPrefix s = shardPrefix (byte_val (hd k))"
    using f p by (auto simp: output_file_def blobPath_def blobDir_def retainedPath_def retainedDir_def
        retainedRoot_def retainedDirName_def layout outputShard_hex [OF k])
  from shardPrefix_inject [OF s _ this] show ?thesis by simp
qed

text \<open>
  C11. An orphan pass never removes a file of an output in the inventory: neither its blob nor
  its retained files, however old they are and whatever fails, and the catalog is untouched.
\<close>

theorem collect_spares_live:
  assumes layout: "blobsDir st = versionDir st @ [''blobs'']"
    and row: "r \<in> set (outputs (db w))" "out_key r \<noteq> []" "min_i64 \<le> out_accessed r"
    and own: "output_file st (hex_encode (out_key r)) p" "file_at p i ino w"
    and run: "bindE (planOrphans st includeBlobs minAt) (\<lambda>orphans. removeOrphans st orphans before) w = (res, w')"
  shows "file_at p i ino w' \<and> db w' = db w"
proof -
  let ?H = "holds_file (db w) p i ino"
  have h: "?H w" using own(2) by (simp add: holds_file_def)
  obtain r1 w1 where plan: "planOrphans st includeBlobs minAt w = (r1, w1)"
    by (cases "planOrphans st includeBlobs minAt w")
  have h1: "?H w1"
    by (rule keeps_eqD [OF keeps_holds_plan plan [unfolded planOrphans_def] h])
  have "?H w'"
  proof (cases r1)
    case (Inl e)
    with plan run h1 show ?thesis by (simp add: bindE_def)
  next
    case (Inr orphans)
    have planned: "\<forall>(s, ps)\<in>set orphans. s \<in> set [0..<256] \<and> (\<forall>p\<in>set ps.
      prefix (blobsDir st @ [shardPrefix s]) p \<or> prefix (retainedRoot (versionDir st) @ [shardPrefix s]) p)"
      by (rule plan_shards_planned [OF plan [unfolded planOrphans_def Inr]])
    have "keeps ?H (removeOrphans st orphans before)"
    proof (rule removeOrphans_spares)
      fix s ps assume "map_of orphans s = Some ps" "p \<in> set ps"
      then have s: "s < 256" "prefix (blobsDir st @ [shardPrefix s]) p \<or> prefix (retainedRoot (versionDir st) @ [shardPrefix s]) p"
        using planned by (auto dest!: map_of_SomeD)
      have "byte_val (hd (out_key r)) = s" by (rule output_file_shard [OF own(1) row(2) s layout])
      with row output_file_stem [OF own(1)] show
        "\<exists>r\<in>set (outputs (db w)). out_key r \<noteq> [] \<and> byte_val (hd (out_key r)) = s \<and>
           min_i64 \<le> out_accessed r \<and> hex_encode (out_key r) = file_stem (last p)"
        by (intro bexI [OF _ row(1)]) simp
    next
      fix s assume "s \<in> fst ` set orphans"
      then show "s < 256" using planned by fastforce
    qed
    moreover have "removeOrphans st orphans before w1 = (res, w')"
      using run plan Inr by (simp add: bindE_def)
    ultimately show ?thesis using keeps_eqD h1 by metis
  qed
  then show ?thesis by (simp add: holds_file_def)
qed

section \<open>What eviction spares\<close>

text \<open>An output in the inventory with its blob in place; no two rows have its key.\<close>

definition used_blob :: "store \<Rightarrow> output_row \<Rightarrow> nat \<Rightarrow> inode \<Rightarrow> world \<Rightarrow> bool" where
  "used_blob st row i ino w \<longleftrightarrow>
     row \<in> set (outputs (db w)) \<and> distinct (map out_key (outputs (db w))) \<and>
     file_at (blobPath (blobsDir st) (hex_encode (out_key row))) i ino w"

lemma blobPath_inject [simp]: "blobPath b x = blobPath b y \<longleftrightarrow> x = y"
  by (auto simp: blobPath_def)

lemma keeps_used_blob:
  "keeps (\<lambda>w. row \<in> set (outputs (db w)) \<and> distinct (map out_key (outputs (db w)))) m \<Longrightarrow>
    keeps (\<lambda>w. file_at (blobPath (blobsDir st) (hex_encode (out_key row))) i ino w) m \<Longrightarrow>
    keeps (used_blob st row i ino) m"
  by (simp add: keeps_def used_blob_def)

text \<open>
  Taking the row of a candidate that names another output, or that names this one as it was
  before its last use, keeps the row; and then nothing was removed for this output.
\<close>

lemma evictOutput_used:
  assumes u: "used_blob st row i ino w" and n: "\<not> still_coldest [c] row"
    and run: "q_evictOutput (pc_outputID c) (pc_accessedAt c) w = (r, w')"
  shows "used_blob st row i ino w' \<and> (r = Inr True \<longrightarrow> pc_outputID c \<noteq> hex_encode (out_key row))"
proof (cases "idKey (pc_outputID c)")
  case None
  with run u show ?thesis by (auto simp: q_evictOutput_def idKeyE_def bindE_def)
next
  case (Some k)
  note u' = u [unfolded used_blob_def]
  have gone: "\<not> (out_key row = k \<and> out_accessed row \<le> pc_accessedAt c)"
    using n Some by (auto simp: still_coldest_def)
  consider (fails) e where "r = Inl e" "w' = w\<lparr>ticks := Suc (ticks w)\<rparr>"
    | (runs) "r = Inr (\<exists>s\<in>set (outputs (db w)). out_key s = k \<and> out_accessed s \<le> pc_accessedAt c)"
        "w' = w\<lparr>ticks := Suc (ticks w),
          db := (db w)\<lparr>outputs := filter (\<lambda>s. \<not> (out_key s = k \<and> out_accessed s \<le> pc_accessedAt c)) (outputs (db w))\<rparr>\<rparr>"
    using run Some
    by (auto simp: q_evictOutput_def idKeyE_def bindE_def sql_def effect_def Let_def sql_evict_output_def
        filter_empty_conv split: option.splits)
  then show ?thesis
  proof cases
    case fails
    with u show ?thesis by (simp add: used_blob_def)
  next
    case runs
    have row: "row \<in> set (outputs (db w))" and keys: "distinct (map out_key (outputs (db w)))" using u' by auto
    have "used_blob st row i ino w'"
      using u' gone by (auto simp: used_blob_def runs(2) distinct_map_filter)
    moreover have "pc_outputID c \<noteq> hex_encode (out_key row)" if "r = Inr True"
    proof
      assume "pc_outputID c = hex_encode (out_key row)"
      with Some have k: "k = out_key row" by simp
      from that runs(1) obtain s where s: "s \<in> set (outputs (db w))" "out_key s = k" "out_accessed s \<le> pc_accessedAt c"
        by auto
      have "s = row" using keys s(1,2) row k by (auto simp: distinct_map inj_on_def)
      with s gone show False by simp
    qed
    ultimately show ?thesis by blast
  qed
qed

lemma evict_loop_used:
  assumes "\<not> still_coldest cs row"
  shows "keeps (used_blob st row i ino) (evict_loop st cs sz evicted)"
  using assms
proof (induction cs arbitrary: sz evicted)
  case Nil
  show ?case by (simp only: evict_loop.simps keeps_pure)
next
  case (Cons c cs)
  have n: "\<not> still_coldest [c] row" and ns: "\<not> still_coldest cs row"
    using Cons.prems by (auto simp: still_coldest_def)
  have IH: "keeps (used_blob st row i ino) (evict_loop st cs sz evicted)" for sz evicted
    by (rule Cons.IH [OF ns])
  have rm: "keeps (used_blob st row i ino) (withOutputLock st (pc_outputID c)
      (remove_if_present msg (blobPath (blobsDir st) (pc_outputID c))))"
    if "pc_outputID c \<noteq> hex_encode (out_key row)" for msg
    by (rule keeps_used_blob, intro keeps_db_locks(3) keeps_db_files(3),
        intro keeps_file_output_lock(3) keeps_file_remove_if) (simp add: that)
  show ?case unfolding keeps_def
  proof (intro allI impI)
    fix w assume u: "used_blob st row i ino w"
    obtain r w1 where ev: "q_evictOutput (pc_outputID c) (pc_accessedAt c) w = (r, w1)" by fastforce
    note one = evictOutput_used [OF u n ev]
    show "used_blob st row i ino (snd (evict_loop st (c # cs) sz evicted w))"
    proof (cases r)
      case (Inl e)
      with one u ev show ?thesis by (simp add: bindE_def wrapE_def)
    next
      case (Inr removed)
      let ?go = "bindE (withOutputLock st (pc_outputID c)
          (remove_if_present ''remove compressed entry'' (blobPath (blobsDir st) (pc_outputID c)))) (\<lambda>_.
          evict_loop st cs (i64 (sz - pc_size c)) (evicted @ [pc_outputID c]))"
      have "keeps (used_blob st row i ino) (if \<not> removed then evict_loop st cs sz evicted else ?go)"
        using one Inr by (intro keeps_if IH keeps_bindE rm) auto
      with one u ev Inr show ?thesis by (simp add: bindE_def [of "wrapE _ _"] wrapE_def keeps_def)
    qed
  qed
qed

lemma evictToMaxSize_used:
  "\<not> still_coldest cs row \<Longrightarrow> keeps (used_blob st row i ino) (evictToMaxSize st cs)"
  unfolding evictToMaxSize_def compressedSize_def q_compressedSize_def
  by (intro keeps_if keeps_pure keeps_bindE keeps_wrapE evict_loop_used) 
    (rule keeps_used_blob; intro keeps_intros keeps_db_sql; simp split: option.splits)

section \<open>Recent files\<close>

text \<open>
  The plan of failures never changes and time only goes on, so whether an effect of a given
  run failed can be read off the states before and after it.
\<close>

definition steady :: "(nat \<Rightarrow> failure option) \<Rightarrow> nat \<Rightarrow> world \<Rightarrow> bool" where
  "steady F t w \<longleftrightarrow> fault w = F \<and> t \<le> ticks w"

lemma steady_simps [simp]:
  "steady F t (w\<lparr>db := d\<rparr>) = steady F t w" "steady F t (w\<lparr>mem := m\<rparr>) = steady F t w"
  "steady F t (w\<lparr>held := h\<rparr>) = steady F t w" "steady F t (set_node p nd w) = steady F t w"
  "steady F t (del_node p w) = steady F t w" "steady F t (snd (new_file p w)) = steady F t w"
  by (simp_all add: steady_def set_node_def del_node_def new_file_def Let_def)

lemma steady_ticks: "steady F t w \<Longrightarrow> steady F t (w\<lparr>ticks := Suc (ticks w)\<rparr>)"
  by (simp add: steady_def)

lemma steady_mkdir_chain [simp]: "steady F t (snd (mkdir_chain pre cs w)) = steady F t w"
  by (induction cs arbitrary: pre w) (auto split: option.splits node.splits)

lemma keeps_steady_sys: "(\<And>w. steady F t w \<Longrightarrow> steady F t (snd (f w))) \<Longrightarrow> keeps (steady F t) (sys f)"
  by (auto simp: keeps_def sys_def effect_def Let_def intro: steady_ticks split: option.splits)

lemma keeps_steady_leaves [keeps_intros]:
  "keeps (steady F t) (os_stat q)" "keeps (steady F t) (os_mkdir_all q)" "keeps (steady F t) (os_remove q)"
  unfolding os_stat_def os_mkdir_all_def os_remove_def
  by (rule keeps_steady_sys; auto split: option.splits node.splits)+

lemma keeps_steady_locks [keeps_intros]:
  "keeps (steady F t) (flock_lock q)" "keeps (steady F t) (flock_unlock q)" "keeps (steady F t) (flock_close q)"
  unfolding flock_lock_def flock_unlock_def flock_close_def
  by (rule keeps_steady_sys; auto simp: bindE_def lock_file_def)+

lemma keeps_steady_sql [keeps_intros]:
  "keeps (steady F t) (sql_read g)" "keeps (steady F t) (modify_mem h)"
  by (auto simp: keeps_def sql_read_def sql_def effect_def Let_def modify_mem_def intro: steady_ticks split: option.splits)

text \<open>
  A file that is kept by a run, or by the run up to a failure of one of its effects.
\<close>

definition kept_unless :: "path \<Rightarrow> nat \<Rightarrow> inode \<Rightarrow> (nat \<Rightarrow> failure option) \<Rightarrow> nat \<Rightarrow> world \<Rightarrow> bool" where
  "kept_unless p i ino F t w \<longleftrightarrow>
     steady F t w \<and> (file_at p i ino w \<or> (\<exists>n. t \<le> n \<and> n < ticks w \<and> F n \<noteq> None))"

lemma keeps_kept:
  assumes s: "\<And>t. keeps (steady F t) m" and f: "keeps (\<lambda>w. file_at p i ino w) m"
  shows "keeps (kept_unless p i ino F t) m"
  unfolding keeps_def kept_unless_def
proof (intro allI impI)
  fix w assume w: "steady F t w \<and> (file_at p i ino w \<or> (\<exists>n. t \<le> n \<and> n < ticks w \<and> F n \<noteq> None))"
  have later: "steady F (ticks w) (snd (m w))"
    using keepsD [OF s, of "ticks w" w] w by (simp add: steady_def)
  show "steady F t (snd (m w)) \<and>
      (file_at p i ino (snd (m w)) \<or> (\<exists>n. t \<le> n \<and> n < ticks (snd (m w)) \<and> F n \<noteq> None))"
    using keepsD [OF s, of t w] keepsD [OF f, of w] w later by (force simp: steady_def)
qed

lemma keeps_kept_stat: "keeps (kept_unless p i ino F t) (os_stat q)"
  by (rule keeps_kept) (intro keeps_intros)+

lemma stat_kept:
  assumes "kept_unless p i ino F t w" "os_stat p w = (r, w1)"
  shows "(\<exists>info. r = Inr info \<and> fi_mtime info = ino_mtime ino) \<or> (\<exists>n. t \<le> n \<and> n < ticks w1 \<and> F n \<noteq> None)"
  using assms
  by (auto simp: kept_unless_def steady_def file_at_def os_stat_def sys_def effect_def Let_def info_of_def
      split: option.splits node.splits intro: less_SucI)

lemma keeps_kept_failed:
  assumes "\<And>t. keeps (steady F t) m" "steady F t w" "t \<le> n" "n < ticks w" "F n \<noteq> None"
  shows "kept_unless p i ino F t (snd (m w))"
proof -
  have "steady F (ticks w) (snd (m w))" using keepsD [OF assms(1), of "ticks w" w] assms(2) by (simp add: steady_def)
  moreover have "steady F t (snd (m w))" by (rule keepsD [OF assms(1,2)])
  ultimately show ?thesis using assms(3-5) by (auto simp: kept_unless_def steady_def intro: less_le_trans)
qed

lemma keeps_steady_remove [keeps_intros]: "keeps (steady F t) (remove_if_present msg q)"
  unfolding remove_if_present_def by (intro keeps_intros)

lemma keeps_steady_shard: "keeps (steady F t) (removeShardOrphans ps ids before)"
proof (induction ps)
  case Nil
  show ?case by (simp only: removeShardOrphans.simps keeps_pure)
next
  case (Cons q qs)
  then show ?case unfolding removeShardOrphans.simps by (intro keeps_intros)
qed

lemma removeShardOrphans_recent:
  assumes "before \<le> ino_mtime ino"
  shows "keeps (kept_unless p i ino F t) (removeShardOrphans ps ids before)"
proof (induction ps)
  case Nil
  show ?case by (simp only: removeShardOrphans.simps keeps_pure)
next
  case (Cons q qs)
  show ?case
  proof (cases "q = p \<and> file_stem (last q) \<notin> set ids")
    case True
    show ?thesis unfolding keeps_def
    proof (intro allI impI)
      fix w assume k: "kept_unless p i ino F t w"
      obtain r w1 where st: "os_stat p w = (r, w1)" by fastforce
      have k1: "kept_unless p i ino F t w1" by (rule keeps_eqD [OF keeps_kept_stat st k])
      from stat_kept [OF k st] show "kept_unless p i ino F t (snd (removeShardOrphans (q # qs) ids before w))"
      proof (elim disjE exE conjE)
        fix info assume "r = Inr info" "fi_mtime info = ino_mtime ino"
        with True assms st k1 Cons.IH show ?thesis by (auto simp: bindE_def tryE_def keeps_def)
      next
        fix n assume n: "t \<le> n" "n < ticks w1" "F n \<noteq> None"
        let ?rest = "if (case r of Inl _ \<Rightarrow> False | Inr i \<Rightarrow> \<not> fi_mtime i < before)
          then removeShardOrphans qs ids before
          else bindE (remove_if_present ''remove orphan file'' q) (\<lambda>_. removeShardOrphans qs ids before)"
        have "kept_unless p i ino F t (snd (?rest w1))"
          by (rule keeps_kept_failed [where m = ?rest and w = w1 and n = n])
            (intro keeps_if keeps_bindE keeps_steady_remove keeps_steady_shard, use k1 n in \<open>simp_all add: kept_unless_def\<close>)
        moreover have "removeShardOrphans (q # qs) ids before w = ?rest w1"
          using True st by (auto simp: bindE_def tryE_def)
        ultimately show ?thesis by simp
      qed
    qed
  next
    case False
    show ?thesis
    proof (cases "file_stem (last q) \<in> set ids")
      case True
      with Cons.IH show ?thesis by simp
    next
      case nref: False
      with False have "q \<noteq> p" by auto
      then have rm: "keeps (kept_unless p i ino F t) (remove_if_present ''remove orphan file'' q)"
        by (intro keeps_kept keeps_steady_remove keeps_file_remove_if)
      show ?thesis
        unfolding removeShardOrphans.simps
        by (intro keeps_if keeps_bindE keeps_tryE keeps_kept_stat rm Cons.IH)
    qed
  qed
qed

text \<open>
  C12. A put that has installed its blob and not yet recorded it loses nothing to an orphan pass:
  in a pass none of whose own effects fails, a file modified at or after the cutoff stays as it
  is, whatever the plan names and whatever the catalog holds. The condition is needed: each file
  is looked at again before it is removed, and when that very look fails the code goes on to
  remove the file.
\<close>

theorem collect_spares_recent:
  assumes fil: "file_at p i ino w" and recent: "before \<le> ino_mtime ino"
    and run: "removeOrphans st orphans before w = (r, w')"
    and ok: "\<forall>n. ticks w \<le> n \<longrightarrow> n < ticks w' \<longrightarrow> fault w n = None"
  shows "file_at p i ino w'"
proof -
  let ?K = "kept_unless p i ino (fault w) (ticks w)"
  have ref: "keeps ?K (referencedInShard shard keepEveryOutput)" for shard
    unfolding referencedInShard_def q_referencedOutputIDs_def
    by (rule keeps_kept) (intro keeps_intros)+
  have lock: "keeps ?K (withOutputLock st h fn)" if "keeps ?K fn" for h and fn :: "unit io"
    unfolding withOutputLock_def
    by (intro keeps_withFileLock keeps_bindE keeps_wrapE keeps_tryE keeps_pure keeps_case_option that)
      (rule keeps_kept; intro keeps_intros)+
  have "keeps ?K (removeOrphans st orphans before)"
    unfolding removeOrphans_def
    by (intro keeps_if keeps_pure keeps_forE keeps_bindE ref lock removeShardOrphans_recent recent)
  from keeps_eqD [OF this run] fil ok show ?thesis by (fastforce simp: kept_unless_def steady_def)
qed

text \<open>A cache holding one blob of an inventoried output and one put in flight.\<close>

definition blob_world :: world where
  "blob_world = sample_world\<lparr>
     nodes := [([''v''], DirN), ([''v'', ''blobs''], DirN), (blobDir [''v'', ''blobs''] (hex_encode ''o''), DirN),
               (blobPath [''v'', ''blobs''] (hex_encode ''o''), FileN 0),
               ([''v'', ''blobs'', ''00'', ''0011.zst''], FileN 1)],
     inodes := (\<lambda>_. \<lparr>ino_data = ''z'', ino_mtime = 100\<rparr>), next_ino := 2\<rparr>"

lemma other_name: "''0011'' \<noteq> hex_encode ''o''"
proof
  assume "''0011'' = hex_encode ''o''"
  from arg_cong [OF this, of length] show False by simp
qed

lemma blob_world_simps [simp]:
  "db blob_world = sample_tables" "fault blob_world = (\<lambda>_. None)" "next_ino blob_world = 2"
  "inodes blob_world i = \<lparr>ino_data = ''z'', ino_mtime = 100\<rparr>"
  "node_at blob_world (blobPath [''v'', ''blobs''] (hex_encode ''o'')) = Some (FileN 0)"
  "node_at blob_world [''v'', ''blobs'', ''00'', ''0011.zst''] = Some (FileN 1)"
  by (simp_all add: blob_world_def node_at_def blobPath_def blobDir_def other_name)

lemma collect_spares_live_witness:
  "file_at (blobPath [''v'', ''blobs''] (hex_encode ''o'')) 0 \<lparr>ino_data = ''z'', ino_mtime = 100\<rparr>
    (snd (bindE (planOrphans sample_store True 0) (\<lambda>orphans. removeOrphans sample_store orphans 1000) blob_world))"
proof -
  obtain r w' where run: "bindE (planOrphans sample_store True 0)
      (\<lambda>orphans. removeOrphans sample_store orphans 1000) blob_world = (r, w')"
    by (metis prod.collapse)
  have "file_at (blobPath [''v'', ''blobs''] (hex_encode ''o'')) 0 \<lparr>ino_data = ''z'', ino_mtime = 100\<rparr> w' \<and>
    db w' = db blob_world"
    by (rule collect_spares_live [OF _ _ _ _ _ _ run, of "sample_row 1 ''o'' 5"])
      (simp_all add: sample_tables_def sample_row_def min_i64_def output_file_def file_at_def,
       simp add: blobPath_def)
  with run show ?thesis by simp
qed

lemma collect_spares_recent_witness:
  "file_at [''v'', ''blobs'', ''00'', ''0011.zst''] 1 \<lparr>ino_data = ''z'', ino_mtime = 100\<rparr>
    (snd (removeOrphans sample_store [(0, [[''v'', ''blobs'', ''00'', ''0011.zst'']])] 100 blob_world))"
proof -
  obtain r w' where run: "removeOrphans sample_store [(0, [[''v'', ''blobs'', ''00'', ''0011.zst'']])] 100 blob_world = (r, w')"
    by (metis prod.collapse)
  have "file_at [''v'', ''blobs'', ''00'', ''0011.zst''] 1 \<lparr>ino_data = ''z'', ino_mtime = 100\<rparr> w'"
    by (rule collect_spares_recent [OF _ _ run]) (simp_all add: file_at_def)
  with run show ?thesis by simp
qed

text \<open>
  C10. Eviction takes only what was planned and only if it was not used since: for any catalog
  at the time, however different from the one the plan was made from, and whatever fails, an
  output that is no candidate's, or was accessed after its candidate was chosen, keeps its row
  as it is and keeps its blob file, no entry changes, and the invariant holds.
\<close>

theorem evict_spares_used:
  assumes inv: "cat_inv (db w)" and run: "evictToMaxSize st cs w = (r, w')"
  shows "spared cs (db w') = spared cs (db w) \<and> cat_inv (db w') \<and>
    (\<forall>row\<in>set (outputs (db w)). \<not> still_coldest cs row \<longrightarrow>
      (\<forall>i ino. file_at (blobPath (blobsDir st) (hex_encode (out_key row))) i ino w \<longrightarrow>
        file_at (blobPath (blobsDir st) (hex_encode (out_key row))) i ino w'))"
proof -
  have "keeps (\<lambda>v. spared cs (db v) = spared cs (db w)) (evictToMaxSize st cs)"
    by (rule keeps_evictToMaxSize) (simp add: spared_evict)
  from keeps_dbD [OF this run] have "spared cs (db w') = spared cs (db w)" by simp
  moreover from keeps_dbD [OF keeps_eviction [OF cat_inv_stable] run inv] have "cat_inv (db w')" .
  moreover have "file_at (blobPath (blobsDir st) (hex_encode (out_key row))) i ino w'"
    if "row \<in> set (outputs (db w))" "\<not> still_coldest cs row"
      "file_at (blobPath (blobsDir st) (hex_encode (out_key row))) i ino w" for row i ino
    using keeps_eqD [OF evictToMaxSize_used [where st = st and i = i and ino = ino, OF that(2)] run] inv that
    by (simp add: used_blob_def cat_inv_def wf_tables_def)
  ultimately show ?thesis by blast
qed

lemma evict_spares_used_witness:
  "let w' = snd (evictToMaxSize sample_store
      [candidate_of (sample_row 1 ''o'' 4), candidate_of (sample_row 2 ''p'' 50)] blob_world)
   in sample_row 1 ''o'' 5 \<in> set (outputs (db w')) \<and>
      file_at (blobPath [''v'', ''blobs''] (hex_encode ''o'')) 0 \<lparr>ino_data = ''z'', ino_mtime = 100\<rparr> w'"
proof -
  let ?cs = "[candidate_of (sample_row 1 ''o'' 4), candidate_of (sample_row 2 ''p'' 50)]"
  obtain r w' where run: "evictToMaxSize sample_store ?cs blob_world = (r, w')" by fastforce
  have row: "sample_row 1 ''o'' 5 \<in> set (outputs (db blob_world))" by (simp add: sample_tables_def)
  have used: "\<not> still_coldest ?cs (sample_row 1 ''o'' 5)" by (simp add: still_coldest_def sample_row_def)
  have inv: "cat_inv (db blob_world)" by simp
  note law = evict_spares_used [OF inv run]
  have "sample_row 1 ''o'' 5 \<in> set (outputs (spared ?cs (db blob_world)))" using row used by (simp add: spared_def)
  then have "sample_row 1 ''o'' 5 \<in> set (outputs (spared ?cs (db w')))" using law by metis
  moreover have "file_at (blobPath [''v'', ''blobs''] (hex_encode ''o'')) 0 \<lparr>ino_data = ''z'', ino_mtime = 100\<rparr> blob_world"
    by (simp add: file_at_def, simp add: blobPath_def)
  then have "file_at (blobPath [''v'', ''blobs''] (hex_encode ''o'')) 0 \<lparr>ino_data = ''z'', ino_mtime = 100\<rparr> w'"
    using law row used by (force simp: sample_row_def)
  ultimately show ?thesis unfolding run snd_conv Let_def by (simp add: spared_def)
qed

end
