(* ===== verification/Retained.thy ===== *)
theory Retained
  imports Builds Archive Orphans
begin

text \<open>
  Files that outlive a build (\<open>export_archive.go\<close> and their use in \<open>store.go\<close>): a path the
  go command printed may still be opened after the build, so when a store closes, package
  archives are cut down to their export data, generated sources are kept, both are installed
  under \<open>retained/\<close> once per output and hard-linked back into the run.
\<close>

section \<open>Installing and replacing\<close>

definition markRetainedFileUsed :: "path \<Rightarrow> unit io" where
  "markRetainedFileUsed path =
     bindE (os_stat path) (\<lambda>info.
     bindE time_now (\<lambda>now.
     if time_sub now (fi_mtime info) < mtimeInterval then returnE () else os_chtimes path now))"

definition installExportArchive :: "path \<Rightarrow> path \<Rightarrow> unit io" where
  "installExportArchive tmpPath exportPath =
     bindE (regularFile exportPath) (\<lambda>present.
     if present then markRetainedFileUsed exportPath
     else
       recoverE (os_rename tmpPath exportPath) (\<lambda>e.
         bindE (regularFile exportPath) (\<lambda>now_present.
         if now_present then markRetainedFileUsed exportPath
         else failE (Wrap ''install export archive'' [e]))))"

text \<open>\<open>copyFile\<close>: \<open>io.Copy\<close> reads the source to its end and writes what it read.\<close>

definition copyFile :: "path \<Rightarrow> path \<Rightarrow> unit io" where
  "copyFile src dst =
     bindE (wrapE ''open source'' (os_open src)) (\<lambda>inp.
     finallyE
       (bindE (wrapE ''create destination'' (os_create dst)) (\<lambda>out.
        bindE (recoverE (bindE (file_read inp) (file_write out)) (\<lambda>e.
                 bindE (ignoreE (file_close out)) (\<lambda>_. failE (Wrap ''copy data'' [e])))) (\<lambda>_.
        wrapE ''close destination'' (file_close out))))
       (file_close inp))"

text \<open>
  The end of \<open>replaceWithExportArchive\<close> and of \<open>replaceFile\<close>: if the rename fails the old
  file is removed and the rename tried again; \<open>cleanup\<close> says whether the temporary file is
  removed when that fails too.
\<close>

definition rename_over :: "bool \<Rightarrow> path \<Rightarrow> path \<Rightarrow> unit io" where
  "rename_over cleanup tmpPath path =
     recoverE (os_rename tmpPath path) (\<lambda>_.
       let give_up = (\<lambda>e. bindE (whenE cleanup (ignoreE (os_remove tmpPath))) (\<lambda>_.
                       failE (Wrap ''replace live archive'' [e])))
       in bindE (recoverE (os_remove path) (\<lambda>e. if errors_is ErrNotExist e then returnE () else give_up e)) (\<lambda>_.
          recoverE (os_rename tmpPath path) give_up))"

definition replaceFile :: "path \<Rightarrow> path \<Rightarrow> unit io" where
  "replaceFile tmpPath path = rename_over False tmpPath path"

definition replaceWithExportArchive :: "path \<Rightarrow> path \<Rightarrow> unit io" where
  "replaceWithExportArchive exportPath path =
     bindE (wrapE ''create live export placeholder'' (os_create_temp (butlast path) (last path @ ''.export-'') [])) (\<lambda>(tmp, tmpPath).
     bindE (recoverE (file_close tmp) (\<lambda>e. bindE (ignoreE (os_remove tmpPath)) (\<lambda>_.
              failE (Wrap ''close live export placeholder'' [e])))) (\<lambda>_.
     bindE (wrapE ''remove live export placeholder'' (os_remove tmpPath)) (\<lambda>_.
     bindE (recoverE (os_link exportPath tmpPath) (\<lambda>_. wrapE ''copy live export archive'' (copyFile exportPath tmpPath))) (\<lambda>_.
     rename_over True tmpPath path))))"

section \<open>Package archives\<close>

text \<open>An error of \<open>m\<close> closes the files before it is returned.\<close>

definition closing :: "nat list \<Rightarrow> string \<Rightarrow> 'a io \<Rightarrow> 'a io" where
  "closing fs msg m = recoverE m (\<lambda>e. bindE (forE fs (\<lambda>f. ignoreE (file_close f))) (\<lambda>_. failE (Wrap msg [e])))"

definition archivePrefixLen :: nat where
  "archivePrefixLen = length archiveMagic + archiveHeaderLen"

text \<open>The export data is padded to an even length; \<open>io.CopyN\<close> fails when there is less of it.\<close>

definition copySize :: "int \<Rightarrow> int" where
  "copySize sz = (if sz mod 2 \<noteq> 0 then i64 (sz + 1) else sz)"

definition strip_fill :: "nat \<Rightarrow> nat \<Rightarrow> bytes \<Rightarrow> int \<Rightarrow> unit io" where
  "strip_fill inp tmp hdr sz =
     bindE (closing [inp, tmp] ''write stripped export archive header'' (file_write tmp hdr)) (\<lambda>_.
     bindE (closing [inp, tmp] ''copy package export data''
              (bindE (file_read inp) (\<lambda>content.
               let data = take (nat (copySize sz)) (drop archivePrefixLen content) in
               bindE (file_write tmp data) (\<lambda>_.
               if int (length data) < copySize sz then failE ErrEOF else returnE ())))) (\<lambda>_.
     bindE (closing [tmp] ''close live archive'' (file_close inp)) (\<lambda>_.
     wrapE ''close stripped export archive'' (file_close tmp))))"

definition strip_into :: "nat \<Rightarrow> bytes \<Rightarrow> int \<Rightarrow> path \<Rightarrow> path option \<Rightarrow> bool io" where
  "strip_into inp hdr sz path exportPath =
     (let tmpDir = (case exportPath of None \<Rightarrow> butlast path | Some e \<Rightarrow> butlast e) in
     bindE (case exportPath of None \<Rightarrow> returnE ()
            | Some _ \<Rightarrow> closing [inp] ''create export dir'' (os_mkdir_all tmpDir)) (\<lambda>_.
     bindE (closing [inp] ''create stripped export archive''
              (os_create_temp tmpDir (last path @ ''.pkgdef-'') [])) (\<lambda>(tmp, tmpPath).
     finallyE
       (bindE (strip_fill inp tmp hdr sz) (\<lambda>_.
        case exportPath of
          None \<Rightarrow> bindE (replaceFile tmpPath path) (\<lambda>_. returnE True)
        | Some e \<Rightarrow>
            bindE (installExportArchive tmpPath e) (\<lambda>_.
            bindE (replaceWithExportArchive e path) (\<lambda>_. returnE True))))
       (os_remove tmpPath))))"

definition stripPackageArchiveToExport :: "path \<Rightarrow> path option \<Rightarrow> bool io" where
  "stripPackageArchiveToExport path exportPath =
     bindE (wrapE ''open live file'' (os_open path)) (\<lambda>inp.
     bindE (closing [inp] ''read live archive header'' (file_read inp)) (\<lambda>content.
     let hdr = take archivePrefixLen content in
     case (if length content < archivePrefixLen then None else packageArchiveExportSize hdr) of
       None \<Rightarrow> bindE (ignoreE (file_close inp)) (\<lambda>_. returnE False)
     | Some sz \<Rightarrow> strip_into inp hdr sz path exportPath))"

section \<open>Generated sources\<close>

definition installRetainedFile :: "bytes \<Rightarrow> path \<Rightarrow> unit io" where
  "installRetainedFile data retained =
     bindE (regularFile retained) (\<lambda>present.
     if present then markRetainedFileUsed retained
     else
       bindE (wrapE ''create retained dir'' (os_mkdir_all (butlast retained))) (\<lambda>_.
       bindE (wrapE ''create retained file'' (os_create_temp (butlast retained) (last retained @ ''.tmp-'') [])) (\<lambda>(tmp, tmpPath).
       finallyE
         (bindE (closing [tmp] ''write retained file'' (file_write tmp data)) (\<lambda>_.
          bindE (wrapE ''close retained file'' (file_close tmp)) (\<lambda>_.
          recoverE (os_rename tmpPath retained) (\<lambda>e.
            bindE (regularFile retained) (\<lambda>now_present.
            if now_present then markRetainedFileUsed retained
            else failE (Wrap ''install retained file'' [e]))))))
         (os_remove tmpPath))))"

definition retainEscapedGeneratedGoSource :: "path \<Rightarrow> path \<Rightarrow> retainedTypeKind option io" where
  "retainEscapedGeneratedGoSource path retained =
     bindE (wrapE ''read live file'' (os_read_file path)) (\<lambda>data.
     case retainedGeneratedSourceKind data of
       None \<Rightarrow> returnE None
     | Some kind \<Rightarrow>
         bindE (installRetainedFile data retained) (\<lambda>_.
         bindE (replaceWithExportArchive retained path) (\<lambda>_. returnE (Some kind))))"

section \<open>Live files of a closing store\<close>

definition stripLivePackageArchiveToExport :: "store \<Rightarrow> path \<Rightarrow> bool io" where
  "stripLivePackageArchiveToExport st path =
     (let outputID = liveOutputID (last path) in
      if outputID = [] then stripPackageArchiveToExport path None
      else
        bindE (withOutputLock st outputID
                 (bindE (stripPackageArchiveToExport path (Some (retainedPath st outputID ''.a''))) (\<lambda>retained.
                  if retained then returnE (Some retainedTypeExportArchive)
                  else retainEscapedGeneratedGoSource path (retainedPath st outputID ''.go'')))) (\<lambda>kind.
        case kind of
          None \<Rightarrow> returnE False
        | Some k \<Rightarrow> bindE (ignoreE (q_updateRetainedType outputID k)) (\<lambda>_. returnE True)))"

text \<open>
  \<open>prepareLiveRunForClose\<close>: one step of its walk, over whether anything is kept and the
  failures so far.
\<close>

definition strip_live :: "store \<Rightarrow> path \<times> node \<Rightarrow> bool \<times> err option \<Rightarrow> (bool \<times> err option) io" where
  "strip_live st visit acc =
     (case visit of (path, n) \<Rightarrow> case acc of (retained, failures) \<Rightarrow>
      let failed = (\<lambda>e. returnE (True, join_err failures (Some e))) in
      if n = DirN \<or> last path = runLockName then returnE acc
      else if n = OtherN then
        recoverE (bindE (os_remove_all path) (\<lambda>_. returnE acc)) (\<lambda>e. failed (Wrap ''remove live path'' [e]))
      else
        bindE (tryE (stripLivePackageArchiveToExport st path)) (\<lambda>r.
        case r of
          Inl e \<Rightarrow> failed e
        | Inr True \<Rightarrow> returnE (True, failures)
        | Inr False \<Rightarrow>
            recoverE (bindE (os_remove path) (\<lambda>_. returnE acc)) (\<lambda>e.
              if errors_is ErrNotExist e then returnE acc else failed (Wrap ''remove live file'' [e]))))"

fun strip_all :: "store \<Rightarrow> (path \<times> node) list \<Rightarrow> bool \<times> err option \<Rightarrow> (bool \<times> err option) io" where
  "strip_all st [] acc = returnE acc"
| "strip_all st (v # vs) acc = bindE (strip_live st v acc) (strip_all st vs)"

definition prepareLiveRunForClose :: "store \<Rightarrow> (bool \<times> err option) io" where
  "prepareLiveRunForClose st =
     bindE (bindE (tryE (walk_dir (runDir st))) (\<lambda>r.
            case r of
              Inl e \<Rightarrow>
                if errors_is ErrNotExist e then returnE (False, None)
                else returnE (True, join_err None (Some (Wrap ''read live run dir'' [e])))
            | Inr visits \<Rightarrow> strip_all st visits (False, None))) (\<lambda>(retained, failures).
     bindE (tryE (removeEmptyDirs (runDir st))) (\<lambda>r.
     returnE (retained, join_err failures (err_of r))))"

end
