(* ===== verification/Triples.thy ===== *)
theory Triples
  imports Store_State
begin

text \<open>
  Partial correctness of programs over the world: \<open>ensures P m Q E\<close> says that from a world
  with \<open>P\<close>, whatever effects fail, a normal return of \<open>x\<close> leaves a world with \<open>Q x\<close> and an
  error one with \<open>E\<close>.
\<close>

definition ensures :: "(world \<Rightarrow> bool) \<Rightarrow> 'a io \<Rightarrow> ('a \<Rightarrow> world \<Rightarrow> bool) \<Rightarrow> (world \<Rightarrow> bool) \<Rightarrow> bool" where
  "ensures P m Q E \<longleftrightarrow> (\<forall>w. P w \<longrightarrow> (case m w of (Inl e, w') \<Rightarrow> E w' | (Inr x, w') \<Rightarrow> Q x w'))"

lemma ensuresI:
  assumes "\<And>w x w'. P w \<Longrightarrow> m w = (Inr x, w') \<Longrightarrow> Q x w'"
    and "\<And>w e w'. P w \<Longrightarrow> m w = (Inl e, w') \<Longrightarrow> E w'"
  shows "ensures P m Q E"
  using assms by (auto simp: ensures_def split: prod.splits sum.splits)

lemma ensures_InrD: "ensures P m Q E \<Longrightarrow> P w \<Longrightarrow> m w = (Inr x, w') \<Longrightarrow> Q x w'"
  by (auto simp: ensures_def)

lemma ensures_InlD: "ensures P m Q E \<Longrightarrow> P w \<Longrightarrow> m w = (Inl e, w') \<Longrightarrow> E w'"
  by (auto simp: ensures_def)

lemma ensures_keeps: "keeps P m \<Longrightarrow> ensures P m (\<lambda>_. P) P"
  by (auto intro!: ensuresI dest: keeps_eqD)

lemma ensures_conseq:
  "ensures P m Q E \<Longrightarrow> (\<And>w. P' w \<Longrightarrow> P w) \<Longrightarrow> (\<And>x w. Q x w \<Longrightarrow> Q' x w) \<Longrightarrow> (\<And>w. E w \<Longrightarrow> E' w) \<Longrightarrow>
    ensures P' m Q' E'"
  by (rule ensuresI) (blast dest: ensures_InrD ensures_InlD)+

lemma ensures_any: "ensures P m Q E \<Longrightarrow> (\<And>x w. Q x w \<Longrightarrow> R w) \<Longrightarrow> (\<And>w. E w \<Longrightarrow> R w) \<Longrightarrow> P w \<Longrightarrow> R (snd (m w))"
  by (cases "m w"; cases "fst (m w)") (auto dest: ensures_InrD ensures_InlD)

lemma ensures_keeps_to: "keeps P m \<Longrightarrow> (\<And>w. P w \<Longrightarrow> E w) \<Longrightarrow> ensures P m (\<lambda>_. P) E"
  by (rule ensures_conseq [OF ensures_keeps])

lemma ensures_bindE: "ensures P m Q E \<Longrightarrow> (\<And>x. ensures (Q x) (f x) R E) \<Longrightarrow> ensures P (bindE m f) R E"
  by (rule ensuresI) (auto simp: bindE_eq_Inr bindE_eq_Inl dest: ensures_InrD ensures_InlD)

lemma ensures_wrapE: "ensures P m Q E \<Longrightarrow> ensures P (wrapE msg m) Q E"
  by (rule ensuresI) (auto simp: wrapE_eq_Inr wrapE_eq_Inl dest: ensures_InrD ensures_InlD)

lemma ensures_recoverE: "ensures P m Q F \<Longrightarrow> (\<And>e. ensures F (h e) Q E) \<Longrightarrow> ensures P (recoverE m h) Q E"
  by (rule ensuresI) (auto simp: recoverE_eq_Inr recoverE_eq_Inl dest: ensures_InrD ensures_InlD)

lemma ensures_tryE:
  assumes "ensures P m Q F" "\<And>x w. Q x w \<Longrightarrow> R (Inr x) w" "\<And>e w. F w \<Longrightarrow> R (Inl e) w"
  shows "ensures P (tryE m) R E"
proof (rule ensuresI)
  fix w :: world and x w'
  assume "P w" "tryE m w = (Inr x, w')"
  then show "R x w'"
    using assms ensures_InrD [OF assms(1)] ensures_InlD [OF assms(1)]
    by (cases "m w"; cases "fst (m w)") (auto simp: tryE_def)
qed (simp add: tryE_eq)

lemma ensures_ignoreE: "ensures P m (\<lambda>_. Q) Q \<Longrightarrow> ensures P (ignoreE m) (\<lambda>_. Q) E"
  by (rule ensuresI) (auto simp: ignoreE_eq intro: ensures_any)

lemma ensures_finallyE:
  "ensures P m Q F \<Longrightarrow> (\<And>x. keeps (Q x) c) \<Longrightarrow> keeps F c \<Longrightarrow> ensures P (finallyE m c) Q F"
  by (rule ensuresI) (auto simp: finallyE_eq keeps_def dest: ensures_InrD ensures_InlD, metis ensures_InrD prod.collapse,
      metis ensures_InlD prod.collapse)

lemma ensures_returnE: "(\<And>w. P w \<Longrightarrow> Q x w) \<Longrightarrow> ensures P (returnE x) Q E"
  by (simp add: ensures_def)

lemma ensures_failE: "(\<And>w. P w \<Longrightarrow> E w) \<Longrightarrow> ensures P (failE e) Q E"
  by (simp add: ensures_def)

lemma ensures_liftE: "(\<And>w x. P w \<Longrightarrow> r = Inr x \<Longrightarrow> Q x w) \<Longrightarrow> (\<And>w. P w \<Longrightarrow> E w) \<Longrightarrow> ensures P (liftE r) Q E"
  by (cases r) (simp_all add: ensures_def)

lemma ensures_getE: "(\<And>w. P w \<Longrightarrow> Q (g w) w) \<Longrightarrow> ensures P (getE g) Q E"
  by (simp add: ensures_def)

lemma ensures_if: "(b \<Longrightarrow> ensures P m Q E) \<Longrightarrow> (\<not> b \<Longrightarrow> ensures P n Q E) \<Longrightarrow> ensures P (if b then m else n) Q E"
  by simp

lemma ensures_ex: "(\<And>i. ensures (P i) m Q E) \<Longrightarrow> ensures (\<lambda>w. \<exists>i. P i w) m Q E"
  by (rule ensuresI) (auto dest: ensures_InrD ensures_InlD)

lemma ensures_and: "ensures P m Q E \<Longrightarrow> ensures (\<lambda>w. P w \<and> A) m (\<lambda>x w. Q x w \<and> A) E"
  by (rule ensuresI) (auto dest: ensures_InrD ensures_InlD)

lemma ensures_False [simp]: "ensures (\<lambda>w. False) m Q E"
  by (simp add: ensures_def)

lemma ensures_pre: "(A \<Longrightarrow> ensures P m Q E) \<Longrightarrow> ensures (\<lambda>w. A \<and> P w) m Q E"
  by (auto simp: ensures_def)

text \<open>Steps that keep the precondition.\<close>

lemma ensures_step:
  "keeps P m \<Longrightarrow> (\<And>w. P w \<Longrightarrow> E w) \<Longrightarrow> (\<And>x. ensures P (f x) R E) \<Longrightarrow> ensures P (bindE m f) R E"
  by (rule ensures_bindE [OF ensures_keeps_to])

lemma ensures_step_try:
  "keeps P m \<Longrightarrow> (\<And>x. ensures P (f x) R E) \<Longrightarrow> ensures P (bindE (tryE m) f) R E"
  by (rule ensuresI) (auto simp: bindE_eq_Inr bindE_eq_Inl tryE_eq dest: keepsD ensures_InrD ensures_InlD)

lemma ensures_step_ignore:
  "keeps P m \<Longrightarrow> (\<And>x. ensures P (f x) R E) \<Longrightarrow> ensures P (bindE (ignoreE m) f) R E"
  by (rule ensuresI) (auto simp: bindE_eq_Inr bindE_eq_Inl ignoreE_eq dest: keepsD ensures_InrD ensures_InlD)

lemma ensures_step_lift:
  "(\<And>w. P w \<Longrightarrow> E w) \<Longrightarrow> (\<And>x. r = Inr x \<Longrightarrow> ensures P (f x) R E) \<Longrightarrow>
    ensures P (bindE (wrapE msg (liftE r)) f) R E"
  by (cases r) (auto simp: ensures_def bindE_def wrapE_def)

lemma ensures_sysI:
  assumes "ticks_blind P" "ticks_blind E" "\<And>w. P w \<Longrightarrow> E w" "ensures P f Q E"
  shows "ensures P (sys f) Q E"
proof (rule ensuresI)
  fix w :: world and x w'
  assume "P w" "sys f w = (Inr x, w')"
  then show "Q x w'" using sys_InrD assms(1) ensures_InrD [OF assms(4)] by (metis ticks_blind_def)
next
  fix w :: world and e w'
  assume P: "P w" and "sys f w = (Inl e, w')"
  then consider "w' = w\<lparr>ticks := Suc (ticks w)\<rparr>" | "f (w\<lparr>ticks := Suc (ticks w)\<rparr>) = (Inl e, w')"
    using sys_InlD by blast
  then show "E w'"
    using P assms(1-3) ensures_InlD [OF assms(4)] by cases (metis ticks_blind_def)+
qed

text \<open>
  A file lock around a program: what holds after the program must survive the unlocking, and
  a failure of the unlocking is a failure of the whole.
\<close>

lemma ensures_runUnlocking:
  assumes fn: "ensures P fn Q E" and QE: "\<And>x w. Q x w \<Longrightarrow> E w"
    and Q: "\<And>x. keeps (Q x) (flock_unlock l)" "\<And>x. keeps (Q x) (flock_close l)"
    and E: "keeps E (flock_unlock l)" "keeps E (flock_close l)"
  shows "ensures P (runUnlocking l fn) Q E"
proof (rule ensuresI)
  fix w :: world and x w'
  assume P: "P w" and run: "runUnlocking l fn w = (Inr x, w')"
  obtain r w1 where f: "fn w = (r, w1)" by (cases "fn w")
  obtain u w2 where u: "flock_unlock l w1 = (u, w2)" by (cases "flock_unlock l w1")
  obtain c w3 where c: "flock_close l w2 = (c, w3)" by (cases "flock_close l w2")
  from run f u c have "r = Inr x" "w' = w3"
    by (cases r; cases u; cases c; auto simp: runUnlocking_def bindE_def tryE_def wrapE_def err_of_def join_err_def Let_def)+
  with ensures_InrD [OF fn P] f keeps_eqD [OF Q(1) u] keeps_eqD [OF Q(2) c] show "Q x w'" by auto
next
  fix w :: world and e w'
  assume P: "P w" and run: "runUnlocking l fn w = (Inl e, w')"
  have "E (snd (fn w))"
    by (rule ensures_any [OF fn QE _ P])
  then have "E (snd (flock_close l (snd (flock_unlock l (snd (fn w))))))"
    using E by (simp add: keeps_def)
  moreover have "w' = snd (flock_close l (snd (flock_unlock l (snd (fn w)))))"
    using run by (auto simp: runUnlocking_def bindE_def tryE_def wrapE_def Let_def split: prod.splits sum.splits)
  ultimately show "E w'" by simp
qed

lemma ensures_withFileLock:
  assumes fn: "ensures P fn Q E" and QE: "\<And>x w. Q x w \<Longrightarrow> E w" and PE: "\<And>w. P w \<Longrightarrow> E w"
    and Q: "\<And>x. keeps (Q x) (flock_unlock l)" "\<And>x. keeps (Q x) (flock_close l)"
    and E: "keeps E (flock_unlock l)" "keeps E (flock_close l)" and P: "keeps P (flock_lock l)"
  shows "ensures P (withFileLock l fn) Q E"
  unfolding withFileLock_def
  by (rule ensures_bindE [where Q = "\<lambda>_. P"], rule ensures_recoverE [where F = E],
      rule ensures_keeps_to [OF P PE], assumption,
      rule ensures_bindE [where Q = "\<lambda>_. E"], rule ensures_ignoreE, rule ensures_keeps [OF E(2)],
      rule ensures_failE, assumption, rule ensures_runUnlocking [OF fn QE Q E])

lemma ensures_withOutputLock:
  assumes fn: "ensures P fn Q E" and QE: "\<And>x w. Q x w \<Longrightarrow> E w" and PE: "\<And>w. P w \<Longrightarrow> E w"
    and Q: "\<And>x l. keeps (Q x) (flock_unlock l)" "\<And>x l. keeps (Q x) (flock_close l)"
    and E: "\<And>l. keeps E (flock_unlock l)" "\<And>l. keeps E (flock_close l)"
    and P: "\<And>l. butlast l = stripesDir (versionDir st) \<Longrightarrow> keeps P (flock_lock l)" "\<And>p. keeps P (os_mkdir_all p)"
      "\<And>x. keeps P (modify_mem (\<lambda>m. m\<lparr>stripeDirOnce := x\<rparr>))"
  shows "ensures P (withOutputLock st h fn) Q E"
  unfolding withOutputLock_def
proof (rule ensures_bindE [where Q = "\<lambda>_. P"])
  show "ensures P (getE (\<lambda>w. stripeDirOnce (mem w))) (\<lambda>_. P) E" by (rule ensures_getE)
  fix once
  show "ensures P (bindE (case once of Some e \<Rightarrow> returnE e | None \<Rightarrow>
      bindE (tryE (wrapE ''create stripe dir'' (os_mkdir_all (stripesDir (versionDir st))))) (\<lambda>r.
      bindE (modify_mem (\<lambda>m. m\<lparr>stripeDirOnce := Some (err_of r)\<rparr>)) (\<lambda>_. returnE (err_of r))))
    (\<lambda>e. case e of Some e \<Rightarrow> failE e | None \<Rightarrow>
      withFileLock (stripesDir (versionDir st) @ [outputShard h @ ''.lock'']) fn)) Q E"
  proof (rule ensures_bindE [where Q = "\<lambda>_. P"])
    show "ensures P (case once of Some e \<Rightarrow> returnE e | None \<Rightarrow>
        bindE (tryE (wrapE ''create stripe dir'' (os_mkdir_all (stripesDir (versionDir st))))) (\<lambda>r.
        bindE (modify_mem (\<lambda>m. m\<lparr>stripeDirOnce := Some (err_of r)\<rparr>)) (\<lambda>_. returnE (err_of r)))) (\<lambda>_. P) E"
      by (rule ensures_keeps_to [OF _ PE]) (intro keeps_intros P, assumption)
    show "ensures P (case e of Some e \<Rightarrow> failE e | None \<Rightarrow>
        withFileLock (stripesDir (versionDir st) @ [outputShard h @ ''.lock'']) fn) Q E" for e
      by (cases e) (simp_all add: ensures_failE PE ensures_withFileLock [OF fn QE PE Q E P(1)])
  qed
qed

text \<open>What a program returns, for continuations that depend on it.\<close>

definition yields :: "'a io \<Rightarrow> ('a \<Rightarrow> bool) \<Rightarrow> bool" where
  "yields m A \<longleftrightarrow> (\<forall>w x w'. m w = (Inr x, w') \<longrightarrow> A x)"

lemma keeps_bind_yields:
  "yields m A \<Longrightarrow> keeps I m \<Longrightarrow> (\<And>x. A x \<Longrightarrow> keeps I (f x)) \<Longrightarrow> keeps I (bindE m f)"
  by (auto simp: keeps_def yields_def bindE_def split: prod.splits sum.splits) (metis snd_conv)+

lemma yields_bindE: "(\<And>x. yields (f x) A) \<Longrightarrow> yields (bindE m f) A"
  by (auto simp: yields_def bindE_eq_Inr)

lemma yields_returnE: "A x \<Longrightarrow> yields (returnE x) A"
  by (simp add: yields_def)

lemma yields_failE: "yields (failE e) A"
  by (simp add: yields_def)

lemma yields_if: "(b \<Longrightarrow> yields m A) \<Longrightarrow> (\<not> b \<Longrightarrow> yields n A) \<Longrightarrow> yields (if b then m else n) A"
  by simp

end
