(* ===== verification/Catalog_Frame.thy ===== *)
theory Catalog_Frame
  imports Catalog_Props
begin

text \<open>
  What catalog operations leave alone: everything but the tables. An invariant that does not
  look at the tables is kept by every one of them.
\<close>

definition db_blind :: "(world \<Rightarrow> bool) \<Rightarrow> bool" where
  "db_blind I \<longleftrightarrow> (\<forall>w n d. I (w\<lparr>ticks := n, db := d\<rparr>) = I w)"

lemma db_blindD:
  assumes "db_blind I"
  shows "I (w\<lparr>ticks := n, db := d\<rparr>) = I w" "I (w\<lparr>ticks := n\<rparr>) = I w" "I (w\<lparr>db := d\<rparr>) = I w"
proof -
  have "I (w\<lparr>ticks := n, db := db w\<rparr>) = I w" "I (w\<lparr>ticks := ticks w, db := d\<rparr>) = I w"
    using assms unfolding db_blind_def by blast+
  then show "I (w\<lparr>ticks := n\<rparr>) = I w" "I (w\<lparr>db := d\<rparr>) = I w" by simp_all
  show "I (w\<lparr>ticks := n, db := d\<rparr>) = I w" using assms unfolding db_blind_def by blast
qed

lemma keeps_blind_sql:
  assumes "db_blind I"
  shows "keeps I (sql q)" "keeps I (sql_read g)" "keeps I (sql_exec u)" "keeps I begin_tx"
    "keeps I (rollback_tx tx)" "keeps I (commit_tx tx)" "keeps I time_now"
  using db_blindD [OF assms]
  by (auto simp: keeps_def time_now_def rollback_tx_def commit_tx_def sql_def sql_read_def sql_exec_def
      begin_tx_def effect_def Let_def split: option.splits prod.splits)

lemma keeps_retry_from:
  assumes "keeps I m"
  shows "keeps I (retry_from n m)"
proof -
  have "I w \<Longrightarrow> I (snd (retry_from n fn w))" if "keeps I fn" for fn :: "'a io" and w :: world
    using that
  proof (induction n fn w rule: retry_from.induct)
    case (1 n fn w)
    obtain r w1 where f: "fn w = (r, w1)" by (cases "fn w")
    have w1: "I w1" by (rule keeps_eqD [OF 1(3) f 1(2)])
    show ?case
    proof (cases r)
      case (Inl e)
      show ?thesis
        using f Inl w1 1(1) [OF f [symmetric] Inl _ w1 1(3)] by (auto simp: retry_from.simps [of n fn w])
    qed (use f w1 in \<open>simp add: retry_from.simps [of n fn w]\<close>)
  qed
  with assms show ?thesis by (simp add: keeps_def)
qed

lemma keeps_retry [keeps_intros]: "keeps I m \<Longrightarrow> keeps I (retrySQLiteBusy m)"
  unfolding retrySQLiteBusy_def by (rule keeps_retry_from)

lemma keeps_blind_catalog:
  assumes I: "db_blind I"
  shows "keeps I (q_upsertEntry ent)" "keeps I (q_lookupEntry a)" "keeps I (q_deleteAction a)"
    "keeps I (q_touchAccessed accs outs)" "keeps I (q_dropAction a h)" "keeps I (q_evictOutput h t)"
    "keeps I q_compressedSize" "keeps I q_countRuns" "keeps I (q_deleteRun r)" "keeps I (q_listOtherRuns r)"
    "keeps I (q_registerRun r path t)" "keeps I (q_referencedOutputIDs n t)" "keeps I (q_updateRetainedType h kind)"
    "keeps I q_outputStats" "keeps I q_listOutputs"
  unfolding q_upsertEntry_def upsertEntryOnce_def tx_stmt_def q_lookupEntry_def q_deleteAction_def q_touchAccessed_def
    touchAll_def q_dropAction_def q_evictOutput_def q_compressedSize_def q_countRuns_def q_deleteRun_def
    q_listOtherRuns_def q_registerRun_def q_referencedOutputIDs_def q_updateRetainedType_def q_outputStats_def
    q_listOutputs_def Let_def
  by (intro keeps_intros keeps_blind_sql [OF I])+

end
