(* ===== verification/Runs.thy ===== *)
theory Runs
  imports Retained Triples Catalog_Frame
begin

text \<open>
  Runs (\<open>store.go\<close>): each helper has a directory of its own under \<open>live/\<close>, a lock file in it
  held for as long as the helper lives, and a row in the catalog. Opening a store makes all
  three, closing it takes them down, and what a killed helper left is reclaimed by whoever can
  take its lock.
\<close>

section \<open>Where run directories are\<close>

definition liveRunDirs :: "path \<Rightarrow> path list io" where
  "liveRunDirs root =
     bindE (tryE (os_read_dir root)) (\<lambda>r.
     case r of
       Inl e \<Rightarrow> if errors_is ErrNotExist e then returnE [] else failE (Wrap ''read live dir'' [e])
     | Inr items \<Rightarrow>
         let listed = filter (\<lambda>(p, n). n = DirN) items;
             visit = (\<lambda>(p, n). if has_prefix (last p) runDirPrefix then returnE [p]
               else bindE (tryE (os_read_dir p)) (\<lambda>r.
                 case r of
                   Inl e \<Rightarrow> if errors_is ErrNotExist e then returnE [] else failE (Wrap ''read live shard'' [e])
                 | Inr subs \<Rightarrow> returnE (map fst (filter (\<lambda>(q, m). m = DirN \<and> has_prefix (last q) runDirPrefix) subs))))
         in foldr (\<lambda>item rest. bindE (visit item) (\<lambda>ds. bindE rest (\<lambda>es. returnE (ds @ es)))) listed (returnE []))"

section \<open>Opening\<close>

text \<open>\<open>filepath.Rel\<close> of two absolute paths, and \<open>filepath.Join\<close> of one with a relative one.\<close>

definition path_rel :: "path \<Rightarrow> path \<Rightarrow> path" where
  "path_rel base target =
     (let c = longest_common_prefix base target; r = replicate (length base - length c) ''..'' @ drop (length c) target
      in if r = [] then [''.''] else r)"

definition path_join :: "path \<Rightarrow> path \<Rightarrow> path" where
  "path_join base rel =
     rev (fold (\<lambda>c acc. if c = ''..'' then tl acc else if c = ''.'' then acc else c # acc) rel (rev base))"

definition runLockPath :: "path \<Rightarrow> path" where
  "runLockPath d = d @ [runLockName]"

definition registerRun :: "store \<Rightarrow> unit io" where
  "registerRun st =
     bindE time_now (\<lambda>now.
     wrapE ''register run'' (q_registerRun (runID st) (path_rel (versionDir st) (runDir st)) (unixMillis now)))"

text \<open>\<open>prepare\<close>: preparing a statement is a round trip to the database.\<close>

definition q_prepare :: "unit io" where
  "q_prepare = forE [''prepare lookup statement'', ''prepare upsert statement'', ''prepare output upsert statement'',
     ''prepare touch statement'', ''prepare output touch statement''] (\<lambda>msg. wrapE msg (sql_read (\<lambda>_. ())))"

definition fresh_mem :: "int \<Rightarrow> store_mem" where
  "fresh_mem now = \<lparr>materialized = [], accessed = [], accessedOutputs = [], accessFlushed = now,
     installed = 0, stripeDirOnce = None\<rparr>"

text \<open>An error once the run's lock is taken gives everything back.\<close>

definition release_run :: "path \<Rightarrow> unit io" where
  "release_run rdir =
     bindE (ignoreE (flock_unlock (runLockPath rdir))) (\<lambda>_.
     bindE (ignoreE (flock_close (runLockPath rdir))) (\<lambda>_. ignoreE (os_remove_all rdir)))"

definition undoing :: "unit io \<Rightarrow> 'a io \<Rightarrow> 'a io" where
  "undoing undo m = recoverE m (\<lambda>e. bindE undo (\<lambda>_. failE e))"

definition newStoreLocked :: "config \<Rightarrow> path \<Rightarrow> path \<Rightarrow> path \<Rightarrow> path \<Rightarrow> store io" where
  "newStoreLocked c vdir blobs root lifecycle =
     bindE (wrapE ''create blobs dir'' (os_mkdir_all blobs)) (\<lambda>_.
     bindE (wrapE ''create live dir'' (os_mkdir_all root)) (\<lambda>_.
     bindE (wrapE ''create live run dir'' (os_mkdir_temp root runDirPrefix)) (\<lambda>made.
     let ident = last made; shard = root @ [liveShardName ident] in
     bindE (undoing (ignoreE (os_remove_all made)) (wrapE ''create live shard dir'' (os_mkdir_all shard))) (\<lambda>_.
     bindE (tryE (os_rename made (shard @ [ident]))) (\<lambda>moved.
     let rdir = (case moved of Inr _ \<Rightarrow> shard @ [ident] | Inl _ \<Rightarrow> made) in
     bindE (undoing (bindE (ignoreE (flock_close (runLockPath rdir))) (\<lambda>_. ignoreE (os_remove_all rdir)))
              (wrapE ''lock live run'' (flock_lock (runLockPath rdir)))) (\<lambda>_.
     undoing (release_run rdir)
       (bindE (openDB (dbPath vdir)) (\<lambda>_.
        bindE time_now (\<lambda>now.
        bindE (modify_mem (\<lambda>_. fresh_mem now)) (\<lambda>_.
        let st = \<lparr>cfg = c, versionDir = vdir, blobsDir = blobs, liveRoot = root,
                  lifecycleLockPath = lifecycle, runID = ident, runDir = rdir\<rparr> in
        bindE q_prepare (\<lambda>_.
        bindE (registerRun st) (\<lambda>_. returnE st))))))))))))"

section \<open>Reclaiming\<close>

definition tryReclaimRun :: "store \<Rightarrow> bytes \<Rightarrow> path \<Rightarrow> bool io" where
  "tryReclaimRun st ident relDir =
     (let rdir = path_join (versionDir st) relDir; lock = runLockPath rdir in
     bindE (tryE (os_stat rdir)) (\<lambda>r.
     case r of
       Inl e \<Rightarrow>
         if errors_is ErrNotExist e
         then bindE (wrapE ''delete missing-run record'' (q_deleteRun ident)) (\<lambda>_. returnE True)
         else failE (Wrap ''stat live run dir'' [e])
     | Inr _ \<Rightarrow>
         bindE (undoing (ignoreE (flock_close lock)) (wrapE ''try lock live run'' (flock_try True lock))) (\<lambda>locked.
         if \<not> locked then bindE (ignoreE (flock_close lock)) (\<lambda>_. returnE False)
         else
           bindE (undoing (bindE (ignoreE (flock_unlock lock)) (\<lambda>_. ignoreE (flock_close lock)))
                    (wrapE ''delete abandoned run record'' (q_deleteRun ident))) (\<lambda>_.
           bindE (undoing (ignoreE (flock_close lock)) (wrapE ''unlock abandoned live run'' (flock_unlock lock))) (\<lambda>_.
           bindE (wrapE ''close abandoned live run lock'' (flock_close lock)) (\<lambda>_.
           bindE (wrapE ''remove abandoned live run dir'' (os_remove_all rdir)) (\<lambda>_. returnE True)))))))"

fun reclaim_runs :: "store \<Rightarrow> catalogRun list \<Rightarrow> err option \<Rightarrow> unit io" where
  "reclaim_runs st [] errs = returnErr errs"
| "reclaim_runs st (run # rest) errs =
     bindE (tryE (tryReclaimRun st (cr_runID run) (cr_path run))) (\<lambda>r.
     reclaim_runs st rest (case r of Inl e \<Rightarrow> join_err errs (Some e) | Inr _ \<Rightarrow> errs))"

definition cleanupAbandonedRuns :: "store \<Rightarrow> unit io" where
  "cleanupAbandonedRuns st =
     bindE (wrapE ''query runs'' (q_listOtherRuns (runID st))) (\<lambda>others. reclaim_runs st others None)"

definition newStore :: "config \<Rightarrow> store io" where
  "newStore c =
     (case cachePaths c of (vdir, blobs, root, lifecycle) \<Rightarrow>
     bindE (wrapE ''create version dir'' (os_mkdir_all vdir)) (\<lambda>_.
     bindE (withFileLock lifecycle (newStoreLocked c vdir blobs root lifecycle)) (\<lambda>st.
     bindE (ignoreE (cleanupAbandonedRuns st)) (\<lambda>_. returnE st))))"

section \<open>Closing\<close>

text \<open>\<open>if e := m; e != nil { err = errors.Join(err, e) }\<close>.\<close>

definition joining :: "err option \<Rightarrow> unit io \<Rightarrow> err option io" where
  "joining errs m = bindE (tryE m) (\<lambda>r. returnE (case r of Inl e \<Rightarrow> join_err errs (Some e) | Inr _ \<Rightarrow> errs))"

definition unregisterRun :: "store \<Rightarrow> unit io" where
  "unregisterRun st =
     (let lock = runLockPath (runDir st) in
     bindE (prepareLiveRunForClose st) (\<lambda>(retained, prepareErr).
     bindE (joining (case prepareErr of None \<Rightarrow> None | Some e \<Rightarrow> join_err None (Some e))
              (wrapE ''delete run record'' (q_deleteRun (runID st)))) (\<lambda>e1.
     bindE (if retained
            then bindE time_now (\<lambda>now. joining e1 (wrapE ''timestamp retained live run'' (os_chtimes lock now)))
            else returnE e1) (\<lambda>e2.
     bindE (joining e2 (wrapE ''unlock live run'' (flock_unlock lock))) (\<lambda>e3.
     bindE (joining e3 (wrapE ''close live run lock'' (flock_close lock))) (\<lambda>e4.
     bindE (if retained then returnE e4
            else joining e4 (wrapE ''remove live run dir'' (os_remove_all (runDir st)))) (\<lambda>e5.
     returnErr e5)))))))"

end
