(* ===== verification/Maintenance.thy ===== *)
theory Maintenance
  imports Runs
begin

text \<open>
  Maintenance (\<open>cache.go\<close>): what runs when a helper exits or on request. Stamps say when a pass
  is due; one lock keeps two processes from scanning at once. The sweep reclaims run
  directories and rows past their age and collects orphans; eviction brings the cache within
  its budget; retained files expire only while no build is registered.
\<close>

section \<open>Stamps and cutoffs\<close>

text \<open>Durations are \<open>int64\<close> nanoseconds and wrap; \<open>now.Add\<close> does not at any time in use.\<close>

definition trimCutoff :: "int \<Rightarrow> int \<Rightarrow> int" where
  "trimCutoff age now = now + i64 (i64 (- age) - mtimeInterval)"

definition planOldEntries :: "store \<Rightarrow> int \<Rightarrow> int" where
  "planOldEntries st now = (if maxAge (cfg st) \<le> 0 then 0 else unixMillis (trimCutoff (maxAge (cfg st)) now))"

definition pruneOldEntries :: "store \<Rightarrow> int \<Rightarrow> unit io" where
  "pruneOldEntries st cutoff =
     (if cutoff = 0 then returnE ()
      else bindE (wrapE ''prune old entries'' (deleteAccessedBefore cutoff)) (\<lambda>_. returnE ()))"

definition stamp_due :: "path \<Rightarrow> int \<Rightarrow> bool io" where
  "stamp_due stamp now =
     bindE (tryE (os_stat stamp)) (\<lambda>r.
     returnE (case r of Inl _ \<Rightarrow> True
              | Inr info \<Rightarrow> (let age = time_sub now (fi_mtime info) in pruneInterval \<le> age \<or> age < 0)))"

definition sweepDue :: "store \<Rightarrow> int \<Rightarrow> bool io" where
  "sweepDue st now = stamp_due (sweepStampPath (versionDir st)) now"

definition retainedExpiryDue :: "store \<Rightarrow> int \<Rightarrow> bool io" where
  "retainedExpiryDue st now = stamp_due (retainedStampPath (versionDir st)) now"

definition pruneDue :: "store \<Rightarrow> int \<Rightarrow> bool io" where
  "pruneDue st now =
     bindE (getE (\<lambda>w. 0 < maxSize (cfg st) \<and> maxSize (cfg st) sdiv pruneOvershootDivisor < installed (mem w))) (\<lambda>over.
     if over then returnE True else stamp_due (pruneStampPath (versionDir st)) now)"

definition markSwept :: "store \<Rightarrow> unit io" where
  "markSwept st = wrapE ''write sweep stamp'' (os_write_file (sweepStampPath (versionDir st)) [])"

definition markRetainedExpired :: "store \<Rightarrow> unit io" where
  "markRetainedExpired st = wrapE ''write retained-expiry stamp'' (os_write_file (retainedStampPath (versionDir st)) [])"

definition markPruned :: "store \<Rightarrow> unit io" where
  "markPruned st =
     bindE (wrapE ''write prune stamp'' (os_write_file (pruneStampPath (versionDir st)) [])) (\<lambda>_.
     modify_mem (\<lambda>m. m\<lparr>installed := 0\<rparr>))"

definition clearMaintenanceStamps :: "path \<Rightarrow> unit io" where
  "clearMaintenanceStamps vdir =
     forE [pruneStampPath vdir, sweepStampPath vdir, retainedStampPath vdir]
       (remove_if_present ''clear maintenance stamp'')"

section \<open>Live runs\<close>

definition retainedLiveRunExpired :: "path \<Rightarrow> int \<Rightarrow> bool io" where
  "retainedLiveRunExpired rdir cutoff =
     bindE (tryE (os_stat (runLockPath rdir))) (\<lambda>r.
     case r of
       Inl e \<Rightarrow> if errors_is ErrNotExist e then returnE False else failE (Wrap ''stat retained live run'' [e])
     | Inr info \<Rightarrow> returnE (fi_mtime info < cutoff))"

definition liveRunExpiredIfUnlocked :: "path \<Rightarrow> int \<Rightarrow> bool io" where
  "liveRunExpiredIfUnlocked rdir cutoff =
     (let lock = runLockPath rdir in
     bindE (tryE (flock_try False lock)) (\<lambda>r.
     case r of
       Inl e \<Rightarrow>
         bindE (ignoreE (flock_close lock)) (\<lambda>_.
         if errors_is ErrNotExist e then returnE False else failE (Wrap ''try lock retained live run'' [e]))
     | Inr False \<Rightarrow> bindE (ignoreE (flock_close lock)) (\<lambda>_. returnE False)
     | Inr True \<Rightarrow>
         bindE (tryE (retainedLiveRunExpired rdir cutoff)) (\<lambda>expired.
         bindE (tryE (flock_unlock lock)) (\<lambda>unlockErr.
         bindE (tryE (flock_close lock)) (\<lambda>closeErr.
         bindE (liftE expired) (\<lambda>x.
         bindE (wrapE ''unlock retained live run'' (liftE unlockErr)) (\<lambda>_.
         bindE (wrapE ''close retained live run lock'' (liftE closeErr)) (\<lambda>_. returnE x))))))))"

definition sweepLiveRuns :: "store \<Rightarrow> int \<Rightarrow> unit io" where
  "sweepLiveRuns st now =
     (if retainedAge (cfg st) \<le> 0 then returnE ()
      else
        bindE (liveRunDirs (liveRoot st)) (\<lambda>ds.
        let cutoff = trimCutoff (retainedAge (cfg st)) now in
        forE ds (\<lambda>rdir.
          bindE (liveRunExpiredIfUnlocked rdir cutoff) (\<lambda>expired.
          if \<not> expired then returnE ()
          else wrapE ''remove old retained live run'' (os_remove_all rdir)))))"

section \<open>Retained files\<close>

definition planOldRetainedFiles :: "store \<Rightarrow> int \<Rightarrow> path list io" where
  "planOldRetainedFiles st now =
     (if retainedAge (cfg st) \<le> 0 then returnE []
      else
        bindE (walk_existing (retainedRoot (versionDir st))) (\<lambda>visited.
        let cutoff = trimCutoff (retainedAge (cfg st)) now;
            wanted = filter (\<lambda>(p, n). n \<noteq> DirN \<and> (has_suffix (last p) ''.a'' \<or> has_suffix (last p) ''.go'')) visited
        in foldr (\<lambda>(p, n) rest.
             bindE (tryE (os_stat p)) (\<lambda>r.
             case r of
               Inl e \<Rightarrow> if errors_is ErrNotExist e then rest else failE (Wrap ''stat retained file'' [e])
             | Inr info \<Rightarrow> bindE rest (\<lambda>ps. returnE (if fi_mtime info < cutoff then p # ps else ps))))
           wanted (returnE [])))"

definition removeExpiredRetainedFiles :: "path list \<Rightarrow> int \<Rightarrow> unit io" where
  "removeExpiredRetainedFiles paths cutoff =
     forE paths (\<lambda>p.
       bindE (tryE (os_stat p)) (\<lambda>r.
       case r of
         Inl e \<Rightarrow> if errors_is ErrNotExist e then returnE () else failE (Wrap ''stat retained file'' [e])
       | Inr info \<Rightarrow>
           if \<not> fi_mtime info < cutoff then returnE ()
           else remove_if_present ''remove old retained file'' p))"

text \<open>\<open>checkpointWAL\<close> changes no table.\<close>

definition checkpointWAL :: "unit io" where
  "checkpointWAL = ignoreE (sql_read (\<lambda>_. ()))"

definition countActive :: "int io" where
  "countActive = wrapE ''count active runs'' q_countRuns"

definition cacheIdle :: "store \<Rightarrow> bool io" where
  "cacheIdle st =
     bindE (withFileLockIfFree (lifecycleLockPath st)
              (bindE (ignoreE (cleanupAbandonedRuns st)) (\<lambda>_.
               bindE countActive (\<lambda>active. returnE (active = 0))))) (\<lambda>r.
     returnE (r = Some True))"

definition expireRetainedWhenIdle :: "store \<Rightarrow> int \<Rightarrow> unit io" where
  "expireRetainedWhenIdle st now =
     bindE (cacheIdle st) (\<lambda>idle.
     if \<not> idle then returnE ()
     else
       bindE (planOldRetainedFiles st now) (\<lambda>expired.
       bindE (withFileLockIfFree (lifecycleLockPath st)
                (bindE countActive (\<lambda>active.
                 if 0 < active then returnE ()
                 else
                   bindE (removeExpiredRetainedFiles expired (trimCutoff (retainedAge (cfg st)) now)) (\<lambda>_.
                   bindE checkpointWAL (\<lambda>_. markRetainedExpired st))))) (\<lambda>_.
       returnE ())))"

section \<open>The sweep and the scan\<close>

definition sweepUnlocked :: "store \<Rightarrow> int \<Rightarrow> unit io" where
  "sweepUnlocked st now =
     bindE (sweepLiveRuns st now) (\<lambda>_.
     bindE (pruneOldEntries st (planOldEntries st now)) (\<lambda>_.
     bindE (planOrphans st True keepEveryOutput) (\<lambda>orphans.
     bindE (removeOrphans st orphans (now - orphanGrace)) (\<lambda>_.
     bindE (removeStalePendingBlobs st now) (\<lambda>_.
     bindE (removeEmptyDirs (blobsDir st)) (\<lambda>_.
     removeEmptyDirs (retainedRoot (versionDir st))))))))"

record prunePlan =
  entryCutoff :: int
  blobs :: "pruneCandidate list"

definition planPrune :: "store \<Rightarrow> int \<Rightarrow> prunePlan io" where
  "planPrune st now =
     (let cutoff = planOldEntries st now in
     bindE (planToMaxSize st cutoff) (\<lambda>bs. returnE \<lparr>entryCutoff = cutoff, blobs = bs\<rparr>))"

definition applyPrune :: "store \<Rightarrow> prunePlan \<Rightarrow> unit io" where
  "applyPrune st plan =
     bindE time_now (\<lambda>now.
     bindE (pruneDue st now) (\<lambda>due.
     if \<not> due then returnE ()
     else
       bindE (evictToMaxSize st (blobs plan)) (\<lambda>evicted.
       bindE time_now (\<lambda>later.
       bindE (removeOrphans st (addRetainedCandidates st [] evicted) (later - orphanGrace)) (\<lambda>_.
       markPruned st)))))"

definition scan :: "store \<Rightarrow> unit io" where
  "scan st = bindE time_now (\<lambda>now. bindE (planPrune st now) (applyPrune st))"

definition prune :: "store \<Rightarrow> unit io" where
  "prune st =
     bindE time_now (\<lambda>now.
     bindE (sweepDue st now) (\<lambda>sweep_due.
     bindE (pruneDue st now) (\<lambda>prune_due.
     bindE (retainedExpiryDue st now) (\<lambda>retained_due.
     if \<not> sweep_due \<and> \<not> prune_due \<and> \<not> retained_due then returnE ()
     else
       bindE (withFileLockIfFree (maintenanceLockPath (versionDir st))
                (bindE (if sweep_due then bindE (sweepUnlocked st now) (\<lambda>_. markSwept st) else returnE ()) (\<lambda>_.
                 bindE (if retained_due then ignoreE (expireRetainedWhenIdle st now) else returnE ()) (\<lambda>_.
                 if \<not> prune_due then returnE () else scan st)))) (\<lambda>_.
       returnE ())))))"

text \<open>
  The prune command; its result is the number of builds it reports as still using the cache.
\<close>

definition bare_store :: "config \<Rightarrow> store" where
  "bare_store c = (case cachePaths c of (vdir, bdir, root, lifecycle) \<Rightarrow>
     \<lparr>cfg = c, versionDir = vdir, blobsDir = bdir, liveRoot = root, lifecycleLockPath = lifecycle,
      runID = [], runDir = []\<rparr>)"

definition pruneCache :: "config \<Rightarrow> int option io" where
  "pruneCache c =
     (let st = bare_store c; path = dbPath (versionDir st) in
     bindE (regularFile path) (\<lambda>present.
     if \<not> present then returnE None
     else
       bindE (withFileLock (lifecycleLockPath st) (openDB path)) (\<lambda>_.
       bindE (modify_mem (\<lambda>_. fresh_mem 0)) (\<lambda>_.
       bindE (ignoreE (cleanupAbandonedRuns st)) (\<lambda>_.
       bindE countActive (\<lambda>active.
       bindE (clearMaintenanceStamps (versionDir st)) (\<lambda>_.
       bindE (prune st) (\<lambda>_. returnE (if 0 < active then Some active else None)))))))))"

text \<open>Closing a store: nothing it does can fail the close.\<close>

definition close :: "store \<Rightarrow> unit io" where
  "close st =
     bindE (ignoreE flushAccessTimes) (\<lambda>_.
     bindE (ignoreE (unregisterRun st)) (\<lambda>_.
     ignoreE (prune st)))"

section \<open>Clean\<close>

fun remove_unused :: "path list \<Rightarrow> bool \<Rightarrow> bool io" where
  "remove_unused [] active = returnE active"
| "remove_unused (rdir # ds) active =
     (let lock = runLockPath rdir in
     bindE (undoing (ignoreE (flock_close lock)) (wrapE ''try lock live run'' (flock_try True lock))) (\<lambda>locked.
     if \<not> locked then bindE (ignoreE (flock_close lock)) (\<lambda>_. remove_unused ds True)
     else
       bindE (undoing (ignoreE (flock_close lock)) (wrapE ''unlock unused live run'' (flock_unlock lock))) (\<lambda>_.
       bindE (wrapE ''close unused live run lock'' (flock_close lock)) (\<lambda>_.
       bindE (wrapE ''remove unused live run dir'' (os_remove_all rdir)) (\<lambda>_.
       remove_unused ds active)))))"

definition removeUnusedLiveDirs :: "store \<Rightarrow> bool io" where
  "removeUnusedLiveDirs st = bindE (liveRunDirs (liveRoot st)) (\<lambda>ds. remove_unused ds False)"

text \<open>
  \<open>cleanLocked\<close>, with the catalog opened when there is one. Closing the database handle is
  not modelled.
\<close>

definition clean_retained :: "store \<Rightarrow> int io" where
  "clean_retained st =
     bindE (planOrphans st False keepEveryOutput) (\<lambda>orphans.
     bindE time_now (\<lambda>now.
     bindE (removeOrphans st orphans now) (\<lambda>_.
     bindE (removeEmptyDirs (retainedRoot (versionDir st))) (\<lambda>_. countActive))))"

definition clean_all :: "store \<Rightarrow> unit io" where
  "clean_all st =
     (let db_path = dbPath (versionDir st); with_suffix = (\<lambda>s. butlast db_path @ [last db_path @ s]) in
     bindE (wrapE ''remove blobs dir'' (os_remove_all (blobsDir st))) (\<lambda>_.
     bindE (wrapE ''remove live dir'' (os_remove_all (liveRoot st))) (\<lambda>_.
     bindE (wrapE ''remove retained dir'' (os_remove_all (retainedRoot (versionDir st)))) (\<lambda>_.
     bindE (forE [db_path, with_suffix ''-wal'', with_suffix ''-shm''] (remove_if_present ''remove catalog file'')) (\<lambda>_.
     clearMaintenanceStamps (versionDir st))))))"

definition cleanLocked :: "store \<Rightarrow> unit io" where
  "cleanLocked st =
     bindE (regularFile (dbPath (versionDir st))) (\<lambda>has_db.
     bindE (if has_db then bindE (openDB (dbPath (versionDir st))) (\<lambda>_. cleanupAbandonedRuns st) else returnE ()) (\<lambda>_.
     bindE (removeUnusedLiveDirs st) (\<lambda>activeLive.
     bindE (if has_db then clean_retained st else returnE 0) (\<lambda>activeRuns.
     if activeLive \<or> 0 < activeRuns then returnE ()
     else clean_all st))))"

definition cleanCache :: "config \<Rightarrow> unit io" where
  "cleanCache c =
     (let st = bare_store c in
     bindE (tryE (os_stat (versionDir st))) (\<lambda>r.
     case r of
       Inl e \<Rightarrow> if errors_is ErrNotExist e then returnE () else failE (Wrap ''stat cache version dir'' [e])
     | Inr _ \<Rightarrow>
         bindE (modify_mem (\<lambda>_. fresh_mem 0)) (\<lambda>_.
         withFileLock (lifecycleLockPath st) (cleanLocked st))))"

end
