(* ===== verification/Content.thy ===== *)
theory Content
  imports Builds Triples Catalog_Frame Eviction
begin

text \<open>
  What the store serves. Fix what every output's content is, \<open>C\<close>: the go command derives an
  OutputID from the content, so this is a function. \<open>sound\<close> says that every installed blob
  decompresses to the content of the output it is named after and that every materialized
  live file holds the content of its output; \<open>sound_blobs\<close> takes what is known of the blobs as a
  parameter, so that they may also be damaged. Puts and gets keep it whatever fails, so a get
  never hands out anything else.
\<close>

section \<open>Soundness of the files\<close>

definition layout :: "store \<Rightarrow> bool" where
  "layout st \<longleftrightarrow> blobsDir st = versionDir st @ [''blobs''] \<and> liveRoot st = versionDir st @ [''live''] \<and>
     (\<exists>sub. runDir st = liveRoot st @ sub)"

definition is_blob :: "store \<Rightarrow> path \<Rightarrow> bool" where
  "is_blob st p \<longleftrightarrow> (\<exists>k. p = blobPath (blobsDir st) (hex_encode k))"

text \<open>
  What is known of the data of a blob named after the output \<open>k\<close> is a parameter, \<open>B\<close>: that it
  decompresses to the output's content, or only that damage to it shows.
\<close>

definition sound_blobs :: "(bytes \<Rightarrow> bytes \<Rightarrow> bool) \<Rightarrow> (bytes \<Rightarrow> bytes) \<Rightarrow> store \<Rightarrow> world \<Rightarrow> bool" where
  "sound_blobs B C st w \<longleftrightarrow>
     (\<forall>p i. node_at w p = Some (FileN i) \<longrightarrow> i < next_ino w) \<and>
     (\<forall>k i. node_at w (blobPath (blobsDir st) (hex_encode k)) = Some (FileN i) \<longrightarrow> B k (ino_data (inodes w i))) \<and>
     (\<forall>h p. map_of (materialized (mem w)) h = Some p \<longrightarrow> prefix (runDir st) p \<and>
        (\<exists>k i. h = hex_encode k \<and> node_at w p = Some (FileN i) \<and> ino_data (inodes w i) = C k))"

definition intact :: "codec \<Rightarrow> (bytes \<Rightarrow> bytes) \<Rightarrow> bytes \<Rightarrow> bytes \<Rightarrow> bool" where
  "intact cd C k data \<longleftrightarrow> decompress cd data = (C k, None)"

text \<open>
  Damage shows when a frame that decompresses without an error to as many bytes as the output
  has is a frame of the output: this is all a damaged, truncated or foreign blob needs.
\<close>

definition detectable :: "codec \<Rightarrow> (bytes \<Rightarrow> bytes) \<Rightarrow> bytes \<Rightarrow> bytes \<Rightarrow> bool" where
  "detectable cd C k data \<longleftrightarrow> (\<forall>x. decompress cd data = (x, None) \<longrightarrow> length x = length (C k) \<longrightarrow> x = C k)"

definition sound :: "codec \<Rightarrow> (bytes \<Rightarrow> bytes) \<Rightarrow> store \<Rightarrow> world \<Rightarrow> bool" where
  "sound cd C = sound_blobs (intact cd C) C"

text \<open>What makes a decompressed blob trusted: it ended without an error and has the expected size.\<close>

definition reads_back :: "codec \<Rightarrow> (bytes \<Rightarrow> bytes \<Rightarrow> bool) \<Rightarrow> (bytes \<Rightarrow> bytes) \<Rightarrow> int \<Rightarrow> bytes \<Rightarrow> bool" where
  "reads_back cd B C n k \<longleftrightarrow>
     (\<forall>data x. B k data \<longrightarrow> decompress cd data = (x, None) \<longrightarrow> int (length x) = n \<longrightarrow> x = C k)"

lemma reads_back_intact [simp]: "reads_back cd (intact cd C) C n k"
  by (simp add: reads_back_def intact_def)

lemma reads_back_detectable: "n = int (length (C k)) \<Longrightarrow> reads_back cd (detectable cd C) C n k"
  by (simp add: reads_back_def detectable_def)

text \<open>
  The files an operation is working on: each is its own (no other name leads to its inode, no
  blob or materialized file has its path), with the data it holds so far, or just a path
  nobody relies on.
\<close>

type_synonym working = "(path \<times> (nat \<times> bytes) option) list"

definition unclaimed :: "store \<Rightarrow> path \<Rightarrow> world \<Rightarrow> bool" where
  "unclaimed st p w \<longleftrightarrow> p \<noteq> [] \<and> \<not> is_blob st p \<and> (\<forall>h. map_of (materialized (mem w)) h \<noteq> Some p)"

definition own :: "path \<Rightarrow> nat \<Rightarrow> bytes \<Rightarrow> world \<Rightarrow> bool" where
  "own p i d w \<longleftrightarrow> node_at w p = Some (FileN i) \<and> ino_data (inodes w i) = d \<and>
     (\<forall>q. node_at w q = Some (FileN i) \<longrightarrow> q = p)"

definition working_ok :: "store \<Rightarrow> working \<Rightarrow> world \<Rightarrow> bool" where
  "working_ok st S w \<longleftrightarrow> distinct (map fst S) \<and>
     (\<forall>(p, x)\<in>set S. unclaimed st p w \<and> (case x of None \<Rightarrow> True | Some (i, d) \<Rightarrow> own p i d w))"

definition track :: "(bytes \<Rightarrow> bytes \<Rightarrow> bool) \<Rightarrow> (bytes \<Rightarrow> bytes) \<Rightarrow> store \<Rightarrow> working \<Rightarrow> world \<Rightarrow> bool" where
  "track B C st S w \<longleftrightarrow> sound_blobs B C st w \<and> working_ok st S w"

lemma trackI:
  assumes "\<And>p i. node_at w p = Some (FileN i) \<Longrightarrow> i < next_ino w"
    and "\<And>k i. node_at w (blobPath (blobsDir st) (hex_encode k)) = Some (FileN i) \<Longrightarrow>
      B k (ino_data (inodes w i))"
    and "\<And>h p. map_of (materialized (mem w)) h = Some p \<Longrightarrow> prefix (runDir st) p"
    and "\<And>h p. map_of (materialized (mem w)) h = Some p \<Longrightarrow>
      \<exists>k i. h = hex_encode k \<and> node_at w p = Some (FileN i) \<and> ino_data (inodes w i) = C k"
    and "distinct (map fst S)" "\<And>p x. (p, x) \<in> set S \<Longrightarrow> unclaimed st p w"
    and "\<And>p i d. (p, Some (i, d)) \<in> set S \<Longrightarrow> own p i d w"
  shows "track B C st S w"
proof -
  have "case x of None \<Rightarrow> True | Some (i, d) \<Rightarrow> own p i d w" if "(p, x) \<in> set S" for p x
    using assms(7) that by (auto split: option.splits)
  with assms show ?thesis unfolding track_def sound_blobs_def working_ok_def by blast
qed

lemma trackD:
  assumes "track B C st S w"
  shows "node_at w p = Some (FileN i) \<Longrightarrow> i < next_ino w"
    and "node_at w (blobPath (blobsDir st) (hex_encode k)) = Some (FileN i) \<Longrightarrow>
      B k (ino_data (inodes w i))"
    and "map_of (materialized (mem w)) h = Some p \<Longrightarrow> prefix (runDir st) p"
    and "map_of (materialized (mem w)) h = Some p \<Longrightarrow>
      \<exists>k i. h = hex_encode k \<and> node_at w p = Some (FileN i) \<and> ino_data (inodes w i) = C k"
    and "distinct (map fst S)" "(p, x) \<in> set S \<Longrightarrow> unclaimed st p w"
    and "(p, Some (i, d)) \<in> set S \<Longrightarrow> own p i d w"
  using assms unfolding track_def sound_blobs_def working_ok_def by (blast | auto split: prod.splits option.splits)+

lemma materialized_node: "track B C st S w \<Longrightarrow> map_of (materialized (mem w)) h = Some p \<Longrightarrow> node_at w p \<noteq> None"
  using trackD(4) by fastforce

lemma working_node: "track B C st S w \<Longrightarrow> (p, Some (i, d)) \<in> set S \<Longrightarrow> node_at w p = Some (FileN i)"
  using trackD(7) by (fastforce simp: own_def)

lemma track_Nil [simp]: "track B C st [] w = sound_blobs B C st w"
  by (simp add: track_def working_ok_def)

lemma track_tl: "track B C st (x # S) w \<Longrightarrow> track B C st S w"
  by (auto simp: track_def working_ok_def)

lemma track_forget: "track B C st ((p, x) # S) w \<Longrightarrow> track B C st ((p, None) # S) w"
  by (auto simp: track_def working_ok_def)

lemma track_forget2: "track B C st (x # (p, y) # S) w \<Longrightarrow> track B C st (x # (p, None) # S) w"
  by (auto simp: track_def working_ok_def)

lemma track_swap: "track B C st (x # y # S) w \<longleftrightarrow> track B C st (y # x # S) w"
  by (auto simp: track_def working_ok_def)

section \<open>Effects that touch no tracked file\<close>

lemma track_cong:
  assumes "node_at w' = node_at w" "\<And>i. ino_data (inodes w' i) = ino_data (inodes w i)" "next_ino w' = next_ino w"
    "materialized (mem w') = materialized (mem w)" "track B C st S w"
  shows "track B C st S w'"
  by (rule trackI) (use assms(1-4) trackD [OF assms(5)] in \<open>auto simp: unclaimed_def own_def\<close>)

lemma track_fields [simp]:
  "track B C st S (w\<lparr>ticks := n\<rparr>) = track B C st S w" "track B C st S (w\<lparr>db := d\<rparr>) = track B C st S w"
  "track B C st S (w\<lparr>held := h\<rparr>) = track B C st S w"
  by (rule iffI; erule track_cong [rotated -1]; simp)+

lemma ticks_blind_track [simp]: "ticks_blind (track B C st S)"
  by (simp add: ticks_blind_def)

lemma keeps_track_sql [keeps_intros]:
  "keeps (track B C st S) (sql q)" "keeps (track B C st S) (sql_read g)" "keeps (track B C st S) (sql_exec u)"
  "keeps (track B C st S) begin_tx" "keeps (track B C st S) (rollback_tx tx)" "keeps (track B C st S) (commit_tx tx)"
  "keeps (track B C st S) time_now"
  by (auto simp: keeps_def time_now_def rollback_tx_def commit_tx_def sql_def sql_read_def
      sql_exec_def begin_tx_def effect_def Let_def split: option.splits prod.splits)

lemma keeps_track_mem:
  assumes "\<And>m. materialized (h m) = materialized m"
  shows "keeps (track B C st S) (modify_mem h)"
  unfolding keeps_def modify_mem_def snd_conv
  by (intro allI impI, erule track_cong [rotated -1]) (simp_all add: assms)

lemma keeps_track_files [keeps_intros]:
  "keeps (track B C st S) (os_stat p)" "keeps (track B C st S) (os_open p)"
  "keeps (track B C st S) (file_read i)" "keeps (track B C st S) (file_close i)"
  "keeps (track B C st S) (os_read_dir p)" "keeps (track B C st S) (walk_dir p)"
  unfolding os_stat_def os_open_def file_read_def file_close_def os_read_dir_def walk_dir_def
  by (rule keeps_sys; auto simp: keeps_def split: option.splits node.splits)+

text \<open>Nothing tracked changes when a free name becomes a directory or an empty new file.\<close>

lemma track_new_dir:
  assumes "track B C st S w" "node_at w p = None"
  shows "track B C st S (set_node p DirN w)"
proof -
  have p: "p \<noteq> []" using assms(2) by auto
  note d = trackD [OF assms(1)]
  let ?w = "set_node p DirN w"
  have node: "node_at ?w q = (if q = p then Some DirN else node_at w q)" for q using p by simp
  have old: "q \<noteq> p" if "node_at w q = Some (FileN i)" for q i using that assms(2) by auto
  show ?thesis
  proof (rule trackI)
    show "i < next_ino ?w" if "node_at ?w q = Some (FileN i)" for q i
      using that d(1) [of q i] by (simp add: node split: if_splits)
    show "B k (ino_data (inodes ?w i))"
      if "node_at ?w (blobPath (blobsDir st) (hex_encode k)) = Some (FileN i)" for k i
      using that d(2) [of k i] by (simp add: node split: if_splits)
    show "\<exists>k i. h = hex_encode k \<and> node_at ?w q = Some (FileN i) \<and> ino_data (inodes ?w i) = C k"
      if "map_of (materialized (mem ?w)) h = Some q" for h q
    proof -
      from that d(4) [of h q] obtain k i where "h = hex_encode k" "node_at w q = Some (FileN i)" "ino_data (inodes w i) = C k"
        by auto
      with old show ?thesis by (auto simp: node)
    qed
    show "own q i c ?w" if "(q, Some (i, c)) \<in> set S" for q i c
      using d(7) [OF that] old [of q i] by (simp add: own_def node)
    show "unclaimed st q ?w" if "(q, x) \<in> set S" for q x
      using d(6) [OF that] by (simp add: unclaimed_def)
  qed (use d(3,5) in simp_all)
qed

lemma keeps_track_mkdir [keeps_intros]: "keeps (track B C st S) (os_mkdir_all p)"
proof -
  have "track B C st S w \<Longrightarrow> track B C st S (snd (mkdir_chain pre cs w))" for pre cs and w :: world
    by (induction cs arbitrary: pre w) (auto intro: track_new_dir split: option.splits node.splits)
  then show ?thesis unfolding os_mkdir_all_def by (intro keeps_sys) (simp_all add: keeps_def)
qed

lemma track_inode_mtime:
  assumes "track B C st S w"
  shows "track B C st S (w\<lparr>inodes := (inodes w)(i := (inodes w i)\<lparr>ino_mtime := t\<rparr>)\<rparr>)"
  by (rule track_cong [OF _ _ _ _ assms]) simp_all

lemma keeps_track_chtimes [keeps_intros]: "keeps (track B C st S) (os_chtimes p t)"
  unfolding os_chtimes_def
  by (intro keeps_sys) (auto simp: keeps_def track_inode_mtime split: option.splits node.splits)

lemma track_new_file:
  assumes t: "track B C st S w" and free: "node_at w p = None" and p: "p \<noteq> []" "\<not> is_blob st p"
    and S: "\<And>x. (p, x) \<notin> set S"
  shows "track B C st ((p, Some (next_ino w, [])) # S) (snd (new_file p w))"
proof -
  note d = trackD [OF t] materialized_node [OF t] working_node [OF t]
  let ?w = "snd (new_file p w)" and ?n = "next_ino w"
  have node: "node_at ?w q = (if q = p then Some (FileN ?n) else node_at w q)" for q
    using p(1) by (simp add: new_file_def Let_def node_at_def set_node_def update_conv')
  have data: "ino_data (inodes ?w i) = (if i = ?n then [] else ino_data (inodes w i))" for i
    by (simp add: new_file_def Let_def)
  have nxt: "next_ino ?w = Suc ?n" by (simp add: new_file_def Let_def)
  have fresh: "node_at w q \<noteq> Some (FileN ?n)" for q using d(1) by fastforce
  have blob: "blobPath (blobsDir st) (hex_encode k) \<noteq> p" for k using p(2) by (auto simp: is_blob_def)
  show ?thesis
  proof (rule trackI)
    show "i < next_ino ?w" if "node_at ?w q = Some (FileN i)" for q i
      using that d(1) [of q i] by (auto simp: node nxt less_Suc_eq split: if_splits)
    show "B k (ino_data (inodes ?w i))"
      if "node_at ?w (blobPath (blobsDir st) (hex_encode k)) = Some (FileN i)" for k i
      using that d(2) [of k i] blob [of k] fresh by (auto simp: node data)
    show "\<exists>k i. h = hex_encode k \<and> node_at ?w q = Some (FileN i) \<and> ino_data (inodes ?w i) = C k"
      if "map_of (materialized (mem ?w)) h = Some q" for h q
    proof -
      have m: "map_of (materialized (mem w)) h = Some q" using that by simp
      from d(4) [OF m] obtain k i where "h = hex_encode k" "node_at w q = Some (FileN i)" "ino_data (inodes w i) = C k"
        by blast
      moreover have "q \<noteq> p" using d(8) [of h q] that free by auto
      moreover have "i \<noteq> ?n" using fresh \<open>node_at w q = Some (FileN i)\<close> by auto
      ultimately show ?thesis by (auto simp: node data)
    qed
    show "own q i c ?w" if "(q, Some (i, c)) \<in> set ((p, Some (?n, [])) # S)" for q i c
    proof (cases "(q, Some (i, c)) \<in> set S")
      case True
      then have "q \<noteq> p" using S by auto
      with d(7) [OF True] fresh show ?thesis by (auto simp: own_def node data)
    next
      case False
      with that fresh show ?thesis by (auto simp: own_def node data)
    qed
    show "unclaimed st q ?w" if "(q, x) \<in> set ((p, Some (?n, [])) # S)" for q x
    proof (cases "(q, x) \<in> set S")
      case True
      with d(6) show ?thesis by (auto simp: unclaimed_def)
    next
      case False
      with that p d(8) [of _ p] free show ?thesis by (auto simp: unclaimed_def)
    qed
    show "distinct (map fst ((p, Some (?n, [])) # S))" using d(5) S by auto
  qed (use d(3) in auto)
qed

text \<open>A lock file lies in the stripe directory, so it is no blob.\<close>

lemma blob_shape: "is_blob st p \<longleftrightarrow> (\<exists>k. p = blobsDir st @ [outputShard (hex_encode k), hex_encode k @ ''.zst''])"
  by (auto simp: is_blob_def blobPath_def blobDir_def)

lemma stripe_not_blob: "layout st \<Longrightarrow> butlast l = stripesDir (versionDir st) \<Longrightarrow> \<not> is_blob st l"
  by (auto simp: blob_shape layout_def stripesDir_def butlast_append)

lemma live_not_blob: "layout st \<Longrightarrow> prefix (runDir st) p \<Longrightarrow> \<not> is_blob st p"
  by (auto simp: blob_shape layout_def prefix_def)

lemma keeps_track_lock:
  assumes "layout st" "butlast l = stripesDir (versionDir st)"
  shows "keeps (track B C st S) (flock_lock l)"
proof -
  have l: "l \<noteq> []" "\<not> is_blob st l" using assms stripe_not_blob by (auto simp: stripesDir_def)
  have "track B C st S (snd (new_file l w))" if t: "track B C st S w" and free: "node_at w l = None" for w :: world
  proof -
    let ?S = "filter (\<lambda>x. snd x \<noteq> None) S"
    note d = trackD [OF t]
    have t': "track B C st ?S w"
      by (rule trackI) (use d in \<open>auto simp: distinct_map_filter\<close>)
    have "(l, x) \<notin> set ?S" for x using working_node [OF t', of l] free by (cases x) auto
    note n = trackD [OF track_tl [OF track_new_file [OF t' free l this]]]
    show ?thesis
    proof (rule trackI)
      show "unclaimed st p (snd (new_file l w))" if "(p, x) \<in> set S" for p x
        using d(6) [OF that] by (simp add: unclaimed_def)
    qed (use n d(5) in auto)
  qed
  then show ?thesis
    unfolding flock_lock_def by (intro keeps_sys) (auto simp: keeps_def bindE_def lock_file_def)
qed

lemma keeps_track_unlock [keeps_intros]:
  "keeps (track B C st S) (flock_unlock l)" "keeps (track B C st S) (flock_close l)"
  unfolding flock_unlock_def flock_close_def by (rule keeps_sys; simp add: keeps_def)+

lemma ensures_output_lock:
  assumes "layout st" "ensures (track B C st S) fn (\<lambda>_. track B C st S') (track B C st S')"
    and "\<And>w. track B C st S w \<Longrightarrow> track B C st S' w"
  shows "ensures (track B C st S) (withOutputLock st h fn) (\<lambda>_. track B C st S') (track B C st S')"
  by (rule ensures_withOutputLock [OF assms(2)])
    (assumption | erule assms(3) | erule keeps_track_lock [OF assms(1)] | rule keeps_track_unlock keeps_track_mkdir |
      rule keeps_track_mem, simp)+

lemma keeps_output_lock:
  assumes "layout st" "keeps (track B C st S) fn"
  shows "keeps (track B C st S) (withOutputLock st h fn)"
  unfolding keeps_def
  by (intro allI impI, rule ensures_any [OF ensures_output_lock [OF assms(1) ensures_keeps [OF assms(2)]]])

section \<open>Effects on the files at work\<close>

lemma create_temp_free: "free_temp d pre suf w n = Some p \<Longrightarrow> node_at w p = None \<and> (\<exists>r. p = d @ [pre @ r @ suf])"
proof (induction d pre suf w n rule: free_temp.induct)
  case (1 d pre suf w n)
  show ?case
  proof (cases "node_at w (temp_name d pre suf w n) = None")
    case True
    with 1(2) show ?thesis by (auto simp: free_temp.simps [of d pre suf w n] temp_name_def)
  next
    case False
    with 1(2) have "Suc n < 10000" "free_temp d pre suf w (Suc n) = Some p"
      by (auto simp: free_temp.simps [of d pre suf w n] split: if_splits)
    from 1(1) [OF False this] show ?thesis .
  qed
qed

lemma ensures_create_temp:
  assumes "\<And>r. \<not> is_blob st (d @ [pre @ r @ suf])" "\<forall>x\<in>set S. snd x \<noteq> None"
  shows "ensures (track B C st S) (os_create_temp d pre suf)
    (\<lambda>(i, p) w. track B C st ((p, Some (i, [])) # S) w \<and> (\<exists>r. p = d @ [pre @ r @ suf])) (track B C st S)"
  unfolding os_create_temp_def
proof (rule ensures_sysI)
  show "ensures (track B C st S) (\<lambda>w. if \<not> is_dir w d then (Inl ErrNotExist, w)
      else case free_temp d pre suf w 0 of None \<Rightarrow> (Inl ErrExist, w)
        | Some p \<Rightarrow> (case new_file p w of (i, w') \<Rightarrow> (Inr (i, p), w')))
    (\<lambda>(i, p) w. track B C st ((p, Some (i, [])) # S) w \<and> (\<exists>r. p = d @ [pre @ r @ suf])) (track B C st S)"
    (is "ensures _ ?m ?Q _")
  proof (rule ensuresI)
    fix w :: world and x w'
    assume t: "track B C st S w" and m: "?m w = (Inr x, w')"
    from m obtain p where p: "free_temp d pre suf w 0 = Some p"
      by (auto split: if_splits option.splits)
    with m have x: "x = (next_ino w, p)" and w': "w' = snd (new_file p w)"
      by (auto simp: new_file_def Let_def split: if_splits)
    from create_temp_free [OF p] obtain r where free: "node_at w p = None" and r: "p = d @ [pre @ r @ suf]" by blast
    have "(p, y) \<notin> set S" for y
      using working_node [OF t, of p] free assms(2) by (cases y) auto
    from track_new_file [OF t free _ _ this] assms(1) [of r] r show "?Q x w'" by (auto simp: x w')
  next
    fix w :: world and e w'
    assume "track B C st S w" "?m w = (Inl e, w')"
    then show "track B C st S w'" by (auto split: if_splits option.splits prod.splits)
  qed
qed auto

lemma track_write:
  assumes t: "track B C st ((p, Some (i, d)) # S) w"
  shows "track B C st ((p, Some (i, e)) # S) (w\<lparr>inodes := (inodes w)(i := \<lparr>ino_data = e, ino_mtime = m\<rparr>)\<rparr>)"
    (is "track _ _ _ _ ?w")
proof -
  note d = trackD [OF t]
  have own: "node_at w p = Some (FileN i)" "\<And>q. node_at w q = Some (FileN i) \<Longrightarrow> q = p"
    using d(7) [of p i d] by (auto simp: own_def)
  have un: "p \<noteq> blobPath (blobsDir st) (hex_encode k)" "map_of (materialized (mem w)) h \<noteq> Some p" for k h
    using d(6) [of p "Some (i, d)"] by (auto simp: unclaimed_def is_blob_def)
  show ?thesis
  proof (rule trackI)
    show "B k (ino_data (inodes ?w j))"
      if "node_at ?w (blobPath (blobsDir st) (hex_encode k)) = Some (FileN j)" for k j
      using that d(2) [of k j] own(2) un(1) [of k] by auto
    show "\<exists>k j. h = hex_encode k \<and> node_at ?w q = Some (FileN j) \<and> ino_data (inodes ?w j) = C k"
      if "map_of (materialized (mem ?w)) h = Some q" for h q
    proof -
      have m: "map_of (materialized (mem w)) h = Some q" using that by simp
      from d(4) [OF m] obtain k j where "h = hex_encode k" "node_at w q = Some (FileN j)" "ino_data (inodes w j) = C k"
        by blast
      moreover have "j \<noteq> i" using own(2) un(2) m calculation(2) by auto
      ultimately show ?thesis by auto
    qed
    show "own q j c ?w" if "(q, Some (j, c)) \<in> set ((p, Some (i, e)) # S)" for q j c
    proof (cases "(q, Some (j, c)) \<in> set S")
      case True
      then have "q \<noteq> p" using d(5) by (auto simp: image_iff)
      moreover have "own q j c w" using d(7) True by auto
      ultimately show ?thesis using own(2) by (auto simp: own_def)
    next
      case False
      with that have q: "q = p" "j = i" "c = e" by auto
      have "node_at ?w p = Some (FileN i)" "ino_data (inodes ?w i) = e" using own(1) by simp_all
      moreover have "\<forall>r. node_at ?w r = Some (FileN i) \<longrightarrow> r = p"
        unfolding node_at_inodes using own(2) by blast
      ultimately show ?thesis unfolding q own_def by (intro conjI)
    qed
    show "unclaimed st q ?w" if "(q, x) \<in> set ((p, Some (i, e)) # S)" for q x
    proof -
      have "\<exists>y. (q, y) \<in> set ((p, Some (i, d)) # S)" using that by auto
      then obtain y where "unclaimed st q w" using d(6) by blast
      then show ?thesis by (simp add: unclaimed_def)
    qed
    show "j < next_ino ?w" if "node_at ?w q = Some (FileN j)" for q j
    proof -
      have "node_at w q = Some (FileN j)" using that by (simp only: node_at_inodes)
      from d(1) [OF this] show ?thesis by simp
    qed
    show "prefix (runDir st) q" if "map_of (materialized (mem ?w)) h = Some q" for h q
    proof -
      have "map_of (materialized (mem w)) h = Some q" using that by simp
      from d(3) [OF this] show ?thesis .
    qed
    show "distinct (map fst ((p, Some (i, e)) # S))" using d(5) by (simp only: list.map fst_conv)
  qed
qed

lemma ensures_write:
  "ensures (track B C st ((p, Some (i, d)) # S)) (file_write i bs)
    (\<lambda>_. track B C st ((p, Some (i, d @ bs)) # S)) (track B C st ((p, None) # S))"
proof -
  have "track B C st ((p, Some (i, d @ cs)) # S) (file_append i cs (w\<lparr>ticks := n\<rparr>))"
    if "track B C st ((p, Some (i, d)) # S) w" for w :: world and cs n
  proof -
    have "ino_data (inodes w i) = d" using trackD(7) [OF that, of p i d] by (auto simp: own_def)
    then show ?thesis using track_write [of B C st p i d S "w\<lparr>ticks := n\<rparr>"] that by (simp add: file_append_def)
  qed
  then show ?thesis
    by (auto simp: ensures_def file_write_def Let_def intro: track_forget split: option.splits)
qed

lemma ensures_create:
  "ensures (track B C st ((p, Some (i, d)) # S)) (os_create p)
    (\<lambda>j w. j = i \<and> track B C st ((p, Some (i, [])) # S) w) (track B C st ((p, Some (i, d)) # S))"
  unfolding os_create_def
proof (rule ensures_sysI)
  show "ensures (track B C st ((p, Some (i, d)) # S)) (\<lambda>w. if \<not> is_dir w (butlast p) then (Inl ErrNotExist, w)
      else case node_at w p of None \<Rightarrow> (case new_file p w of (i, w') \<Rightarrow> (Inr i, w'))
        | Some (FileN i) \<Rightarrow> (Inr i, w\<lparr>inodes := (inodes w)(i := \<lparr>ino_data = [], ino_mtime = clock w (ticks w)\<rparr>)\<rparr>)
        | Some _ \<Rightarrow> (Inl (SysErr ''not a regular file''), w))
    (\<lambda>j w. j = i \<and> track B C st ((p, Some (i, [])) # S) w) (track B C st ((p, Some (i, d)) # S))"
    (is "ensures _ ?m _ _")
  proof (rule ensuresI)
    fix w :: world and j w'
    assume t: "track B C st ((p, Some (i, d)) # S) w" and m: "?m w = (Inr j, w')"
    have n: "node_at w p = Some (FileN i)" by (rule working_node [OF t, of p i d]) simp
    from m have "j = i" "w' = w\<lparr>inodes := (inodes w)(i := \<lparr>ino_data = [], ino_mtime = clock w (ticks w)\<rparr>)\<rparr>"
      by (auto simp: n split: if_splits)
    with track_write [OF t, of "[]"] show "j = i \<and> track B C st ((p, Some (i, [])) # S) w'" by simp
  next
    fix w :: world and e w'
    assume t: "track B C st ((p, Some (i, d)) # S) w" and m: "?m w = (Inl e, w')"
    have n: "node_at w p = Some (FileN i)" by (rule working_node [OF t, of p i d]) simp
    from m t show "track B C st ((p, Some (i, d)) # S) w'" by (auto simp: n split: if_splits)
  qed
qed auto

lemma track_remove:
  assumes t: "track B C st S w" and S: "\<And>i d. (p, Some (i, d)) \<notin> set S" and p: "p \<noteq> []"
    and m: "\<And>h. map_of (materialized (mem w)) h \<noteq> Some p"
  shows "track B C st S (del_node p w)"
proof -
  note d = trackD [OF t]
  have node: "node_at (del_node p w) q = (if q = p then None else node_at w q)" for q using p by simp
  show ?thesis
  proof (rule trackI)
    show "\<exists>k i. h = hex_encode k \<and> node_at (del_node p w) q = Some (FileN i) \<and> ino_data (inodes (del_node p w) i) = C k"
      if "map_of (materialized (mem (del_node p w))) h = Some q" for h q
    proof -
      have q: "map_of (materialized (mem w)) h = Some q" using that by simp
      with m have "q \<noteq> p" by auto
      with d(4) [OF q] show ?thesis by (simp add: node)
    qed
    show "own q i c (del_node p w)" if "(q, Some (i, c)) \<in> set S" for q i c
    proof -
      have "q \<noteq> p" using that S by auto
      with d(7) [OF that] show ?thesis by (auto simp: own_def node)
    qed
    show "unclaimed st q (del_node p w)" if "(q, x) \<in> set S" for q x
      using d(6) [OF that] by (simp add: unclaimed_def)
  qed (use d(1,2,3,5) in \<open>simp_all add: node split: if_splits\<close>)
qed

lemma keeps_remove: "keeps (track B C st ((p, None) # S)) (os_remove p)"
proof -
  have "track B C st ((p, None) # S) (del_node p w)" if t: "track B C st ((p, None) # S) w" for w :: world
  proof (rule track_remove [OF t])
    show "(p, Some (i, d)) \<notin> set ((p, None) # S)" for i d using trackD(5) [OF t] by (auto simp: image_iff)
    show "p \<noteq> []" "map_of (materialized (mem w)) h \<noteq> Some p" for h
      using trackD(6) [OF t, of p None] by (auto simp: unclaimed_def)
  qed
  then show ?thesis
    unfolding os_remove_def by (intro keeps_sys) (auto simp: keeps_def split: option.splits node.splits)
qed

lemma live_path_not_blob:
  assumes "layout st" "track B C st S w" "map_of (materialized (mem w)) h = Some p"
  shows "p \<noteq> blobPath (blobsDir st) (hex_encode k)"
  using live_not_blob [OF assms(1) trackD(3) [OF assms(2,3)]] by (auto simp: is_blob_def)

lemma keeps_remove_blob:
  assumes l: "layout st"
  shows "keeps (track B C st S) (os_remove (blobPath (blobsDir st) (hex_encode k)))"
proof -
  let ?p = "blobPath (blobsDir st) (hex_encode k)"
  have "track B C st S (del_node ?p w)" if t: "track B C st S w" for w :: world
  proof (rule track_remove [OF t])
    show "(?p, Some (i, d)) \<notin> set S" for i d
      using trackD(6) [OF t, of ?p] by (auto simp: unclaimed_def is_blob_def)
    show "?p \<noteq> []" by (simp add: blobPath_def)
    show "map_of (materialized (mem w)) h \<noteq> Some ?p" for h
      using live_path_not_blob [OF l t] by blast
  qed
  then show ?thesis
    unfolding os_remove_def by (intro keeps_sys) (auto simp: keeps_def split: option.splits node.splits)
qed

text \<open>Installing: the pending blob takes the name of the output its frame decompresses to.\<close>

lemma track_install:
  assumes l: "layout st" and t: "track B C st ((p, Some (i, d)) # S) w" and d: "B k d"
  shows "track B C st ((p, None) # S) (set_node (blobPath (blobsDir st) (hex_encode k)) (FileN i) (del_node p w))"
    (is "track _ _ _ _ ?w")
proof -
  let ?b = "blobPath (blobsDir st) (hex_encode k)"
  note t' = trackD [OF t]
  have own: "node_at w p = Some (FileN i)" "ino_data (inodes w i) = d" "node_at w q = Some (FileN i) \<Longrightarrow> q = p" for q
    using t'(7) [of p i d] by (auto simp: own_def)
  have un: "p \<noteq> []" "p \<noteq> blobPath (blobsDir st) (hex_encode k')" "map_of (materialized (mem w)) h \<noteq> Some p" for k' h
    using t'(6) [of p "Some (i, d)"] by (auto simp: unclaimed_def is_blob_def)
  have b: "?b \<noteq> []" by (simp add: blobPath_def)
  have node: "node_at ?w q = (if q = ?b then Some (FileN i) else if q = p then None else node_at w q)" for q
    using b un(1) by simp
  show ?thesis
  proof (rule trackI)
    show "j < next_ino ?w" if "node_at ?w q = Some (FileN j)" for q j
      using that t'(1) [of q j] t'(1) [OF own(1)] by (auto simp: node split: if_splits)
    show "B k' (ino_data (inodes ?w j))"
      if n: "node_at ?w (blobPath (blobsDir st) (hex_encode k')) = Some (FileN j)" for k' j
    proof (cases "k' = k")
      case True
      with n own(2) d show ?thesis by (simp add: node)
    next
      case False
      then have "blobPath (blobsDir st) (hex_encode k') \<noteq> ?b" by (simp add: blobPath_def)
      with n t'(2) [of k' j] show ?thesis by (simp add: node split: if_splits)
    qed
    show "\<exists>k j. h = hex_encode k \<and> node_at ?w q = Some (FileN j) \<and> ino_data (inodes ?w j) = C k"
      if "map_of (materialized (mem ?w)) h = Some q" for h q
    proof -
      have m: "map_of (materialized (mem w)) h = Some q" using that by simp
      have "q \<noteq> ?b" "q \<noteq> p" using live_path_not_blob [OF l t m] un(3) m by auto
      with t'(4) [OF m] show ?thesis by (simp add: node)
    qed
    show "distinct (map fst ((p, None) # S))" using t'(5) by (simp only: list.map fst_conv)
    show "unclaimed st q ?w" if "(q, x) \<in> set ((p, None) # S)" for q x
    proof -
      have "\<exists>y. (q, y) \<in> set ((p, Some (i, d)) # S)" using that by auto
      then have "unclaimed st q w" using t'(6) by blast
      then show ?thesis by (simp add: unclaimed_def)
    qed
    show "own q j c ?w" if "(q, Some (j, c)) \<in> set ((p, None) # S)" for q j c
    proof -
      have in_S: "(q, Some (j, c)) \<in> set S" using that by simp
      then have q: "q \<noteq> p" using t'(5) by (auto simp: image_iff)
      have o1: "own q j c w" and u: "unclaimed st q w" using t'(6,7) in_S by auto
      have "q \<noteq> ?b" using u by (auto simp: unclaimed_def is_blob_def)
      moreover have "j \<noteq> i" using o1 own(1) q by (auto simp: own_def)
      ultimately show ?thesis using o1 q by (auto simp: own_def node)
    qed
  qed (use t'(3) in simp)
qed

lemma ensures_rename:
  assumes l: "layout st" and d: "B k d"
  shows "ensures (track B C st ((p, Some (i, d)) # S)) (os_rename p (blobPath (blobsDir st) (hex_encode k)))
    (\<lambda>_. track B C st ((p, None) # S)) (track B C st ((p, Some (i, d)) # S))"
  unfolding os_rename_def
proof (rule ensures_sysI)
  let ?b = "blobPath (blobsDir st) (hex_encode k)" and ?T = "track B C st ((p, Some (i, d)) # S)"
  show "ensures ?T (\<lambda>w. case node_at w p of None \<Rightarrow> (Inl ErrNotExist, w)
     | Some n \<Rightarrow>
         if \<not> is_dir w (butlast ?b) then (Inl ErrNotExist, w)
         else if p = ?b then (Inr (), w)
         else case (n, node_at w ?b) of
           (DirN, None) \<Rightarrow> (Inr (), w\<lparr>nodes := map (\<lambda>(q, m). (move_path p ?b q, m)) (nodes w)\<rparr>)
         | (DirN, Some _) \<Rightarrow> (Inl ErrExist, w)
         | (_, Some DirN) \<Rightarrow> (Inl ErrExist, w)
         | (_, m) \<Rightarrow> if m = Some n then (Inr (), w) else (Inr (), set_node ?b n (del_node p w))) (\<lambda>_. track B C st ((p, None) # S)) ?T" (is "ensures _ ?m _ _")
  proof -
    have "case ?m w of (Inl e, w') \<Rightarrow> ?T w' | (Inr x, w') \<Rightarrow> track B C st ((p, None) # S) w'" if t: "?T w" for w :: world
    proof -
      have n: "node_at w p = Some (FileN i)" by (rule working_node [OF t, of p i d]) simp
      have "p \<noteq> ?b" using trackD(6) [OF t, of p] by (auto simp: unclaimed_def is_blob_def)
      moreover have "node_at w ?b \<noteq> Some (FileN i)"
        using trackD(7) [OF t, of p i d] \<open>p \<noteq> ?b\<close> by (auto simp: own_def)
      ultimately show ?thesis
        using t track_install [OF l t d] by (auto simp: n split: option.splits node.splits)
    qed
    then show ?thesis unfolding ensures_def by blast
  qed
qed auto

lemma ensures_setMaterialized:
  assumes "prefix (runDir st) p"
  shows "ensures (track B C st ((p, Some (i, C k)) # S)) (setMaterialized (hex_encode k) p)
    (\<lambda>_. track B C st S) (track B C st S)"
proof -
  have "track B C st S (w\<lparr>mem := (mem w)\<lparr>materialized := AList.update (hex_encode k) p (materialized (mem w))\<rparr>\<rparr>)"
    (is "track _ _ _ _ ?w") if t: "track B C st ((p, Some (i, C k)) # S) w" for w :: world
  proof -
    note d = trackD [OF t]
    have own: "node_at w p = Some (FileN i)" "ino_data (inodes w i) = C k"
      using d(7) [of p i "C k"] by (auto simp: own_def)
    have m: "map_of (materialized (mem ?w)) h = (if h = hex_encode k then Some p else map_of (materialized (mem w)) h)" for h
      by (simp add: update_conv')
    have node: "node_at ?w = node_at w" by simp
    show ?thesis
    proof (rule trackI)
      show "\<exists>k i. h = hex_encode k \<and> node_at ?w q = Some (FileN i) \<and> ino_data (inodes ?w i) = C k"
        if q: "map_of (materialized (mem ?w)) h = Some q" for h q
      proof (cases "h = hex_encode k")
        case True
        with q own show ?thesis unfolding m node by auto
      next
        case False
        with q have "map_of (materialized (mem w)) h = Some q" unfolding m by simp
        from d(4) [OF this] show ?thesis unfolding node by simp
      qed
      show "prefix (runDir st) q" if q: "map_of (materialized (mem ?w)) h = Some q" for h q
        using q assms d(3) [of h q] unfolding m by (auto split: if_splits)
      show "unclaimed st q ?w" if "(q, x) \<in> set S" for q x
      proof -
        have "unclaimed st q w" using d(6) [of q x] that by simp
        moreover have "q \<noteq> p" using d(5) that by (auto simp: image_iff)
        ultimately show ?thesis unfolding unclaimed_def m by auto
      qed
      show "own q j c ?w" if "(q, Some (j, c)) \<in> set S" for q j c
        using d(7) [of q j c] that by (simp add: own_def)
      show "distinct (map fst S)" using d(5) by simp
    qed (use d(1,2) in \<open>simp_all only: node\<close>, simp_all)
  qed
  then show ?thesis by (simp add: ensures_def setMaterialized_def modify_mem_def)
qed

lemma keeps_deleteMaterialized: "keeps (track B C st S) (deleteMaterialized h)"
proof -
  have "track B C st S (w\<lparr>mem := (mem w)\<lparr>materialized := AList.delete h (materialized (mem w))\<rparr>\<rparr>)"
    (is "track _ _ _ _ ?w") if t: "track B C st S w" for w :: world
  proof -
    note d = trackD [OF t]
    have m: "map_of (materialized (mem ?w)) h' = Some q \<Longrightarrow> map_of (materialized (mem w)) h' = Some q" for h' q
      by (simp add: delete_conv' split: if_splits)
    show ?thesis
    proof (rule trackI)
      show "unclaimed st q ?w" if "(q, x) \<in> set S" for q x
        using d(6) [OF that] m unfolding unclaimed_def by blast
      show "prefix (runDir st) q" if "map_of (materialized (mem ?w)) h' = Some q" for h' q
        by (rule d(3) [OF m [OF that]])
      show "\<exists>k i. h' = hex_encode k \<and> node_at ?w q = Some (FileN i) \<and> ino_data (inodes ?w i) = C k"
        if "map_of (materialized (mem ?w)) h' = Some q" for h' q
        using d(4) [OF m [OF that]] by simp
      show "own q j c ?w" if "(q, Some (j, c)) \<in> set S" for q j c
        using d(7) [OF that] by (simp add: own_def)
    qed (use d(1,2,5) in simp_all)
  qed
  then show ?thesis by (simp add: keeps_def deleteMaterialized_def modify_mem_def)
qed

section \<open>Puts\<close>

lemma keeps_track_stat [keeps_intros]: "keeps (track B C st S) (regularFile p)" "keeps (track B C st S) (fileSize p)"
  unfolding regularFile_def fileSize_def by (intro keeps_intros)+

lemma keeps_track_adopt [keeps_intros]: "keeps (track B C st S) (adoptBlob p)"
  unfolding adoptBlob_def by (intro keeps_intros)

text \<open>A live file takes a fresh name in the run directory.\<close>

lemma live_name: "layout st \<Longrightarrow> \<not> is_blob st ((runDir st @ [s]) @ [pre @ r @ suf])"
  by (rule live_not_blob) (simp_all add: prefix_def)

lemma ensures_createLiveFile:
  assumes l: "layout st" and S: "\<forall>x\<in>set S. snd x \<noteq> None"
  shows "ensures (track B C st S) (createLiveFile st h)
    (\<lambda>p w. (\<exists>i. track B C st ((p, Some (i, [])) # S) w) \<and> prefix (runDir st) p) (track B C st S)"
  unfolding createLiveFile_def Let_def
proof (rule ensures_bindE [where Q = "\<lambda>_. track B C st S"])
  show "ensures (track B C st S) (wrapE ''create live shard dir'' (os_mkdir_all (runDir st @ [outputShard h])))
     (\<lambda>_. track B C st S) (track B C st S)"
    by (intro ensures_keeps keeps_intros)
  show "ensures (track B C st S)
     (bindE (wrapE ''create live file'' (os_create_temp (runDir st @ [outputShard h]) (h @ ''-'') []))
       (\<lambda>(file, path). recoverE (bindE (file_close file) (\<lambda>_. returnE path)) (\<lambda>e.
          bindE (ignoreE (os_remove path)) (\<lambda>_. failE (Wrap ''close live file placeholder'' [e])))))
     (\<lambda>p w. (\<exists>i. track B C st ((p, Some (i, [])) # S) w) \<and> prefix (runDir st) p) (track B C st S)"
  proof (rule ensures_bindE)
    show "ensures (track B C st S) (wrapE ''create live file'' (os_create_temp (runDir st @ [outputShard h]) (h @ ''-'') []))
      (\<lambda>(i, p) w. track B C st ((p, Some (i, [])) # S) w \<and> (\<exists>r. p = (runDir st @ [outputShard h]) @ [(h @ ''-'') @ r @ []]))
      (track B C st S)"
      by (intro ensures_wrapE ensures_create_temp live_name [OF l] S)
    fix x :: "nat \<times> path"
    obtain i p where x: "x = (i, p)" by (cases x)
    let ?T = "\<lambda>w. track B C st ((p, Some (i, [])) # S) w \<and> prefix (runDir st) p"
    have "ensures ?T (recoverE (bindE (file_close i) (\<lambda>_. returnE p)) (\<lambda>e.
          bindE (ignoreE (os_remove p)) (\<lambda>_. failE (Wrap ''close live file placeholder'' [e]))))
       (\<lambda>p w. (\<exists>i. track B C st ((p, Some (i, [])) # S) w) \<and> prefix (runDir st) p) (track B C st S)"
    proof (rule ensures_recoverE [where F = "track B C st ((p, None) # S)"])
      show "ensures ?T (bindE (file_close i) (\<lambda>_. returnE p))
        (\<lambda>p w. (\<exists>i. track B C st ((p, Some (i, [])) # S) w) \<and> prefix (runDir st) p) (track B C st ((p, None) # S))"
      proof (rule ensures_bindE [where Q = "\<lambda>_. ?T"])
        have "keeps ?T (file_close i)" using keeps_track_files(4) by (auto simp: keeps_def)
        then show "ensures ?T (file_close i) (\<lambda>_. ?T) (track B C st ((p, None) # S))"
          by (rule ensures_keeps_to) (auto intro: track_forget)
      qed (auto intro: ensures_returnE)
      show "ensures (track B C st ((p, None) # S))
          (bindE (ignoreE (os_remove p)) (\<lambda>_. failE (Wrap ''close live file placeholder'' [e])))
          (\<lambda>p w. (\<exists>i. track B C st ((p, Some (i, [])) # S) w) \<and> prefix (runDir st) p) (track B C st S)" for e
        by (rule ensures_bindE [OF ensures_ignoreE [OF ensures_keeps [OF keeps_remove]]], rule ensures_failE, erule track_tl)
    qed
    then show "ensures ((case x of (i, p) \<Rightarrow> \<lambda>w. track B C st ((p, Some (i, [])) # S) w \<and>
          (\<exists>r. p = (runDir st @ [outputShard h]) @ [(h @ ''-'') @ r @ []])))
      (case x of (file, path) \<Rightarrow> recoverE (bindE (file_close file) (\<lambda>_. returnE path)) (\<lambda>e.
          bindE (ignoreE (os_remove path)) (\<lambda>_. failE (Wrap ''close live file placeholder'' [e]))))
      (\<lambda>p w. (\<exists>i. track B C st ((p, Some (i, [])) # S) w) \<and> prefix (runDir st) p) (track B C st S)"
      unfolding x by (simp, elim ensures_conseq) auto
  qed
qed

text \<open>Installing ends with the pending blob's path nobody's, installed or adopted.\<close>

lemma ensures_installBlob:
  assumes l: "layout st" and d: "B k d"
  shows "ensures (track B C st ((p, Some (i, d)) # S)) (installBlobLocked p (blobPath (blobsDir st) (hex_encode k)))
    (\<lambda>_. track B C st ((p, None) # S)) (track B C st ((p, None) # S))"
proof -
  let ?T = "track B C st ((p, Some (i, d)) # S)" and ?N = "track B C st ((p, None) # S)"
    and ?b = "blobPath (blobsDir st) (hex_encode k)"
  have adopt: "ensures ?T (adoptBlob ?b) (\<lambda>_. ?N) ?T" "ensures ?T (adoptBlob ?b) (\<lambda>_. ?N) ?N"
    by (rule ensures_conseq [OF ensures_keeps [OF keeps_track_adopt [of B C st "(p, Some (i, d)) # S"]]];
        (erule track_forget | assumption))+
  have install: "ensures ?T (bindE (tryE (os_rename p ?b)) (\<lambda>r. case r of Inr _ \<Rightarrow> fileSize ?b
      | Inl e \<Rightarrow> bindE (regularFile ?b) (\<lambda>reg. if \<not> reg then failE (Wrap ''install compressed file'' [e]) else adoptBlob ?b)))
      (\<lambda>_. ?N) ?N"
  proof (rule ensures_bindE)
    show "ensures ?T (tryE (os_rename p ?b)) (\<lambda>r. case r of Inr _ \<Rightarrow> ?N | Inl _ \<Rightarrow> ?T) ?N"
      by (rule ensures_tryE [OF ensures_rename [where B = B and C = C and S = S and i = i and k = k, OF l d]]) simp_all
    show "ensures (case r of Inr _ \<Rightarrow> ?N | Inl _ \<Rightarrow> ?T) (case r of Inr _ \<Rightarrow> fileSize ?b
      | Inl e \<Rightarrow> bindE (regularFile ?b) (\<lambda>reg. if \<not> reg then failE (Wrap ''install compressed file'' [e]) else adoptBlob ?b))
      (\<lambda>_. ?N) ?N" for r
    proof (cases r)
      case (Inl e)
      have "ensures ?T (bindE (regularFile ?b) (\<lambda>reg. if \<not> reg then failE (Wrap ''install compressed file'' [e]) else adoptBlob ?b))
          (\<lambda>_. ?N) ?N"
        by (rule ensures_bindE [OF ensures_keeps_to [OF keeps_track_stat(1)]], erule track_forget,
            rule ensures_if, rule ensures_failE, erule track_forget, rule adopt(2))
      with Inl show ?thesis by simp
    qed (simp add: ensures_keeps keeps_track_stat)
  qed
  show ?thesis
    unfolding installBlobLocked_def Let_def
  proof (rule ensures_bindE [OF ensures_keeps_to [OF keeps_track_stat(1)]], erule track_forget)
    show "ensures ?T (if present then recoverE (adoptBlob ?b) (\<lambda>e. if errors_is ErrNotExist e then
        bindE (tryE (os_rename p ?b)) (\<lambda>r. case r of Inr _ \<Rightarrow> fileSize ?b
      | Inl e \<Rightarrow> bindE (regularFile ?b) (\<lambda>reg. if \<not> reg then failE (Wrap ''install compressed file'' [e]) else adoptBlob ?b)) else failE e)
      else bindE (tryE (os_rename p ?b)) (\<lambda>r. case r of Inr _ \<Rightarrow> fileSize ?b
      | Inl e \<Rightarrow> bindE (regularFile ?b) (\<lambda>reg. if \<not> reg then failE (Wrap ''install compressed file'' [e]) else adoptBlob ?b)))
      (\<lambda>_. ?N) ?N" for present
      by (rule ensures_if, rule ensures_recoverE [OF adopt(1)], rule ensures_if, rule install,
          rule ensures_failE, erule track_forget, rule install)
  qed
qed

text \<open>
  Streaming: when the copy ends without an error the live file holds all that was not left in
  the buffer of what the encoder was given.
\<close>

lemma ensures_buf_write:
  "ensures (track B C st ((p, Some (i, d)) # S)) (buf_write i buf out)
    (\<lambda>buf' w. \<exists>d'. d' @ buf' = d @ buf @ out \<and> track B C st ((p, Some (i, d')) # S) w)
    (track B C st ((p, None) # S))"
proof (cases "length out \<le> liveWriteBuffer - length buf")
  case True
  then show ?thesis unfolding buf_write_def Let_def by (simp, intro ensures_returnE) auto
next
  case False
  let ?n = "liveWriteBuffer - length buf"
  have "ensures (track B C st ((p, Some (i, d)) # S))
      (bindE (file_write i (buf @ take ?n out)) (\<lambda>_. returnE (drop ?n out)))
      (\<lambda>buf' w. \<exists>d'. d' @ buf' = d @ buf @ out \<and> track B C st ((p, Some (i, d')) # S) w)
      (track B C st ((p, None) # S))"
    by (rule ensures_bindE [OF ensures_write], rule ensures_returnE)
      (rule exI [of _ "d @ buf @ take ?n out"], simp)
  with False show ?thesis unfolding buf_write_def Let_def by simp
qed

lemma copy_put_track:
  assumes "copy_put i buf data d w = (r, w')" "track B C st ((p, Some (i, f)) # S) w" "f @ buf = data"
  shows "\<exists>e buf' data' d'. r = Inr (e, buf', data', d') \<and> track B C st ((p, None) # S) w' \<and>
    (e = None \<longrightarrow> (\<exists>f'. f' @ buf' = data' \<and> track B C st ((p, Some (i, f')) # S) w'))"
  using assms
proof (induction i buf data d w arbitrary: f r w' rule: copy_put.induct)
  case (1 i buf data d w)
  obtain out x d1 where read: "dec_read d = (out, x, d1)" by (metis prod_cases3)
  obtain b w1 where wr: "buf_write i buf out w = (b, w1)" by (cases "buf_write i buf out w")
  show ?case
  proof (cases b)
    case (Inl y)
    have "track B C st ((p, None) # S) w1"
      by (rule ensures_InlD [OF ensures_buf_write 1(3)]) (use wr Inl in simp)
    with 1(2) read wr Inl show ?thesis by (auto simp: copy_put.simps [of i buf data d])
  next
    case (Inr buf1)
    have "\<exists>f1. f1 @ buf1 = f @ buf @ out \<and> track B C st ((p, Some (i, f1)) # S) w1"
      by (rule ensures_InrD [OF ensures_buf_write 1(3)]) (use wr Inr in simp)
    then obtain f1 where f1: "f1 @ buf1 = data @ out" "track B C st ((p, Some (i, f1)) # S) w1"
      using 1(4) by auto
    show ?thesis
    proof (cases x)
      case None
      with 1(2) read wr Inr have "copy_put i buf1 (data @ out) d1 w1 = (r, w')"
        by (simp add: copy_put.simps [of i buf data d])
      from "1.IH" [OF read [symmetric] _ wr [symmetric] Inr None this f1(2,1)] show ?thesis by simp
    next
      case (Some y)
      with 1(2) read wr Inr f1 show ?thesis
        by (auto simp: copy_put.simps [of i buf data d] intro: track_forget)
    qed
  qed
qed

lemma copy_put_pure:
  "copy_put i buf data d w = (Inr (e, buf', data', d'), w') \<Longrightarrow>
    (on_string rest (dec_raw d) \<longrightarrow> on_string rest (dec_raw d')) \<and>
    (e = None \<longrightarrow> (\<exists>out. copy_all d = (out, None, d') \<and> data' = data @ out))"
proof (induction i buf data d w rule: copy_put.induct)
  case (1 i buf data d w)
  obtain out x d1 where read: "dec_read d = (out, x, d1)" by (metis prod_cases3)
  obtain b w1 where wr: "buf_write i buf out w = (b, w1)" by (cases "buf_write i buf out w")
  have on: "on_string rest (dec_raw d) \<Longrightarrow> on_string rest (dec_raw d1)" by (rule dec_read_on_string [OF read])
  show ?case
  proof (cases b)
    case (Inl y)
    with 1(2) read wr on show ?thesis by (auto simp: copy_put.simps [of i buf data d])
  next
    case (Inr buf1)
    show ?thesis
    proof (cases x)
      case None
      with 1(2) read wr Inr have "copy_put i buf1 (data @ out) d1 w1 = (Inr (e, buf', data', d'), w')"
        by (simp add: copy_put.simps [of i buf data d])
      from "1.IH" [OF read [symmetric] _ wr [symmetric] Inr None this] on read None show ?thesis
        by (auto simp: copy_all.simps [of d])
    next
      case (Some y)
      with 1(2) read wr Inr on show ?thesis
        by (auto simp: copy_put.simps [of i buf data d] copy_all.simps [of d])
    qed
  qed
qed

text \<open>
  Once the copy has been finished without an error the live file holds what the encoder was
  given, and that is the decoded body.
\<close>

lemma streamPutBody_track:
  assumes run: "streamPutBody i b w = (r, w')" and t: "track B C st ((p, Some (i, [])) # S) w"
  shows "\<exists>e data b'. r = Inr (e, data, b') \<and> track B C st ((p, None) # S) w' \<and>
    (e = None \<longrightarrow> track B C st ((p, Some (i, data)) # S) w' \<and> copy_body b = (data, None, b'))"
proof (cases b)
  case EmptyBody
  with run t show ?thesis
    by (auto simp: streamPutBody_def copy_body_put_def bindE_def tryE_def copy_body_def intro: track_forget)
next
  case (StringBody raw)
  let ?d = "\<lparr>dec_buf = [], dec_readErr = None, dec_raw = raw\<rparr>"
  obtain c w1 where c: "copy_put i [] [] ?d w = (c, w1)" by (cases "copy_put i [] [] ?d w")
  obtain e buf data d where cr: "c = Inr (e, buf, data, d)" and none: "track B C st ((p, None) # S) w1"
    and some: "e = None \<Longrightarrow> \<exists>f. f @ buf = data \<and> track B C st ((p, Some (i, f)) # S) w1"
    using copy_put_track [OF c t] by auto
  note pure = copy_put_pure [of i "[]" "[]" ?d w e buf data d w1]
  show ?thesis
  proof (cases e)
    case (Some x)
    with run StringBody c cr none show ?thesis by (auto simp: streamPutBody_def copy_body_put_def bindE_def)
  next
    case None
    obtain f where f: "f @ buf = data" "track B C st ((p, Some (i, f)) # S) w1" using some None by blast
    have body: "copy_body b = (data, None, StringBody (dec_raw d))"
      using pure None c cr by (auto simp: StringBody copy_body_def)
    obtain u w2 where u: "(if buf = [] then returnE () else file_write i buf) w1 = (u, w2)" by (metis prod.collapse)
    have run': "streamPutBody i b w = (Inr (case u of Inl x \<Rightarrow> Some (Wrap ''write live file'' [x]) | Inr _ \<Rightarrow> None,
        data, StringBody (dec_raw d)), w2)"
      using StringBody c cr None u by (cases u) (auto simp: streamPutBody_def copy_body_put_def bindE_def tryE_def)
    show ?thesis
    proof (cases "buf = []")
      case True
      with u have "u = Inr ()" "w2 = w1" by auto
      with run run' body f True none show ?thesis by auto
    next
      case False
      with u have wr: "file_write i buf w1 = (u, w2)" by simp
      show ?thesis
      proof (cases u)
        case (Inl x)
        have "track B C st ((p, None) # S) w2"
          by (rule ensures_InlD [OF ensures_write f(2)]) (use wr Inl in simp)
        with Inl run run' show ?thesis by auto
      next
        case (Inr x)
        have "track B C st ((p, Some (i, f @ buf)) # S) w2"
          by (rule ensures_InrD [OF ensures_write f(2)]) (use wr Inr in simp)
        with Inr run run' body f(1) show ?thesis by (auto intro: track_forget)
      qed
    qed
  qed
qed

lemma pending_name: "\<not> is_blob st (blobDir (blobsDir st) (hex_encode k) @ [(hex_encode k @ ''-pending-'') @ r @ ''.zst''])"
proof
  assume "is_blob st (blobDir (blobsDir st) (hex_encode k) @ [(hex_encode k @ ''-pending-'') @ r @ ''.zst''])"
  then obtain k' where "hex_encode k @ ''-pending-'' @ r @ ''.zst'' = hex_encode k' @ ''.zst''"
    by (auto simp: is_blob_def blobPath_def blobDir_def)
  then have "hex_encode k' = hex_encode k @ ''-pending-'' @ r"
    by (metis append.assoc append_same_eq)
  then have "CHR ''-'' \<in> set (hex_encode k')" by simp
  then show False using hex_encode_no_dash by blast
qed

lemma keeps_track_and: "keeps (track B C st S) m \<Longrightarrow> keeps (\<lambda>w. track B C st S w \<and> A) m"
  by (auto simp: keeps_def)

lemma ensures_remove_then_fail:
  "ensures (track B C st ((p, None) # S)) (bindE (ignoreE (os_remove p)) (\<lambda>_. failE e)) Q (track B C st S)"
  by (rule ensures_bindE [OF ensures_ignoreE [OF ensures_keeps [OF keeps_remove]]], rule ensures_failE, erule track_tl)

text \<open>The two files of a put: the live file and the pending blob, both new and empty.\<close>

abbreviation opened :: "(bytes \<Rightarrow> bytes \<Rightarrow> bool) \<Rightarrow> (bytes \<Rightarrow> bytes) \<Rightarrow> store \<Rightarrow> path \<times> nat \<times> path \<times> nat \<Rightarrow> world \<Rightarrow> bool" where
  "opened B C st \<equiv> \<lambda>(p, i, q, j) w. track B C st [(p, Some (i, [])), (q, Some (j, []))] w \<and> prefix (runDir st) p"

lemma ensures_open_pending:
  assumes l: "layout st"
  shows "ensures (\<lambda>w. track B C st [(p, Some (i, []))] w \<and> prefix (runDir st) p) (open_pending st (hex_encode k) p)
    (opened B C st) (track B C st [(p, None)])"
  unfolding open_pending_def
proof (rule ensures_bindE)
  let ?T = "\<lambda>w. track B C st [(p, Some (i, []))] w \<and> prefix (runDir st) p"
  let ?Q = "\<lambda>(j, q) w. track B C st [(p, Some (i, [])), (q, Some (j, []))] w \<and> prefix (runDir st) p"
  have temp: "ensures (track B C st [(p, Some (i, []))])
      (os_create_temp (blobDir (blobsDir st) (hex_encode k)) (hex_encode k @ ''-pending-'') ''.zst'')
      (\<lambda>(j, q) w. track B C st [(q, Some (j, [])), (p, Some (i, []))] w \<and>
         (\<exists>r. q = blobDir (blobsDir st) (hex_encode k) @ [(hex_encode k @ ''-pending-'') @ r @ ''.zst'']))
      (track B C st [(p, Some (i, []))])"
    by (rule ensures_create_temp) (use pending_name in simp_all)
  show "ensures ?T (wrapE ''create compressed file''
      (os_create_temp (blobDir (blobsDir st) (hex_encode k)) (hex_encode k @ ''-pending-'') ''.zst'')) ?Q
      (track B C st [(p, None)])"
  proof (rule ensures_wrapE, rule ensuresI)
    fix w :: world and x w'
    assume w: "?T w"
    note r = ensures_InrD [OF temp, of w x w'] ensures_InlD [OF temp, of w _ w']
    show "?Q x w'" if "os_create_temp (blobDir (blobsDir st) (hex_encode k)) (hex_encode k @ ''-pending-'') ''.zst'' w = (Inr x, w')"
      using r(1) that w by (auto simp: track_swap)
    show "track B C st [(p, None)] w'" if "os_create_temp (blobDir (blobsDir st) (hex_encode k)) (hex_encode k @ ''-pending-'') ''.zst'' w = (Inl e, w')" for e
      using r(2) that w by (auto intro: track_forget)
  qed
  fix x :: "nat \<times> path"
  obtain j q where x: "x = (j, q)" by (cases x)
  have create: "ensures (?Q x) (os_create p) (\<lambda>n w. n = i \<and> ?Q x w) (track B C st [(p, Some (i, [])), (q, Some (j, []))])"
    by (rule ensures_conseq [OF ensures_and [OF ensures_create [of B C st p i "[]" "[(q, Some (j, []))]"], of "prefix (runDir st) p"]])
      (auto simp: x)
  have fail: "ensures (track B C st [(p, Some (i, [])), (q, Some (j, []))])
     (bindE (ignoreE (file_close j)) (\<lambda>_. bindE (ignoreE (os_remove q)) (\<lambda>_. failE (Wrap ''create live file'' [e]))))
     (opened B C st) (track B C st [(p, None)])" for e
  proof (rule ensures_bindE [OF ensures_ignoreE [OF ensures_keeps [OF keeps_track_files(4)]]])
    show "ensures (track B C st [(p, Some (i, [])), (q, Some (j, []))])
       (bindE (ignoreE (os_remove q)) (\<lambda>_. failE (Wrap ''create live file'' [e]))) (opened B C st) (track B C st [(p, None)])"
      by (rule ensures_conseq [OF ensures_remove_then_fail [of B C st q "[(p, Some (i, []))]"]])
        (auto simp: track_swap [of B C st "(p, Some (i, []))"] intro: track_forget)
  qed
  have "ensures (?Q x) (recoverE (bindE (os_create p) (\<lambda>bodyFile. returnE (p, bodyFile, q, j)))
     (\<lambda>e. bindE (ignoreE (file_close j)) (\<lambda>_. bindE (ignoreE (os_remove q)) (\<lambda>_. failE (Wrap ''create live file'' [e])))))
     (opened B C st) (track B C st [(p, None)])"
    by (rule ensures_recoverE [OF _ fail], rule ensures_bindE [OF create], rule ensures_returnE) (auto simp: x)
  then show "ensures (?Q x) (case x of (blobTmp, blobTmpPath) \<Rightarrow>
     recoverE (bindE (os_create p) (\<lambda>bodyFile. returnE (p, bodyFile, blobTmpPath, blobTmp)))
       (\<lambda>e. bindE (ignoreE (file_close blobTmp)) (\<lambda>_.
            bindE (ignoreE (os_remove blobTmpPath)) (\<lambda>_. failE (Wrap ''create live file'' [e])))))
     (opened B C st) (track B C st [(p, None)])"
    by (simp add: x)
qed

lemma ensures_put_open:
  assumes l: "layout st"
  shows "ensures (sound_blobs B C st) (put_open st (hex_encode k)) (opened B C st) (sound_blobs B C st)"
proof -
  let ?S = "track B C st []"
  have pending: "ensures (\<lambda>w. (\<exists>i. track B C st [(p, Some (i, []))] w) \<and> prefix (runDir st) p)
      (open_pending st (hex_encode k) p) (opened B C st) (track B C st [(p, None)])" for p
    by (rule ensures_conseq [OF ensures_ex [OF ensures_open_pending [OF l]]]) auto
  have "ensures ?S (put_open st (hex_encode k)) (opened B C st) ?S"
    unfolding put_open_def
    by (rule ensures_bindE [OF ensures_wrapE [OF ensures_keeps [OF keeps_track_mkdir]]],
        rule ensures_bindE [OF ensures_createLiveFile [OF l]], simp,
        rule ensures_recoverE [OF pending ensures_remove_then_fail])
  then show ?thesis by (simp add: track_Nil [abs_def])
qed

lemma db_blind_track [simp]: "db_blind (track B C st S)"
  by (simp add: db_blind_def)

lemmas keeps_track_catalog [keeps_intros] = keeps_blind_catalog [OF db_blind_track]

lemma keeps_track_upsert [keeps_intros]: "keeps (track B C st S) (upsertEntry ent)"
  unfolding upsertEntry_def by (intro keeps_intros)

definition served :: "(bytes \<Rightarrow> bytes \<Rightarrow> bool) \<Rightarrow> (bytes \<Rightarrow> bytes) \<Rightarrow> store \<Rightarrow> working \<Rightarrow> bytes \<Rightarrow> path \<Rightarrow> world \<Rightarrow> bool" where
  "served B C st S h p w \<longleftrightarrow> track B C st S w \<and> map_of (materialized (mem w)) h = Some p"

lemma ensures_served:
  assumes "prefix (runDir st) p"
  shows "ensures (track B C st ((p, Some (i, C k)) # S)) (setMaterialized (hex_encode k) p)
    (\<lambda>_. served B C st S (hex_encode k) p) (track B C st S)"
proof (rule ensuresI)
  fix w :: world and x w'
  assume t: "track B C st ((p, Some (i, C k)) # S) w" and run: "setMaterialized (hex_encode k) p w = (Inr x, w')"
  from ensures_InrD [OF ensures_setMaterialized [OF assms] t run]
  have "track B C st S w'" .
  moreover from run have "map_of (materialized (mem w')) (hex_encode k) = Some p"
    by (auto simp: setMaterialized_def modify_mem_def update_conv')
  ultimately show "served B C st S (hex_encode k) p w'" by (simp add: served_def)
qed (simp add: setMaterialized_def modify_mem_def)

lemma ensures_put_record:
  assumes l: "layout st" and cd: "B k d" and p: "prefix (runDir st) p"
  shows "ensures (track B C st [(p, Some (i, C k)), (q, Some (j, d))])
    (put_record st req a (hex_encode k) p q n)
    (\<lambda>res w. rs_DiskPath res = p \<and> served B C st [(q, None)] (hex_encode k) p w)
    (track B C st [(p, None), (q, None)])"
  unfolding put_record_def
proof (rule ensures_bindE [where Q = "\<lambda>_. track B C st [(p, Some (i, C k)), (q, None)]"])
  let ?N = "track B C st [(p, None), (q, None)]" and ?P = "track B C st [(p, Some (i, C k)), (q, None)]"
  have PN: "?P w \<Longrightarrow> ?N w" for w by (rule track_forget)
  have inst: "ensures (track B C st [(q, Some (j, d)), (p, Some (i, C k))])
      (withOutputLock st (hex_encode k) (installBlobLocked q (blobPath (blobsDir st) (hex_encode k))))
      (\<lambda>_. track B C st [(q, None), (p, Some (i, C k))]) (track B C st [(q, None), (p, Some (i, C k))])"
    by (rule ensures_output_lock [OF l ensures_installBlob [where B = B and C = C and k = k and d = d, OF l cd]], rule track_forget)
  show "ensures (track B C st [(p, Some (i, C k)), (q, Some (j, d))])
      (withOutputLock st (hex_encode k) (installBlobLocked q (blobPath (blobsDir st) (hex_encode k)))) (\<lambda>_. ?P) ?N"
    by (rule ensures_conseq [OF inst]) (auto simp: track_swap [of B C st "(q, None)"] track_swap [of B C st "(q, Some (j, d))"] intro: PN)
  fix c
  show "ensures ?P (bindE (modify_mem (\<lambda>m. m\<lparr>installed := i64 (installed m + c)\<rparr>)) (\<lambda>_.
     bindE time_now (\<lambda>now.
     bindE (upsertEntry \<lparr>ActionID = a, OutputID = hex_encode k, Size = n,
              CompressedSize = c, CreatedAt = now, AccessedAt = now\<rparr>) (\<lambda>_.
     bindE (setMaterialized (hex_encode k) p) (\<lambda>_.
     returnE (no_response\<lparr>rs_ID := rq_ID req, rs_DiskPath := p\<rparr>))))))
    (\<lambda>res w. rs_DiskPath res = p \<and> served B C st [(q, None)] (hex_encode k) p w) ?N"
  proof (rule ensures_step [OF keeps_track_mem PN], simp, assumption,
      rule ensures_step [OF keeps_track_sql(7) PN], assumption,
      rule ensures_step [OF keeps_track_upsert PN], assumption)
    have set: "ensures ?P (setMaterialized (hex_encode k) p) (\<lambda>_. served B C st [(q, None)] (hex_encode k) p) ?N"
    proof (rule ensuresI)
      fix w :: world and x w'
      assume "?P w" "setMaterialized (hex_encode k) p w = (Inr x, w')"
      then show "served B C st [(q, None)] (hex_encode k) p w'" by (rule ensures_InrD [OF ensures_served [OF p]])
    qed (simp add: setMaterialized_def modify_mem_def)
    show "ensures ?P (bindE (setMaterialized (hex_encode k) p) (\<lambda>_.
        returnE (no_response\<lparr>rs_ID := rq_ID req, rs_DiskPath := p\<rparr>)))
      (\<lambda>res w. rs_DiskPath res = p \<and> served B C st [(q, None)] (hex_encode k) p w) ?N"
      by (rule ensures_bindE [OF set], rule ensures_returnE) simp
  qed
qed

lemma track_forget_two: "track B C st [(p, x), (q, y)] w \<Longrightarrow> track B C st [(p, None), (q, None)] w"
  by (rule track_forget2, rule track_forget)

lemma ensures_put_finish:
  assumes l: "layout st" and cd: "B k (compress cd (C k))" and p: "prefix (runDir st) p"
    and body: "copyErr = None \<Longrightarrow> int (length data) = rq_BodySize req \<Longrightarrow> data = C k"
  shows "ensures (\<lambda>w. track B C st [(p, None), (q, Some (j, []))] w \<and>
      (copyErr = None \<longrightarrow> track B C st [(p, Some (i, data)), (q, Some (j, []))] w))
    (put_finish cd st req a (hex_encode k) (p, i, q, j) copyErr data)
    (\<lambda>res w. rs_DiskPath res = p \<and> served B C st [(q, None)] (hex_encode k) p w)
    (track B C st [(p, None), (q, None)])"
proof -
  let ?x = "if copyErr = None then Some (i, data) else None"
  let ?frame = "compress cd data"
  let ?N = "track B C st [(p, None), (q, None)]"
  let ?pre = "\<lambda>r. track B C st [(p, ?x), (q, case r of Inl _ \<Rightarrow> None | Inr _ \<Rightarrow> Some (j, ?frame))]"
  have forget: "?pre r w \<Longrightarrow> ?N w" for r w
    by (rule track_forget_two)
  have wr: "ensures (track B C st [(p, ?x), (q, Some (j, []))]) (tryE (file_write j ?frame)) ?pre ?N"
    by (rule ensures_conseq [OF ensures_tryE [OF ensures_write [of B C st q j "[]" "[(p, ?x)]" ?frame],
          where R = ?pre and E = ?N]]) (simp_all add: track_swap [of B C st "(q, Some (j, []))"] track_swap [of B C st "(q, None)"]
        track_swap [of B C st "(q, Some (j, ?frame))"])
  have rest: "ensures (?pre r) (bindE (tryE (file_close i)) (\<lambda>bodyCloseErr.
     bindE (tryE (file_close j)) (\<lambda>blobCloseErr.
     case copyErr of Some e \<Rightarrow> failE e | None \<Rightarrow>
     bindE (wrapE ''finish zstd stream'' (liftE r)) (\<lambda>_.
     bindE (wrapE ''close live file'' (liftE bodyCloseErr)) (\<lambda>_.
     bindE (wrapE ''close compressed file'' (liftE blobCloseErr)) (\<lambda>_.
     if int (length data) \<noteq> rq_BodySize req then failE (Msg ''put body size mismatch'')
     else put_record st req a (hex_encode k) p q (int (length data)))))))) 
     (\<lambda>res w. rs_DiskPath res = p \<and> served B C st [(q, None)] (hex_encode k) p w) ?N" for r
  proof (rule ensures_step_try [OF keeps_track_files(4)], rule ensures_step_try [OF keeps_track_files(4)])
    fix c1 c2 :: "err + unit"
    show "ensures (?pre r) (case copyErr of Some e \<Rightarrow> failE e | None \<Rightarrow>
       bindE (wrapE ''finish zstd stream'' (liftE r)) (\<lambda>_.
       bindE (wrapE ''close live file'' (liftE c1)) (\<lambda>_.
       bindE (wrapE ''close compressed file'' (liftE c2)) (\<lambda>_.
       if int (length data) \<noteq> rq_BodySize req then failE (Msg ''put body size mismatch'')
       else put_record st req a (hex_encode k) p q (int (length data))))))
       (\<lambda>res w. rs_DiskPath res = p \<and> served B C st [(q, None)] (hex_encode k) p w) ?N"
    proof (cases "copyErr = None \<and> (\<exists>u. r = Inr u) \<and> int (length data) = rq_BodySize req")
      case True
      then obtain u where r: "r = Inr u" and none: "copyErr = None" and n: "int (length data) = rq_BodySize req" by blast
      have data: "data = C k" by (rule body [OF none n])
      have "B k ?frame" using cd data by simp
      from ensures_put_record [where B = B and C = C and k = k, OF l this p]
      have "ensures (?pre r) (put_record st req a (hex_encode k) p q (int (length data)))
          (\<lambda>res w. rs_DiskPath res = p \<and> served B C st [(q, None)] (hex_encode k) p w) ?N"
        by (simp add: r none data)
      then have "ensures (?pre r) (bindE (wrapE ''finish zstd stream'' (liftE r)) (\<lambda>_. bindE (wrapE ''close live file'' (liftE c1)) (\<lambda>_.
         bindE (wrapE ''close compressed file'' (liftE c2)) (\<lambda>_. put_record st req a (hex_encode k) p q (int (length data))))))
         (\<lambda>res w. rs_DiskPath res = p \<and> served B C st [(q, None)] (hex_encode k) p w) ?N"
        by (intro ensures_step_lift forget)
      then show ?thesis by (simp add: none n)
    next
      case False
      then show ?thesis
        by (cases copyErr; cases r) (auto simp: ensures_def bindE_def wrapE_def intro: track_forget_two split: sum.splits)
    qed
  qed
  have "ensures (track B C st [(p, ?x), (q, Some (j, []))])
    (put_finish cd st req a (hex_encode k) (p, i, q, j) copyErr data)
    (\<lambda>res w. rs_DiskPath res = p \<and> served B C st [(q, None)] (hex_encode k) p w) ?N"
    unfolding put_finish_def prod.case by (rule ensures_bindE [OF wr rest])
  then show ?thesis by (rule ensures_conseq) auto
qed

lemma ensures_put_body:
  assumes l: "layout st" and cd: "B k (compress cd (C k))"
    and body: "\<And>data b'. copy_body b = (data, None, b') \<Longrightarrow> int (length data) = rq_BodySize req \<Longrightarrow> data = C k"
  shows "ensures (sound_blobs B C st) (put_body cd st req a (hex_encode k) b)
    (\<lambda>(r, b') w. sound_blobs B C st w \<and> (\<forall>res. r = Inr res \<longrightarrow> map_of (materialized (mem w)) (hex_encode k) = Some (rs_DiskPath res)))
    (sound_blobs B C st)" (is "ensures ?S _ ?Q ?S")
  unfolding put_body_def
proof (rule ensures_bindE)
  let ?O = "\<lambda>x. case x of Inl _ \<Rightarrow> ?S | Inr fs \<Rightarrow> opened B C st fs"
  show "ensures ?S (tryE (put_open st (hex_encode k))) ?O ?S"
    by (rule ensures_tryE [OF ensures_put_open [OF l]]) simp_all
  fix x :: "err + (path \<times> nat \<times> path \<times> nat)"
  show "ensures (?O x) (case x of Inl e \<Rightarrow> returnE (Inl e, drainBody b)
     | Inr (bodyPath, bodyFile, blobTmpPath, blobTmp) \<Rightarrow>
         bindE (streamPutBody bodyFile b) (\<lambda>(copyErr, data, b').
         bindE (tryE (put_finish cd st req a (hex_encode k) (bodyPath, bodyFile, blobTmpPath, blobTmp) copyErr data)) (\<lambda>r.
         bindE (ignoreE (os_remove blobTmpPath)) (\<lambda>_.
         bindE (case r of Inl e \<Rightarrow> ignoreE (os_remove bodyPath) | Inr _ \<Rightarrow> returnE ()) (\<lambda>_.
         returnE (r, if copyErr = None then b' else drainBody b')))))) ?Q ?S"
  proof (cases x)
    case (Inl e)
    then show ?thesis by (simp add: ensures_returnE)
  next
    case (Inr fs)
    obtain p i q j where fs: "fs = (p, i, q, j)" by (cases fs) auto
    let ?N = "track B C st [(p, None), (q, None)]"
    let ?done = "\<lambda>r w. case r of Inl _ \<Rightarrow> ?N w | Inr res \<Rightarrow> rs_DiskPath res = p \<and> served B C st [(q, None)] (hex_encode k) p w"
    have stream: "ensures (opened B C st fs) (streamPutBody i b)
        (\<lambda>(e, data, b') w. (track B C st [(p, None), (q, Some (j, []))] w \<and>
           (e = None \<longrightarrow> track B C st [(p, Some (i, data)), (q, Some (j, []))] w)) \<and> prefix (runDir st) p \<and>
           (e = None \<longrightarrow> copy_body b = (data, None, b'))) ?S" (is "ensures _ _ ?P _")
    proof (rule ensuresI)
      fix w :: world and y w'
      assume "opened B C st fs w" "streamPutBody i b w = (Inr y, w')"
      then show "?P y w'" using streamPutBody_track [of i b w "Inr y" w' B C st p "[(q, Some (j, []))]"] by (auto simp: fs)
    next
      fix w :: world and e w'
      assume "opened B C st fs w" "streamPutBody i b w = (Inl e, w')"
      then show "?S w'" using streamPutBody_track [of i b w "Inl e" w' B C st p "[(q, Some (j, []))]"] by (auto simp: fs)
    qed
    have finish: "ensures (\<lambda>w. (track B C st [(p, None), (q, Some (j, []))] w \<and>
           (e = None \<longrightarrow> track B C st [(p, Some (i, data)), (q, Some (j, []))] w)) \<and> prefix (runDir st) p \<and>
           (e = None \<longrightarrow> copy_body b = (data, None, b')))
       (bindE (tryE (put_finish cd st req a (hex_encode k) (p, i, q, j) e data)) (\<lambda>r.
         bindE (ignoreE (os_remove q)) (\<lambda>_.
         bindE (case r of Inl e \<Rightarrow> ignoreE (os_remove p) | Inr _ \<Rightarrow> returnE ()) (\<lambda>_.
         returnE (r, if e = None then b' else drainBody b'))))) ?Q ?S" for e data b'
    proof (rule ensures_bindE)
      show "ensures (\<lambda>w. (track B C st [(p, None), (q, Some (j, []))] w \<and>
           (e = None \<longrightarrow> track B C st [(p, Some (i, data)), (q, Some (j, []))] w)) \<and> prefix (runDir st) p \<and>
           (e = None \<longrightarrow> copy_body b = (data, None, b')))
        (tryE (put_finish cd st req a (hex_encode k) (p, i, q, j) e data)) ?done ?S"
      proof (rule ensuresI)
        fix w :: world and r w'
        assume w: "(track B C st [(p, None), (q, Some (j, []))] w \<and>
           (e = None \<longrightarrow> track B C st [(p, Some (i, data)), (q, Some (j, []))] w)) \<and> prefix (runDir st) p \<and>
           (e = None \<longrightarrow> copy_body b = (data, None, b'))"
          and run: "tryE (put_finish cd st req a (hex_encode k) (p, i, q, j) e data) w = (Inr r, w')"
        have "ensures (\<lambda>w. track B C st [(p, None), (q, Some (j, []))] w \<and>
           (e = None \<longrightarrow> track B C st [(p, Some (i, data)), (q, Some (j, []))] w))
          (put_finish cd st req a (hex_encode k) (p, i, q, j) e data)
          (\<lambda>res w. rs_DiskPath res = p \<and> served B C st [(q, None)] (hex_encode k) p w) ?N"
          using w body by (intro ensures_put_finish [where B = B and C = C and k = k and cd = cd, OF l cd]) auto
        from ensures_tryE [OF this, of ?done] have "ensures (\<lambda>w. track B C st [(p, None), (q, Some (j, []))] w \<and>
           (e = None \<longrightarrow> track B C st [(p, Some (i, data)), (q, Some (j, []))] w))
          (tryE (put_finish cd st req a (hex_encode k) (p, i, q, j) e data)) ?done ?S" by simp
        from ensures_InrD [OF this _ run] w show "?done r w'" by simp
      qed (simp add: tryE_eq)
      show "ensures (?done r) (bindE (ignoreE (os_remove q)) (\<lambda>_.
         bindE (case r of Inl e \<Rightarrow> ignoreE (os_remove p) | Inr _ \<Rightarrow> returnE ()) (\<lambda>_.
         returnE (r, if e = None then b' else drainBody b')))) ?Q ?S" for r
      proof (cases r)
        case (Inl x)
        have q: "keeps ?N (os_remove q)"
          using keeps_remove [of B C st q "[(p, None)]"] by (simp add: keeps_def track_swap [of B C st "(q, None)"])
        show ?thesis
          unfolding Inl sum.case
          by (rule ensures_step_ignore [OF q], rule ensures_step_ignore [OF keeps_remove], rule ensures_returnE)
            (auto dest!: track_tl)
      next
        case (Inr res)
        have "frame mem (os_remove q)"
          using outside_file_effects(7) [of q] by (auto simp: frame_def outside_def)
        then have "keeps (served B C st [(q, None)] h p) (os_remove q)" for h p
          using keeps_remove [of B C st q "[]"] by (simp add: keeps_def served_def frame_def)
        then have q: "keeps (\<lambda>w. rs_DiskPath res = p \<and> served B C st [(q, None)] (hex_encode k) p w) (os_remove q)"
          by (auto simp: keeps_def)
        show ?thesis
          unfolding Inr sum.case
          by (rule ensures_step_ignore [OF q], rule ensures_step [OF keeps_pure(1)])
            (auto simp: served_def intro!: ensures_returnE dest!: track_tl)
      qed
    qed
    show ?thesis
      unfolding Inr fs
      by (simp only: sum.case prod.case, rule ensures_bindE [OF stream [unfolded fs prod.case]],
          simp only: split_paired_all prod.case, rule finish)
  qed
qed

section \<open>Gets\<close>

definition readable :: "(bytes \<Rightarrow> bytes \<Rightarrow> bool) \<Rightarrow> bytes \<Rightarrow> nat \<Rightarrow> world \<Rightarrow> bool" where
  "readable B k j w \<longleftrightarrow> B k (ino_data (inodes w j))"

abbreviation reading :: "(bytes \<Rightarrow> bytes \<Rightarrow> bool) \<Rightarrow> (bytes \<Rightarrow> bytes) \<Rightarrow> store \<Rightarrow> bytes \<Rightarrow> path \<Rightarrow> nat \<Rightarrow> nat \<Rightarrow> world \<Rightarrow> bool" where
  "reading B C st k p i j \<equiv> \<lambda>w. track B C st [(p, Some (i, []))] w \<and> j \<noteq> i \<and> readable B k j w"

lemma readable_fields [simp]:
  "readable B k j (w\<lparr>ticks := n\<rparr>) = readable B k j w" "readable B k j (w\<lparr>held := h\<rparr>) = readable B k j w"
  by (simp_all add: readable_def)

lemma keeps_reading:
  "keeps (reading B C st k p i j) (flock_unlock l)" "keeps (reading B C st k p i j) (flock_close l)"
  "keeps (reading B C st k p i j) (file_read n)" "keeps (reading B C st k p i j) (file_close n)"
  unfolding flock_unlock_def flock_close_def file_read_def file_close_def
  by (rule keeps_sys; simp add: keeps_def ticks_blind_def)+

lemma ensures_open_blob:
  "ensures (track B C st [(p, Some (i, []))]) (os_open (blobPath (blobsDir st) (hex_encode k)))
    (\<lambda>j. reading B C st k p i j) (track B C st [(p, Some (i, []))])"
  unfolding os_open_def
proof (rule ensures_sysI)
  let ?b = "blobPath (blobsDir st) (hex_encode k)" and ?T = "track B C st [(p, Some (i, []))]"
  have "case (case node_at w ?b of None \<Rightarrow> (Inl ErrNotExist, w) | Some (FileN i) \<Rightarrow> (Inr i, w)
      | Some _ \<Rightarrow> (Inl (SysErr ''not a regular file''), w)) of (Inl e, w') \<Rightarrow> ?T w'
      | (Inr j, w') \<Rightarrow> reading B C st k p i j w'" if t: "?T w" for w :: world
  proof -
    have "?b \<noteq> p" using trackD(6) [OF t, of p] by (auto simp: unclaimed_def is_blob_def)
    then have "node_at w ?b \<noteq> Some (FileN i)" using trackD(7) [OF t, of p i "[]"] by (auto simp: own_def)
    moreover have "node_at w ?b = Some (FileN j) \<Longrightarrow> readable B k j w" for j
      using trackD(2) [OF t] by (simp add: readable_def)
    ultimately show ?thesis using t by (auto split: option.splits node.splits)
  qed
  then show "ensures ?T (\<lambda>w. case node_at w ?b of None \<Rightarrow> (Inl ErrNotExist, w) | Some (FileN i) \<Rightarrow> (Inr i, w)
      | Some _ \<Rightarrow> (Inl (SysErr ''not a regular file''), w)) (\<lambda>j. reading B C st k p i j) ?T"
    unfolding ensures_def by blast
qed auto

lemma ensures_create_live:
  "ensures (reading B C st k p i j) (os_create p) (\<lambda>n w. n = i \<and> reading B C st k p i j w)
    (track B C st [(p, None)])"
proof (rule ensuresI)
  fix w :: world and n w'
  assume r: "reading B C st k p i j w" and run: "os_create p w = (Inr n, w')"
  from ensures_InrD [OF ensures_create _ run, of B C st i "[]" "[]"] r
  have n: "n = i" and t: "track B C st [(p, Some (i, []))] w'" by auto
  have "node_at w p = Some (FileN i)" using working_node [of B C st "[(p, Some (i, []))]" w p i "[]"] r by simp
  then have "inodes w' j = inodes w j"
    using sys_InrD [OF run [unfolded os_create_def]] r by (auto split: if_splits)
  with n t r show "n = i \<and> reading B C st k p i j w'" by (simp add: readable_def)
next
  fix w :: world and e w'
  assume r: "reading B C st k p i j w" and run: "os_create p w = (Inl e, w')"
  then show "track B C st [(p, None)] w'"
    using ensures_InlD [OF ensures_create _ run, of B C st i "[]" "[]"] by (auto intro: track_forget)
qed

lemma ensures_decompress:
  assumes rb: "reads_back cd B C n k"
  shows "ensures (reading B C st k p i j) (tryE (bindE (file_read j) (\<lambda>frame. case decompress cd frame of (out, e) \<Rightarrow>
      bindE (file_write i out) (\<lambda>_. case e of None \<Rightarrow> returnE (int (length out)) | Some x \<Rightarrow> failE x))))
    (\<lambda>r. case r of Inl _ \<Rightarrow> track B C st [(p, None)]
       | Inr m \<Rightarrow> track B C st [(p, if m = n then Some (i, C k) else None)]) E"
proof (rule ensures_tryE)
  show "ensures (reading B C st k p i j) (bindE (file_read j) (\<lambda>frame. case decompress cd frame of (out, e) \<Rightarrow>
      bindE (file_write i out) (\<lambda>_. case e of None \<Rightarrow> returnE (int (length out)) | Some x \<Rightarrow> failE x)))
    (\<lambda>m. track B C st [(p, if m = n then Some (i, C k) else None)]) (track B C st [(p, None)])"
  proof (rule ensures_bindE)
    show "ensures (reading B C st k p i j) (file_read j)
      (\<lambda>frame w. B k frame \<and> track B C st [(p, Some (i, []))] w) (track B C st [(p, None)])"
    proof (rule ensuresI)
      fix w :: world and frame w'
      assume r: "reading B C st k p i j w" and run: "file_read j w = (Inr frame, w')"
      have "reading B C st k p i j w'" by (rule keeps_eqD [OF keeps_reading(3) run r])
      moreover have "frame = ino_data (inodes w j)" using sys_InrD [OF run [unfolded file_read_def]] by auto
      ultimately show "B k frame \<and> track B C st [(p, Some (i, []))] w'"
        using r by (simp add: readable_def)
    next
      fix w :: world and e w'
      assume r: "reading B C st k p i j w" and run: "file_read j w = (Inl e, w')"
      from keeps_eqD [OF keeps_reading(3) run r] show "track B C st [(p, None)] w'" by (auto intro: track_forget)
    qed
    show "ensures (\<lambda>w. B k frame \<and> track B C st [(p, Some (i, []))] w)
      (case decompress cd frame of (out, e) \<Rightarrow>
        bindE (file_write i out) (\<lambda>_. case e of None \<Rightarrow> returnE (int (length out)) | Some x \<Rightarrow> failE x))
      (\<lambda>m. track B C st [(p, if m = n then Some (i, C k) else None)]) (track B C st [(p, None)])" for frame
    proof (rule ensures_pre)
      assume frame: "B k frame"
      obtain out e where dec: "decompress cd frame = (out, e)" by fastforce
      have "ensures (track B C st [(p, Some (i, out))]) (case e of None \<Rightarrow> returnE (int (length out)) | Some x \<Rightarrow> failE x)
        (\<lambda>m. track B C st [(p, if m = n then Some (i, C k) else None)]) (track B C st [(p, None)])"
      proof (cases e)
        case None
        have "out = C k" if "int (length out) = n" using rb frame dec None that by (auto simp: reads_back_def)
        then show ?thesis unfolding None option.case by (intro ensures_returnE) (auto intro: track_forget)
      next
        case (Some x)
        show ?thesis unfolding Some option.case by (rule ensures_failE) (rule track_forget)
      qed
      then show "ensures (track B C st [(p, Some (i, []))]) (case decompress cd frame of (out, e) \<Rightarrow>
          bindE (file_write i out) (\<lambda>_. case e of None \<Rightarrow> returnE (int (length out)) | Some x \<Rightarrow> failE x))
        (\<lambda>m. track B C st [(p, if m = n then Some (i, C k) else None)]) (track B C st [(p, None)])"
        unfolding dec prod.case using ensures_write [of B C st p i "[]" "[]" out] by (auto intro: ensures_bindE)
    qed
  qed
qed simp_all

lemma ensures_materialize_into:
  assumes l: "layout st" and k: "OutputID ent = hex_encode k" and rb: "reads_back cd B C (Size ent) k"
  shows "ensures (track B C st [(p, Some (i, []))]) (materialize_into cd st ent p)
    (\<lambda>_. track B C st [(p, Some (i, C k))]) (track B C st [(p, None)])"
  unfolding materialize_into_def k
proof (rule ensures_bindE)
  let ?T = "track B C st [(p, Some (i, []))]" and ?N = "track B C st [(p, None)]"
  show "ensures ?T (withOutputLock st (hex_encode k) (os_open (blobPath (blobsDir st) (hex_encode k))))
      (\<lambda>j. reading B C st k p i j) ?N"
  proof (rule ensures_conseq)
    show "ensures ?T (withOutputLock st (hex_encode k) (os_open (blobPath (blobsDir st) (hex_encode k))))
      (\<lambda>j. reading B C st k p i j) ?T"
      by (rule ensures_withOutputLock [OF ensures_open_blob])
        (simp | erule keeps_track_lock [OF l] | rule keeps_reading keeps_track_unlock keeps_track_mkdir | rule keeps_track_mem)+
  qed (auto intro: track_forget)
  fix j
  have final: "ensures (case r of Inl _ \<Rightarrow> ?N | Inr m \<Rightarrow> track B C st [(p, if m = Size ent then Some (i, C k) else None)])
     (bindE (tryE (file_close i)) (\<lambda>closeErr.
        case r of
          Inl x \<Rightarrow> failE (Wrap ''decompress cache entry'' [ErrInvalidCacheEntry, x])
        | Inr written \<Rightarrow>
            bindE (wrapE ''close live file'' (liftE closeErr)) (\<lambda>_.
            if written \<noteq> Size ent then failE (Wrap ''decompressed size mismatch'' [ErrInvalidCacheEntry])
            else returnE ())))
     (\<lambda>_. track B C st [(p, Some (i, C k))]) ?N" for r :: "err + int"
  proof (cases r)
    case (Inl x)
    show ?thesis unfolding Inl sum.case by (rule ensures_step_try [OF keeps_track_files(4)], rule ensures_failE)
  next
    case (Inr n)
    show ?thesis unfolding Inr sum.case
      by (rule ensures_step_try [OF keeps_track_files(4)], rule ensures_step_lift, erule track_forget, rule ensures_if)
        (rule ensures_failE, erule track_forget, rule ensures_returnE, simp)
  qed
  show "ensures (reading B C st k p i j) (finallyE
       (bindE (wrapE ''create live file'' (os_create p)) (\<lambda>bodyFile.
        bindE (tryE (bindE (file_read j) (\<lambda>frame.
                 case decompress cd frame of (out, e) \<Rightarrow>
                   bindE (file_write bodyFile out) (\<lambda>_.
                   case e of None \<Rightarrow> returnE (int (length out)) | Some x \<Rightarrow> failE x)))) (\<lambda>copied.
        bindE (tryE (file_close bodyFile)) (\<lambda>closeErr.
        case copied of
          Inl x \<Rightarrow> failE (Wrap ''decompress cache entry'' [ErrInvalidCacheEntry, x])
        | Inr written \<Rightarrow>
            bindE (wrapE ''close live file'' (liftE closeErr)) (\<lambda>_.
            if written \<noteq> Size ent then failE (Wrap ''decompressed size mismatch'' [ErrInvalidCacheEntry])
            else returnE ())))))
       (file_close j)) (\<lambda>_. track B C st [(p, Some (i, C k))]) ?N"
    by (rule ensures_finallyE [OF _ keeps_track_files(4) keeps_track_files(4)],
        rule ensures_bindE [OF ensures_wrapE [OF ensures_create_live]], rule ensures_pre,
        simp only:, rule ensures_bindE [OF ensures_decompress [OF rb] final])
qed

lemma ensures_materialize:
  assumes l: "layout st" and k: "OutputID ent = hex_encode k" and rb: "reads_back cd B C (Size ent) k"
  shows "ensures (sound_blobs B C st) (materialize cd st ent)
    (\<lambda>p w. (\<exists>i. track B C st [(p, Some (i, C k))] w) \<and> prefix (runDir st) p) (sound_blobs B C st)"
proof -
  let ?live = "\<lambda>p w. (\<exists>i. track B C st [(p, Some (i, []))] w) \<and> prefix (runDir st) p"
  let ?Q = "\<lambda>p w. (\<exists>i. track B C st [(p, Some (i, C k))] w) \<and> prefix (runDir st) p"
  have into: "ensures (?live p) (bindE (recoverE (materialize_into cd st ent p) (\<lambda>e.
      bindE (ignoreE (os_remove p)) (\<lambda>_. failE e))) (\<lambda>_. returnE p)) ?Q (track B C st [])" for p
  proof (rule ensures_bindE)
    have one: "ensures (track B C st [(p, Some (i, []))]) (recoverE (materialize_into cd st ent p) (\<lambda>e.
        bindE (ignoreE (os_remove p)) (\<lambda>_. failE e))) (\<lambda>_ w. \<exists>i. track B C st [(p, Some (i, C k))] w) (track B C st [])" for i
      by (rule ensures_conseq [OF ensures_recoverE [OF ensures_materialize_into [OF l k rb] ensures_remove_then_fail]]) auto
    show "ensures (?live p) (recoverE (materialize_into cd st ent p) (\<lambda>e.
        bindE (ignoreE (os_remove p)) (\<lambda>_. failE e))) (\<lambda>_. ?Q p) (track B C st [])"
      by (rule ensures_and [OF ensures_ex [OF one]])
  qed (rule ensures_returnE)
  have "ensures (track B C st []) (materialize cd st ent) ?Q (track B C st [])"
    unfolding materialize_def by (rule ensures_bindE [OF ensures_createLiveFile [OF l] into]) simp
  then show ?thesis by (simp add: track_Nil [abs_def])
qed

lemma keeps_track_dropAction:
  assumes l: "layout st"
  shows "keeps (track B C st S) (dropAction st a (hex_encode k))"
  unfolding dropAction_def remove_if_present_def
  by (intro keeps_bindE keeps_wrapE keeps_output_lock [OF l] keeps_recoverE keeps_remove_blob [OF l] keeps_if keeps_pure
      keeps_track_catalog keeps_deleteMaterialized)

lemma ensures_get_path:
  assumes l: "layout st" and k: "OutputID ent = hex_encode k" and rb: "reads_back cd B C (Size ent) k"
  shows "ensures (sound_blobs B C st) (get_path cd st a ent)
    (\<lambda>path w. case path of None \<Rightarrow> sound_blobs B C st w | Some p \<Rightarrow> served B C st [] (hex_encode k) p w) (sound_blobs B C st)"
    (is "ensures ?S _ ?Q ?S")
  unfolding get_path_def getMaterialized_def k
proof (rule ensures_bindE)
  let ?G = "\<lambda>known w. ?S w \<and> map_of (materialized (mem w)) (hex_encode k) = known"
  show "ensures ?S (getE (\<lambda>w. map_of (materialized (mem w)) (hex_encode k))) ?G ?S" by (rule ensures_getE) simp
  fix known
  have stat: "keeps (?G known) (regularFile p)" for p
  proof -
    have "frame mem (os_stat p)" using outside_file_effects(1) [of p] by (auto simp: frame_def outside_def)
    then have "keeps (\<lambda>w. mem w = m) (regularFile p)" for m
      unfolding regularFile_def frame_iff_keeps by (intro keeps_intros)
    then show ?thesis
      using keeps_track_stat(1) [of B C st "[]" p] unfolding keeps_def track_Nil by metis
  qed
  have found: "ensures (?G known) (case known of None \<Rightarrow> returnE False | Some p \<Rightarrow> regularFile p)
      (\<lambda>usable w. ?S w \<and> map_of (materialized (mem w)) (hex_encode k) = known \<and> (usable \<longrightarrow> known \<noteq> None)) ?S"
  proof (cases known)
    case None
    then show ?thesis by (auto intro: ensures_returnE)
  next
    case (Some p)
    show ?thesis
      using stat [of p] unfolding Some option.case
      by (intro ensures_conseq [OF ensures_keeps [OF stat [unfolded Some]]]) auto
  qed
  have fresh: "ensures ?S (bindE (tryE (materialize cd st ent)) (\<lambda>r.
       case r of
         Inl e \<Rightarrow>
           if errors_is ErrNotExist e \<or> errors_is ErrInvalidCacheEntry e
           then bindE (ignoreE (dropAction st a (hex_encode k))) (\<lambda>_. returnE None)
           else failE e
       | Inr path \<Rightarrow> bindE (setMaterialized (hex_encode k) path) (\<lambda>_. returnE (Some path)))) ?Q ?S"
  proof (rule ensures_bindE)
    show "ensures ?S (tryE (materialize cd st ent))
       (\<lambda>r w. case r of Inl _ \<Rightarrow> ?S w | Inr p \<Rightarrow> (\<exists>i. track B C st [(p, Some (i, C k))] w) \<and> prefix (runDir st) p) ?S"
      by (rule ensures_tryE [OF ensures_materialize [OF l k rb]]) simp_all
    fix r :: "err + path"
    show "ensures (\<lambda>w. case r of Inl _ \<Rightarrow> ?S w | Inr p \<Rightarrow> (\<exists>i. track B C st [(p, Some (i, C k))] w) \<and> prefix (runDir st) p)
      (case r of
         Inl e \<Rightarrow>
           if errors_is ErrNotExist e \<or> errors_is ErrInvalidCacheEntry e
           then bindE (ignoreE (dropAction st a (hex_encode k))) (\<lambda>_. returnE None)
           else failE e
       | Inr path \<Rightarrow> bindE (setMaterialized (hex_encode k) path) (\<lambda>_. returnE (Some path))) ?Q ?S"
    proof (cases r)
      case (Inl e)
      have "keeps ?S (dropAction st a (hex_encode k))"
        using keeps_track_dropAction [OF l, of B C "[]" a k] by (simp add: track_Nil [abs_def])
      then show ?thesis
        unfolding Inl sum.case
        by (intro ensures_if ensures_step_ignore ensures_returnE ensures_failE) simp_all
    next
      case (Inr p)
      have "ensures (track B C st [(p, Some (i, C k))]) (bindE (setMaterialized (hex_encode k) p) (\<lambda>_. returnE (Some p))) ?Q
          (track B C st [])" if "prefix (runDir st) p" for i
        by (rule ensures_bindE [OF ensures_served [OF that]], rule ensures_returnE) simp
      from ensures_ex [OF this] show ?thesis
        unfolding Inr sum.case
        by (cases "prefix (runDir st) p") (simp_all add: track_Nil [abs_def], simp add: ensures_def)
    qed
  qed
  show "ensures (?G known)
     (bindE (case known of None \<Rightarrow> returnE False | Some p \<Rightarrow> regularFile p) (\<lambda>usable.
     if usable then returnE known
     else bindE (tryE (materialize cd st ent)) (\<lambda>r.
       case r of
         Inl e \<Rightarrow>
           if errors_is ErrNotExist e \<or> errors_is ErrInvalidCacheEntry e
           then bindE (ignoreE (dropAction st a (hex_encode k))) (\<lambda>_. returnE None)
           else failE e
       | Inr path \<Rightarrow> bindE (setMaterialized (hex_encode k) path) (\<lambda>_. returnE (Some path))))) ?Q ?S"
    by (rule ensures_bindE [OF found], rule ensures_if, rule ensures_returnE, clarsimp simp: served_def,
        rule ensures_conseq [OF fresh]) auto
qed

lemma keeps_served_mark [keeps_intros]: "keeps (served B C st S h p) (markEntryAccess a h')"
proof -
  have blind: "db_blind (served B C st S h p)" by (simp add: db_blind_def served_def)
  have mem: "keeps (served B C st S h p) (modify_mem f)" if "\<And>m. materialized (f m) = materialized m" for f
    using keeps_track_mem [OF that] that by (auto simp: keeps_def served_def modify_mem_def)
  show ?thesis
    unfolding markEntryAccess_def flushAccessTimes_def writeAccessTimes_def restoreAccessed_def
    by (intro keeps_intros keeps_blind_sql [OF blind] keeps_blind_catalog [OF blind] mem; simp)
qed

lemma lookupEntry_row:
  assumes run: "lookupEntry a w = (Inr ent, w')"
  shows "\<exists>row\<in>set (outputs (db w)). OutputID ent = hex_encode (out_key row) \<and> Size ent = out_size row"
proof (cases "idKey a")
  case None
  with run show ?thesis by (simp add: lookupEntry_def q_lookupEntry_def idKeyE_def bindE_def)
next
  case (Some key)
  with run show ?thesis
    by (auto simp: lookupEntry_def lookup_program lookup_Some find_output_id_def
        split: option.splits if_splits prod.splits dest!: find_Some_key)
qed

definition file_data :: "world \<Rightarrow> path \<Rightarrow> bytes option" where
  "file_data w p = map_option ino_data (file_inode w p)"

lemma served_data: "served B C st S (hex_encode k) p w \<Longrightarrow> file_data w p = Some (C k)"
  using trackD(4) [of B C st S w "hex_encode k" p] by (auto simp: served_def file_data_def file_inode_def)

section \<open>What is served\<close>

lemma put_served:
  assumes l: "layout st" and cd: "B (rq_OutputID req) (compress cd (C (rq_OutputID req)))" and s: "sound_blobs B C st w"
    and body: "\<And>b data b'. bodyReader inp fin (rq_BodySize req) = Inr b \<Longrightarrow> copy_body b = (data, None, b') \<Longrightarrow>
      int (length data) = rq_BodySize req \<Longrightarrow> data = C (rq_OutputID req)"
    and run: "put cd st req inp fin w = (r, w')"
  shows "sound_blobs B C st w' \<and>
    (\<forall>res rest. r = Inr (Inr res, rest) \<longrightarrow> served B C st [] (hex_encode (rq_OutputID req)) (rs_DiskPath res) w')"
proof -
  consider (early) "w' = w" "\<And>res rest. r \<noteq> Inr (Inr res, rest)"
    | (body) a k b where "idHex ''OutputID'' (rq_OutputID req) = Inr (hex_encode k)" "k = rq_OutputID req"
        "bodyReader inp fin (rq_BodySize req) = Inr b"
        "bindE (put_body cd st req a (hex_encode k) b) (\<lambda>(r, b'). returnE (r, body_rest inp b')) w = (r, w')"
    using run by (auto simp: put_def split: sum.splits prod.splits dest: idHex_InrD)
  then show ?thesis
  proof cases
    case early
    with s show ?thesis by simp
  next
    case (body a k b)
    let ?Q = "\<lambda>(r, b') w. sound_blobs B C st w \<and> (\<forall>res. r = Inr res \<longrightarrow> map_of (materialized (mem w)) (hex_encode k) = Some (rs_DiskPath res))"
    have "ensures (sound_blobs B C st) (put_body cd st req a (hex_encode k) b) ?Q (sound_blobs B C st)"
      using assms(4) body(2,3) cd by (intro ensures_put_body [OF l]) auto
    then have "ensures (sound_blobs B C st) (bindE (put_body cd st req a (hex_encode k) b) (\<lambda>(r, b'). returnE (r, body_rest inp b')))
        ?Q (sound_blobs B C st)"
      by (rule ensures_bindE) (simp only: split_paired_all prod.case, rule ensures_returnE, simp)
    note Q = ensures_InrD [OF this s, of _ w'] ensures_InlD [OF this s, of _ w']
    have "sound_blobs B C st w'" using Q body(4) by (cases r) auto
    moreover have "served B C st [] (hex_encode (rq_OutputID req)) (rs_DiskPath res) w'" if r: "r = Inr (Inr res, rest)" for res rest
      using Q(1) [of "(Inr res, rest)"] body(2,4) r by (simp add: served_def)
    ultimately show ?thesis by blast
  qed
qed

lemma put_served_intact:
  assumes l: "layout st" and cd: "\<And>x. decompress cd (compress cd x) = (x, None)" and s: "sound cd C st w"
    and body: "\<And>b data b'. bodyReader inp fin (rq_BodySize req) = Inr b \<Longrightarrow> copy_body b = (data, None, b') \<Longrightarrow>
      int (length data) = rq_BodySize req \<Longrightarrow> data = C (rq_OutputID req)"
    and run: "put cd st req inp fin w = (r, w')"
  shows "sound cd C st w' \<and>
    (\<forall>res rest. r = Inr (Inr res, rest) \<longrightarrow>
      served (intact cd C) C st [] (hex_encode (rq_OutputID req)) (rs_DiskPath res) w')"
  unfolding sound_def
  by (rule put_served [OF l _ s [unfolded sound_def] _ run]) (simp_all add: intact_def cd, rule body)

lemma put_sound:
  assumes l: "layout st" and cd: "\<And>x. decompress cd (compress cd x) = (x, None)" and s: "sound cd C st w"
    and body: "\<And>b data b'. bodyReader inp fin (rq_BodySize req) = Inr b \<Longrightarrow> copy_body b = (data, None, b') \<Longrightarrow>
      int (length data) = rq_BodySize req \<Longrightarrow> data = C (rq_OutputID req)"
    and run: "put cd st req inp fin w = (r, w')"
  shows "sound cd C st w' \<and>
    (\<forall>res rest. r = Inr (Inr res, rest) \<longrightarrow> file_data w' (rs_DiskPath res) = Some (C (rq_OutputID req)))"
proof -
  have "sound cd C st w' \<and> (\<forall>res rest. r = Inr (Inr res, rest) \<longrightarrow>
      served (intact cd C) C st [] (hex_encode (rq_OutputID req)) (rs_DiskPath res) w')"
    by (rule put_served_intact [OF l cd s _ run]) (rule body)
  then show ?thesis using served_data by blast
qed

text \<open>
  C6. A put never leaves a wrong file behind. For any codec that decompresses what it compressed
  and any sound state, a put of an output whose transmitted body, if it arrives whole, is that
  output's content keeps the state sound whatever effect fails and whether or not the put
  succeeds; when it succeeds the path it answers with holds the content.
\<close>

theorem put_stores_content:
  assumes l: "layout st" and cd: "\<And>x. decompress cd (compress cd x) = (x, None)" and s: "sound cd C st w"
    and body: "\<And>b data b'. bodyReader inp fin (rq_BodySize req) = Inr b \<Longrightarrow> copy_body b = (data, None, b') \<Longrightarrow>
      int (length data) = rq_BodySize req \<Longrightarrow> data = C (rq_OutputID req)"
    and run: "put cd st req inp fin w = (r, w')"
  shows "sound cd C st w' \<and>
    (\<forall>res rest. r = Inr (Inr res, rest) \<longrightarrow> file_data w' (rs_DiskPath res) = Some (C (rq_OutputID req)))"
  by (rule put_sound [OF assms])

definition plain_codec :: codec where
  "plain_codec = \<lparr>compress = (\<lambda>x. x), decompress = (\<lambda>x. (x, None))\<rparr>"

definition hello_put :: request where
  "hello_put = \<lparr>rq_ID = 1, rq_Command = CmdPut, rq_ActionID = ''a'', rq_OutputID = ''o'', rq_BodySize = 5\<rparr>"

lemma sound_calm_world: "sound cd C sample_store calm_world"
  by (simp add: sound_def sound_blobs_def node_at_def calm_mem_def blobPath_def)

lemma layout_sample: "layout sample_store"
  by (simp add: layout_def)

theorem put_stores_content_witness:
  "sound plain_codec (\<lambda>_. ''hello'') sample_store
     (snd (put plain_codec sample_store hello_put (CHR 34 # b64_encode ''hello'' @ [CHR 34]) ErrEOF calm_world))"
proof -
  let ?inp = "CHR 34 # b64_encode ''hello'' @ [CHR 34]"
  obtain r w' where run: "put plain_codec sample_store hello_put ?inp ErrEOF calm_world = (r, w')" by fastforce
  have body: "data = ''hello''" if "bodyReader ?inp ErrEOF (rq_BodySize hello_put) = Inr b" "copy_body b = (data, None, b')"
    for b data b'
    using that bodyReader_string [of 5 "[]" "b64_encode ''hello'' @ [CHR 34]" ErrEOF] copy_encoded [of "''hello''" "[]" ErrEOF]
    by (auto simp: hello_put_def)
  have "sound plain_codec (\<lambda>_. ''hello'') sample_store w' \<and>
    (\<forall>res rest. r = Inr (Inr res, rest) \<longrightarrow> file_data w' (rs_DiskPath res) = Some ((\<lambda>_. ''hello'') (rq_OutputID hello_put)))"
    by (rule put_stores_content [OF layout_sample _ sound_calm_world body run]) (simp_all add: plain_codec_def)
  with run show ?thesis by simp
qed

lemma get_sound_blobs:
  assumes l: "layout st" and s: "sound_blobs B C st w" and run: "get cd st req w = (r, w')"
    and rows: "\<forall>row\<in>set (outputs (db w)). reads_back cd B C (out_size row) (out_key row)"
  shows "sound_blobs B C st w' \<and>
    (\<forall>res. r = Inr res \<longrightarrow> \<not> rs_Miss res \<longrightarrow> file_data w' (rs_DiskPath res) = Some (C (rs_OutputID res)))"
proof -
  let ?S = "sound_blobs B C st"
  let ?Q = "\<lambda>res w. ?S w \<and> (\<not> rs_Miss res \<longrightarrow> file_data w (rs_DiskPath res) = Some (C (rs_OutputID res)))"
  have S: "track B C st [] = ?S" by (rule ext) simp
  let ?P = "\<lambda>w. ?S w \<and> (\<forall>row\<in>set (outputs (db w)). reads_back cd B C (out_size row) (out_key row))"
  let ?row = "\<lambda>ent. \<exists>k. OutputID ent = hex_encode k \<and> reads_back cd B C (Size ent) k"
  have miss: "ensures ?S (returnE (missed req)) ?Q ?S" by (rule ensures_returnE) (simp add: missed_def)
  have answer: "ensures (served B C st [] (hex_encode k) p) (bindE (markEntryAccess a (hex_encode k)) (\<lambda>_.
      bindE (idKeyE (hex_encode k)) (\<lambda>key. returnE (no_response\<lparr>rs_ID := rq_ID req, rs_OutputID := key,
        rs_Size := sz, rs_Time := Some t, rs_DiskPath := p\<rparr>)))) ?Q ?S" for a k p sz t
    by (rule ensures_step [OF keeps_served_mark], simp add: served_def, simp add: idKeyE_def bindE_def ensures_def)
      (use served_data [of B C st "[]" k p] in \<open>auto simp: served_def\<close>)
  have hit: "ensures ?S (bindE (get_path cd st a ent) (\<lambda>path. case path of
      None \<Rightarrow> returnE (missed req)
    | Some p \<Rightarrow> bindE (markEntryAccess a (OutputID ent)) (\<lambda>_. bindE (idKeyE (OutputID ent)) (\<lambda>key.
        returnE (no_response\<lparr>rs_ID := rq_ID req, rs_OutputID := key, rs_Size := Size ent,
               rs_Time := Some (CreatedAt ent), rs_DiskPath := p\<rparr>))))) ?Q ?S" if k: "OutputID ent = hex_encode k" and rb: "reads_back cd B C (Size ent) k" for a ent k
  proof (rule ensures_bindE [OF ensures_get_path [OF l k rb]])
    fix path
    show "ensures (\<lambda>w. case path of None \<Rightarrow> ?S w | Some p \<Rightarrow> served B C st [] (hex_encode k) p w)
      (case path of None \<Rightarrow> returnE (missed req)
       | Some p \<Rightarrow> bindE (markEntryAccess a (OutputID ent)) (\<lambda>_. bindE (idKeyE (OutputID ent)) (\<lambda>key.
          returnE (no_response\<lparr>rs_ID := rq_ID req, rs_OutputID := key, rs_Size := Size ent,
               rs_Time := Some (CreatedAt ent), rs_DiskPath := p\<rparr>)))) ?Q ?S"
      unfolding k by (cases path) (simp_all only: option.case miss answer)
  qed
  have "ensures ?P (get cd st req) ?Q ?S"
    unfolding get_def
  proof (rule ensures_bindE [OF ensures_liftE [where Q = "\<lambda>_. ?P"]])
    fix a
    show "ensures ?P (bindE (tryE (lookupEntry a)) (\<lambda>found. case found of
       Inl e \<Rightarrow> if errors_is ErrNoRows e then returnE (missed req)
         else if errors_is ErrTagMismatch e then bindE (ignoreE (q_deleteAction a)) (\<lambda>_. returnE (missed req))
         else failE e
     | Inr ent \<Rightarrow> bindE (get_path cd st a ent) (\<lambda>path. case path of
           None \<Rightarrow> returnE (missed req)
         | Some p \<Rightarrow> bindE (markEntryAccess a (OutputID ent)) (\<lambda>_. bindE (idKeyE (OutputID ent)) (\<lambda>key.
             returnE (no_response\<lparr>rs_ID := rq_ID req, rs_OutputID := key, rs_Size := Size ent,
               rs_Time := Some (CreatedAt ent), rs_DiskPath := p\<rparr>)))))) ?Q ?S"
    proof (rule ensures_bindE)
      show "ensures ?P (tryE (lookupEntry a)) (\<lambda>r w. ?S w \<and> (\<forall>ent. r = Inr ent \<longrightarrow> ?row ent)) ?S"
      proof (rule ensuresI)
        fix w :: world and x w'
        assume s: "?P w" and run: "tryE (lookupEntry a) w = (Inr x, w')"
        from run have lookup: "lookupEntry a w = (x, w')" by (auto simp: tryE_def split: prod.splits)
        have "?S w'" using keeps_eqD [OF keeps_track_catalog(2) lookup [unfolded lookupEntry_def], of B C st "[]"] s by simp
        moreover have "?row ent" if "x = Inr ent" for ent
          using lookupEntry_row [OF lookup [unfolded that]] s by metis
        ultimately show "?S w' \<and> (\<forall>ent. x = Inr ent \<longrightarrow> ?row ent)" by blast
      qed (simp add: tryE_eq)
      fix found :: "err + entry"
      have forget: "keeps ?S (q_deleteAction a)" using keeps_track_catalog(3) [of B C st "[]"] by (simp add: S)
      show "ensures (\<lambda>w. ?S w \<and> (\<forall>ent. found = Inr ent \<longrightarrow> ?row ent)) (case found of
         Inl e \<Rightarrow> if errors_is ErrNoRows e then returnE (missed req)
           else if errors_is ErrTagMismatch e then bindE (ignoreE (q_deleteAction a)) (\<lambda>_. returnE (missed req))
           else failE e
       | Inr ent \<Rightarrow> bindE (get_path cd st a ent) (\<lambda>path. case path of
             None \<Rightarrow> returnE (missed req)
           | Some p \<Rightarrow> bindE (markEntryAccess a (OutputID ent)) (\<lambda>_. bindE (idKeyE (OutputID ent)) (\<lambda>key.
               returnE (no_response\<lparr>rs_ID := rq_ID req, rs_OutputID := key, rs_Size := Size ent,
                 rs_Time := Some (CreatedAt ent), rs_DiskPath := p\<rparr>))))) ?Q ?S"
      proof (cases found)
        case (Inl e)
        show ?thesis
          unfolding Inl sum.case
          by (rule ensures_conseq [where P = ?S and Q = ?Q and E = ?S], intro ensures_if miss ensures_step_ignore [OF forget] ensures_failE) simp_all
      next
        case (Inr ent)
        show ?thesis
        proof (cases "?row ent")
          case True
          then obtain k where "OutputID ent = hex_encode k" "reads_back cd B C (Size ent) k" by blast
          from hit [OF this] show ?thesis unfolding Inr sum.case by (rule ensures_conseq) auto
        qed (auto simp: Inr ensures_def)
      qed
    qed
  qed simp_all
  with s rows run show ?thesis by (cases r) (auto dest: ensures_InrD ensures_InlD)
qed

lemma get_sound:
  assumes "layout st" "sound cd C st w" "get cd st req w = (r, w')"
  shows "sound cd C st w' \<and>
    (\<forall>res. r = Inr res \<longrightarrow> \<not> rs_Miss res \<longrightarrow> file_data w' (rs_DiskPath res) = Some (C (rs_OutputID res)))"
  using get_sound_blobs [where B = "intact cd C" and C = C, OF assms(1) _ assms(3)] assms(2) by (simp add: sound_def)

lemma keeps_flush_catalog:
  assumes J: "shrink_stable J"
  shows "keeps (\<lambda>w. J (db w)) flushAccessTimes"
proof -
  have "keeps (\<lambda>w. J (db w)) (writeAccessTimes accs outs)" for accs outs
    unfolding writeAccessTimes_def
    by (rule keeps_transaction, rule keeps_bindE, rule keeps_recoverE, rule keeps_catalog(7) [OF J])
      (intro keeps_intros keeps_rollback keeps_commit; assumption)+
  then show ?thesis unfolding flushAccessTimes_def restoreAccessed_def by (intro keeps_intros)
qed

lemma keeps_get_catalog:
  assumes J: "shrink_stable J"
  shows "keeps (\<lambda>w. J (db w)) (get cd st req)"
  unfolding get_def get_path_def getMaterialized_def setMaterialized_def markEntryAccess_def lookupEntry_def
    dropAction_def deleteMaterialized_def remove_if_present_def materialize_def materialize_into_def
    createLiveFile_def regularFile_def idKeyE_def Let_def
  by (intro keeps_intros keeps_catalog [OF J] keeps_flush_catalog [OF J] keeps_db_locks keeps_db_files)

text \<open>The recorded sizes are those of the outputs; operations that only remove rows keep it.\<close>

definition sized :: "(bytes \<Rightarrow> bytes) \<Rightarrow> tables \<Rightarrow> bool" where
  "sized C d \<longleftrightarrow> (\<forall>row\<in>set (outputs d). out_size row = int (length (C (out_key row))))"

lemma sized_stable: "shrink_stable (sized C)"
  unfolding shrink_stable_def sized_def by (auto dest!: shrinks_outputD)

text \<open>
  C5. A get never serves a wrong artifact, damaged blobs included. Let every blob in the store
  be arbitrary data, as long as damage shows: data that decompresses without an error to as many
  bytes as the output has is the output's content. Let the recorded sizes be those of the
  outputs. Then whatever effects fail all this stays so, and a get that answers with a file
  answers with one that holds exactly the content of the output it names; a blob that is
  missing, truncated or damaged is at worst a miss or an error.
\<close>

theorem get_serves_content:
  assumes l: "layout st" and s: "sound_blobs (detectable cd C) C st w" and sz: "sized C (db w)"
    and run: "get cd st req w = (r, w')"
  shows "sound_blobs (detectable cd C) C st w' \<and> sized C (db w') \<and>
    (\<forall>res. r = Inr res \<longrightarrow> \<not> rs_Miss res \<longrightarrow> file_data w' (rs_DiskPath res) = Some (C (rs_OutputID res)))"
proof -
  have "\<forall>row\<in>set (outputs (db w)). reads_back cd (detectable cd C) C (out_size row) (out_key row)"
    using sz reads_back_detectable by (auto simp: sized_def)
  from get_sound_blobs [OF l s run this] keeps_eqD [OF keeps_get_catalog [OF sized_stable] run sz] show ?thesis by blast
qed

text \<open>
  A store with one good blob, a corrupt one and a truncated one, for a codec whose frames start
  with a mark.
\<close>

definition marked_codec :: codec where
  "marked_codec = \<lparr>compress = (\<lambda>x. CHR ''z'' # x),
     decompress = (\<lambda>x. case x of c # y \<Rightarrow> (y, if c = CHR ''z'' then None else Some (SysErr ''corrupt'')) | [] \<Rightarrow> ([], None))\<rparr>"

definition damaged_world :: world where
  "damaged_world = calm_world\<lparr>
     nodes := [(blobPath [''v'', ''blobs''] (hex_encode ''o''), FileN 0), (blobPath [''v'', ''blobs''] (hex_encode ''p''), FileN 1),
               (blobPath [''v'', ''blobs''] (hex_encode ''q''), FileN 2)],
     inodes := (\<lambda>i. \<lparr>ino_data = (if i = 0 then ''zhello'' else if i = 1 then ''xjelly'' else ''zhe''), ino_mtime = 0\<rparr>),
     next_ino := 3,
     db := empty_tables\<lparr>
       outputs := map (\<lambda>(i, k). \<lparr>out_id = i, out_key = k, out_size = 5, out_compressed = 6, out_accessed = 0,
         out_blob_type = None, out_blob_version = None, out_retained_type = None, out_retained_version = None\<rparr>)
         [(1, ''o''), (2, ''p''), (3, ''q'')],
       entries := map (\<lambda>(a, i, k). \<lparr>ent_action = a, ent_output = i, ent_tag = outputTag k, ent_created = 3, ent_accessed = 0\<rparr>)
         [(''a'', 1, ''o''), (''b'', 2, ''p''), (''c'', 3, ''q'')],
       out_seq := 3\<rparr>\<rparr>"

abbreviation ask :: "bytes \<Rightarrow> request" where
  "ask a \<equiv> hello_put\<lparr>rq_Command := CmdGet, rq_ActionID := a\<rparr>"

lemma sound_damaged: "sound_blobs (detectable marked_codec (\<lambda>_. ''hello'')) (\<lambda>_. ''hello'') sample_store damaged_world"
proof -
  have "detectable marked_codec (\<lambda>_. ''hello'') k (ino_data (inodes damaged_world i))" for k i
    by (simp add: detectable_def marked_codec_def damaged_world_def)
  then show ?thesis
    by (auto simp: sound_blobs_def damaged_world_def calm_mem_def node_at_def split: if_splits)
qed

lemma sized_damaged: "sized (\<lambda>_. ''hello'') (db damaged_world)"
  by (simp add: sized_def damaged_world_def)

lemma damaged_get:
  "case fst (get marked_codec sample_store (ask ''a'') damaged_world) of
     Inl _ \<Rightarrow> False | Inr res \<Rightarrow> \<not> rs_Miss res \<and> rs_OutputID res = ''o''"
  "fst (get marked_codec sample_store (ask ''b'') damaged_world) = Inr (missed (ask ''b''))"
  "fst (get marked_codec sample_store (ask ''c'') damaged_world) = Inr (missed (ask ''c''))"
  by code_simp+

theorem get_serves_content_witness:
  "\<exists>res w'. get marked_codec sample_store (ask ''a'') damaged_world = (Inr res, w') \<and> rs_OutputID res = ''o'' \<and>
     file_data w' (rs_DiskPath res) = Some ''hello'' \<and>
     fst (get marked_codec sample_store (ask ''b'') damaged_world) = Inr (missed (ask ''b'')) \<and>
     fst (get marked_codec sample_store (ask ''c'') damaged_world) = Inr (missed (ask ''c''))"
proof -
  obtain r w' where run: "get marked_codec sample_store (ask ''a'') damaged_world = (r, w')" by fastforce
  with damaged_get(1) obtain res where res: "r = Inr res" "\<not> rs_Miss res" "rs_OutputID res = ''o''" by (cases r) auto
  from get_serves_content [OF layout_sample sound_damaged sized_damaged run] res
  have "file_data w' (rs_DiskPath res) = Some ''hello''" by simp
  with run res damaged_get(2,3) show ?thesis by blast
qed

end
