(* ===== verification/Live_Runs.thy ===== *)
theory Live_Runs
  imports Maintenance Content
begin

text \<open>
  A build that is running is left alone by every helper that cleans up around it. \<open>guarded\<close>
  follows a set of file system nodes and the lock of the build's run directory through other
  helpers' maintenance, \<open>registry\<close> the build's row among the registered runs.
\<close>

section \<open>Nodes that stay\<close>

definition guarded :: "path \<Rightarrow> (path \<rightharpoonup> node) \<Rightarrow> world \<Rightarrow> bool" where
  "guarded l M w \<longleftrightarrow> busy w l \<and> (\<forall>q n. M q = Some n \<longrightarrow> q \<noteq> [] \<and> node_at w q = Some n)"

lemma guarded_iff:
  "guarded l M w \<longleftrightarrow> busy w l \<and> M [] = None \<and> (\<forall>q n. M q = Some n \<longrightarrow> map_of (nodes w) q = Some n)"
proof -
  have "(\<forall>q n. M q = Some n \<longrightarrow> q \<noteq> [] \<and> node_at w q = Some n) \<longleftrightarrow>
      M [] = None \<and> (\<forall>q n. M q = Some n \<longrightarrow> map_of (nodes w) q = Some n)"
    unfolding node_at_def by (metis not_Some_eq)
  then show ?thesis by (simp add: guarded_def)
qed

lemma guarded_fields [simp]:
  "guarded l M (w\<lparr>ticks := n\<rparr>) = guarded l M w" "guarded l M (w\<lparr>db := d\<rparr>) = guarded l M w"
  "guarded l M (w\<lparr>mem := m\<rparr>) = guarded l M w" "guarded l M (w\<lparr>held := h\<rparr>) = guarded l M w"
  "guarded l M (w\<lparr>inodes := f\<rparr>) = guarded l M w"
  by (simp_all add: guarded_def)

lemma ticks_blind_guarded [simp]: "ticks_blind (guarded l M)"
  by (simp add: ticks_blind_def)

lemma db_blind_guarded: "db_blind (guarded l M)"
  by (simp add: db_blind_def guarded_def)

lemma guarded_set_node:
  "guarded l M w \<Longrightarrow> node_at w p = None \<or> p \<notin> dom M \<Longrightarrow> p \<noteq> [] \<Longrightarrow> guarded l M (set_node p n w)"
  by (auto simp: guarded_def dom_def)

lemma guarded_del_node: "guarded l M w \<Longrightarrow> p \<notin> dom M \<Longrightarrow> guarded l M (del_node p w)"
  by (auto simp: guarded_iff dom_def del_node_def delete_conv')

lemma guarded_new_file: "guarded l M w \<Longrightarrow> node_at w p = None \<Longrightarrow> guarded l M (snd (new_file p w))"
  by (cases "p = []") (auto simp: guarded_def new_file_def Let_def)

lemma guarded_mkdir_chain: "guarded l M w \<Longrightarrow> guarded l M (snd (mkdir_chain pre cs w))"
  by (induction cs arbitrary: pre w) (auto intro: guarded_set_node split: option.splits node.splits)

lemma keeps_guarded_files [keeps_intros]:
  "keeps (guarded l M) (os_stat q)" "keeps (guarded l M) (os_open q)" "keeps (guarded l M) (file_read j)"
  "keeps (guarded l M) (file_close j)" "keeps (guarded l M) (os_read_dir q)" "keeps (guarded l M) (walk_dir q)"
  "keeps (guarded l M) (os_chtimes q t)" "keeps (guarded l M) (os_mkdir_all q)"
  unfolding os_stat_def os_open_def file_read_def file_close_def os_read_dir_def walk_dir_def os_chtimes_def os_mkdir_all_def
  by (rule keeps_sys; auto simp: keeps_def guarded_mkdir_chain split: option.splits node.splits)+

lemma keeps_guarded_create [keeps_intros]: "keeps (guarded l M) (os_create q)"
  unfolding os_create_def
  by (rule keeps_sys, simp, auto simp: keeps_def split: option.splits node.splits prod.splits,
      metis guarded_new_file snd_conv)

lemma keeps_guarded_write [keeps_intros]: "keeps (guarded l M) (file_write i bs)"
  by (auto simp: keeps_def file_write_def file_append_def Let_def split: option.splits)

lemma keeps_guarded_pure [keeps_intros]: "keeps (guarded l M) (modify_mem h)"
  by (simp add: keeps_def modify_mem_def)

lemmas keeps_guarded_sql [keeps_intros] = keeps_blind_sql [OF db_blind_guarded]
lemmas keeps_guarded_catalog [keeps_intros] = keeps_blind_catalog [OF db_blind_guarded]

lemma keeps_guarded_locks [keeps_intros]:
  "keeps (guarded l M) (flock_try c q)" "keeps (guarded l M) (flock_lock q)"
  "keeps (guarded l M) (flock_unlock q)" "keeps (guarded l M) (flock_close q)"
proof -
  have "keeps (guarded l M) (lock_file c q)" for c
    unfolding keeps_def lock_file_def by (auto intro: guarded_new_file)
  note lock = keeps_bindE [OF this]
  show "keeps (guarded l M) (flock_try c q)" "keeps (guarded l M) (flock_lock q)"
    "keeps (guarded l M) (flock_unlock q)" "keeps (guarded l M) (flock_close q)"
    unfolding flock_try_def flock_lock_def flock_unlock_def flock_close_def
    by (rule keeps_sys, simp, (rule lock)?, simp add: keeps_def)+
qed

lemma keeps_guarded_withLock [keeps_intros]:
  "keeps (guarded l M) fn \<Longrightarrow> keeps (guarded l M) (withFileLock q fn)"
  "keeps (guarded l M) fn \<Longrightarrow> keeps (guarded l M) (withFileLockIfFree q fn)"
  "keeps (guarded l M) fn \<Longrightarrow> keeps (guarded l M) (withOutputLock st h fn)"
  unfolding withOutputLock_def
  by (intro keeps_withFileLock keeps_withFileLockIfFree keeps_intros; assumption)+

lemma keeps_guarded_util [keeps_intros]:
  "keeps (guarded l M) (regularFile q)" "keeps (guarded l M) (fileSize q)" "keeps (guarded l M) (os_write_file q bs)"
  "keeps (guarded l M) (os_read_file q)"
  unfolding regularFile_def fileSize_def os_write_file_def os_read_file_def by (intro keeps_intros)+

lemma guarded_dom: "guarded l M w \<Longrightarrow> q \<in> dom M \<Longrightarrow> q \<noteq> []"
  by (auto simp: guarded_def)

lemma keeps_guarded_remove: "q \<notin> dom M \<Longrightarrow> keeps (guarded l M) (os_remove q)"
  unfolding os_remove_def
  by (rule keeps_sys) (auto simp: keeps_def guarded_del_node split: option.splits node.splits)

lemma keeps_guarded_remove_if [keeps_intros]: "q \<notin> dom M \<Longrightarrow> keeps (guarded l M) (remove_if_present msg q)"
  unfolding remove_if_present_def by (intro keeps_intros keeps_guarded_remove)

text \<open>
  A set of nodes closed under parents: what is not in it has nothing of it below.
\<close>

definition rooted :: "(path \<rightharpoonup> node) \<Rightarrow> bool" where
  "rooted M \<longleftrightarrow> (\<forall>q\<in>dom M. \<forall>p. prefix p q \<and> p \<noteq> [] \<longrightarrow> p \<in> dom M)"

lemma guarded_filter:
  assumes "guarded l M w" "rooted M" "p \<noteq> []" "p \<notin> dom M"
  shows "guarded l M (w\<lparr>nodes := filter (\<lambda>(q, n). \<not> prefix p q) (nodes w)\<rparr>)"
proof -
  have "map_of (filter (\<lambda>(q, n). \<not> prefix p q) ns) q = map_of ns q" if "\<not> prefix p q" for q and ns :: "(path \<times> node) list"
    using that by (induction ns) auto
  moreover have "\<not> prefix p q" if "M q = Some n" for q n
    using that assms(2-4) unfolding rooted_def by blast
  ultimately show ?thesis using assms(1) by (simp add: guarded_iff)
qed

lemma keeps_guarded_remove_all:
  "rooted M \<Longrightarrow> p \<noteq> [] \<Longrightarrow> p \<notin> dom M \<Longrightarrow> keeps (guarded l M) (os_remove_all p)"
  unfolding os_remove_all_def by (rule keeps_sys) (simp_all add: keeps_def guarded_filter)


section \<open>Which paths a pass may touch\<close>

text \<open>
  \<open>guards R B M\<close>: every guarded node is above or below the run directory \<open>R\<close>, or is one of
  \<open>B\<close>. Paths aside from \<open>R\<close> and outside \<open>B\<close> are then free to go.
\<close>

definition guards :: "path \<Rightarrow> (path \<Rightarrow> bool) \<Rightarrow> (path \<rightharpoonup> node) \<Rightarrow> bool" where
  "guards R B M \<longleftrightarrow> rooted M \<and> (\<forall>q\<in>dom M. \<not> q \<parallel> R \<or> B q)"

lemma guards_free: "guards R B M \<Longrightarrow> p \<parallel> R \<Longrightarrow> \<not> B p \<Longrightarrow> p \<notin> dom M"
  unfolding guards_def by blast

lemma guards_rooted: "guards R B M \<Longrightarrow> rooted M"
  by (simp add: guards_def)

definition is_run_dir :: "path \<Rightarrow> path \<Rightarrow> bool" where
  "is_run_dir root p \<longleftrightarrow>
     (\<exists>c. p = root @ [c] \<and> has_prefix c runDirPrefix) \<or>
     (\<exists>s c. p = root @ [s, c] \<and> \<not> has_prefix s runDirPrefix \<and> has_prefix c runDirPrefix)"

lemma run_dirs_apart:
  assumes "is_run_dir root p" "is_run_dir root q" "p \<noteq> q"
  shows "p \<parallel> q"
  using assms unfolding is_run_dir_def by (auto simp: parallel_def)

lemma run_dir_ne: "is_run_dir root p \<Longrightarrow> p \<noteq> []"
  by (auto simp: is_run_dir_def)

definition cache_layout :: "store \<Rightarrow> bool" where
  "cache_layout st \<longleftrightarrow> blobsDir st = versionDir st @ [''blobs''] \<and> liveRoot st = versionDir st @ [''live'']"

lemma beside_run:
  assumes "cache_layout st" "is_run_dir (liveRoot st) R" "prefix (versionDir st @ [c]) p" "c \<noteq> ''live''"
  shows "p \<parallel> R"
proof -
  from assms(3) obtain r where p: "p = versionDir st @ c # r" by (auto elim: prefixE)
  from assms(1,2) obtain s where R: "R = versionDir st @ ''live'' # s"
    by (auto simp: cache_layout_def is_run_dir_def)
  show ?thesis unfolding p R using assms(4) by (auto simp: parallel_def)
qed


section \<open>Loops over the catalog\<close>

text \<open>The loops of age expiry and of planning keep whatever their steps keep.\<close>

lemma keeps_stale_loop:
  assumes ids: "\<And>c. keeps I (staleActionIDs cutoff c)"
    and del: "\<And>ks. keeps I (deleteStaleByKey sql_delete_stale_entry cutoff ks)"
  shows "keeps I (delete_stale_entries cutoff cursor acc)"
proof -
  have "I w \<Longrightarrow> I (snd (delete_stale_entries cutoff cursor acc w))" for w
    using assms
  proof (induction cutoff cursor acc w rule: delete_stale_entries.induct)
    case (1 cutoff cursor acc w)
    obtain r1 w1 where a: "staleActionIDs cutoff cursor w = (r1, w1)" by (cases "staleActionIDs cutoff cursor w")
    note I1 = keeps_eqD [OF "1.prems"(2) a "1.prems"(1)]
    show ?case
    proof (cases "\<exists>ids. r1 = Inr ids \<and> ids \<noteq> []")
      case False
      with a I1 show ?thesis by (auto simp: delete_stale_entries.simps [of cutoff] split: sum.splits)
    next
      case True
      then obtain ids where ids: "r1 = Inr ids" "ids \<noteq> []" by blast
      obtain r2 w2 where b: "deleteStaleByKey sql_delete_stale_entry cutoff ids w1 = (r2, w2)"
        by (cases "deleteStaleByKey sql_delete_stale_entry cutoff ids w1")
      note I2 = keeps_eqD [OF "1.prems"(3) b I1]
      show ?thesis
      proof (cases r2)
        case (Inl e)
        with a b ids I2 show ?thesis by (simp add: delete_stale_entries.simps [of cutoff])
      next
        case (Inr n)
        have "I (snd (delete_stale_entries cutoff (last ids) (acc + n) w2))"
          by (rule "1.IH" [OF a [symmetric] ids b [symmetric] Inr I2 "1.prems"(2,3)])
        with a b ids Inr show ?thesis by (simp add: delete_stale_entries.simps [of cutoff cursor])
      qed
    qed
  qed
  then show ?thesis by (simp add: keeps_def)
qed

lemma keeps_plan_pages:
  assumes page: "\<And>c n. keeps I (evictionCandidates c n)"
  shows "keeps I (plan_pages cursor seen cands need)"
proof -
  have "I w \<Longrightarrow> I (snd (plan_pages cursor seen cands need w))" for w
  proof (induction cursor seen cands need w rule: plan_pages.induct)
    case (1 cursor seen cands need w)
    obtain r w1 where a: "evictionCandidates cursor evictionSampleSize w = (r, w1)"
      by (cases "evictionCandidates cursor evictionSampleSize w")
    note I1 = keeps_eqD [OF page a "1.prems"]
    show ?case
    proof (cases "need \<le> 0 \<or> (\<forall>b. r = Inr b \<longrightarrow> b = [])")
      case True
      with a I1 "1.prems" show ?thesis by (auto simp: plan_pages.simps [of cursor] split: sum.splits)
    next
      case False
      then obtain b where b: "\<not> need \<le> 0" "r = Inr b" "b \<noteq> []" by blast
      obtain s c n where t: "take_candidates b seen cands need = (s, c, n)"
        by (metis prod_cases3)
      have "I (snd (plan_pages (candidate_cursor (last b)) s c n w1))"
        by (rule "1.IH" [OF b(1) a [symmetric] b(2,3) t [symmetric] refl I1])
      with a b t show ?thesis by (simp add: plan_pages.simps [of cursor])
    qed
  qed
  then show ?thesis by (simp add: keeps_def)
qed

lemma keeps_guarded_stale [keeps_intros]: "keeps (guarded l M) (deleteStaleByKey stmt cutoff ks)"
proof -
  have "keeps (guarded l M) (delete_keys tx stmt cutoff ks n)" for tx n
  proof (induction ks arbitrary: n)
    case Nil
    show ?case by (simp only: delete_keys.simps keeps_pure)
  next
    case (Cons k ks)
    show ?case unfolding delete_keys.simps tx_stmt_def by (intro keeps_intros Cons)
  qed
  then show ?thesis unfolding deleteStaleByKey_def tx_stmt_def by (intro keeps_intros)
qed

lemma keeps_guarded_expiry [keeps_intros]: "keeps (guarded l M) (deleteAccessedBefore cutoff)"
proof -
  have "keeps (guarded l M) (delete_stale_outputs n cutoff acc)" for n acc
  proof (induction n arbitrary: acc)
    case 0
    show ?case by (simp only: delete_stale_outputs.simps keeps_pure)
  next
    case (Suc n)
    show ?case unfolding delete_stale_outputs.simps staleOutputIDs_def by (intro keeps_intros Suc)
  qed
  moreover have "keeps (guarded l M) (delete_stale_entries cutoff cursor acc)" for cursor acc
    by (rule keeps_stale_loop, unfold staleActionIDs_def) (intro keeps_intros)+
  ultimately show ?thesis
    unfolding deleteAccessedBefore_def deleteStaleEntries_def deleteStaleOutputs_def by (intro keeps_intros)
qed

lemma keeps_guarded_planning [keeps_intros]: "keeps (guarded l M) (planToMaxSize st cutoff)"
  unfolding planToMaxSize_def compressedSize_def evictionCandidates_def
  by (intro keeps_intros keeps_plan_pages) (unfold evictionCandidates_def, intro keeps_intros)


section \<open>Passes over the files\<close>

lemma yields_walk: "yields (walk_existing root) (\<lambda>visited. \<forall>(p, n)\<in>set visited. prefix root p)"
  unfolding yields_def using walk_existing_prefix by fast

lemma yields_planOrphans:
  "yields (planOrphans st b c) (\<lambda>orphans. \<forall>(s, ps)\<in>set orphans. \<forall>p\<in>set ps.
     prefix (retainedRoot (versionDir st)) p \<or> b \<and> prefix (blobsDir st) p)"
proof -
  have "\<forall>(s, ps)\<in>set orphans. \<forall>p\<in>set ps.
      prefix (retainedRoot (versionDir st)) p \<or> b \<and> prefix (blobsDir st) p"
    if "plan_shards st b c shards w = (Inr orphans, w')" for shards w orphans w'
    using that
  proof (induction shards arbitrary: w w' orphans)
    case (Cons s ss)
    from Cons.prems obtain ids w1 bl w2 re w3 rs w4 where
      "(if b then wrapE ''scan blobs in shard'' (orphanFilesInDir (blobsDir st @ [shardPrefix s]) ids [''.zst'']) else returnE []) w1 = (Inr bl, w2)"
      "orphanFilesInDir (retainedRoot (versionDir st) @ [shardPrefix s]) ids [''.a'', ''.go''] w2 = (Inr re, w3)"
      and r: "plan_shards st b c ss w3 = (Inr rs, w4)"
      and o': "orphans = (if bl @ re = [] then rs else (s, bl @ re) # rs)"
      by (auto simp: bindE_eq_Inr wrapE_eq_Inr Let_def)
    then have "\<forall>p\<in>set (bl @ re). prefix (retainedRoot (versionDir st)) p \<or> b \<and> prefix (blobsDir st) p"
      by (auto simp: wrapE_eq_Inr split: if_splits dest!: orphanFiles_prefix dest: append_prefixD)
    with Cons.IH [OF r] show ?case by (auto simp: o')
  qed simp
  then show ?thesis unfolding yields_def planOrphans_def by blast
qed


lemma set_update_sub: "x \<in> set (AList.update k v al) \<Longrightarrow> x = (k, v) \<or> x \<in> set al"
  by (induction al) (auto split: if_splits)

lemma yields_planRetained:
  "yields (planOldRetainedFiles st now) (\<lambda>ps. \<forall>p\<in>set ps. prefix (retainedRoot (versionDir st)) p)"
proof -
  have loop: "set ps \<subseteq> fst ` set ws"
    if "foldr (\<lambda>(p, n) rest. bindE (tryE (os_stat p)) (\<lambda>r. case r of
        Inl e \<Rightarrow> if errors_is ErrNotExist e then rest else failE (Wrap ''stat retained file'' [e])
      | Inr info \<Rightarrow> bindE rest (\<lambda>ps. returnE (if fi_mtime info < t then p # ps else ps)))) ws (returnE []) w = (Inr ps, w')"
    for t ps w w' and ws :: "(path \<times> node) list"
    using that
    by (induction ws arbitrary: ps w) (fastforce simp: bindE_eq_Inr tryE_eq split: sum.splits if_splits prod.splits)+
  have "prefix (retainedRoot (versionDir st)) p"
    if "planOldRetainedFiles st now w = (Inr ps, w')" "p \<in> set ps" for w ps w' p
  proof (cases "retainedAge (cfg st) \<le> 0")
    case False
    with that(1) obtain visited w1 where v: "walk_existing (retainedRoot (versionDir st)) w = (Inr visited, w1)"
      and "set ps \<subseteq> fst ` set visited"
      by (auto simp: planOldRetainedFiles_def bindE_eq_Inr Let_def dest!: loop) blast
    with that(2) walk_existing_prefix [OF v] show ?thesis by auto
  qed (use that in \<open>simp add: planOldRetainedFiles_def\<close>)
  then show ?thesis unfolding yields_def by blast
qed

text \<open>
  What every pass over the files needs of an invariant: looking and locking keep it, and so does
  removing what is free to go.
\<close>

locale file_passes =
  fixes I :: "world \<Rightarrow> bool" and free :: "path \<Rightarrow> bool"
  assumes quiet: "keeps I (os_stat p)" "keeps I (walk_dir p)" "keeps I (os_read_dir p)" "keeps I (os_mkdir_all p)"
      "keeps I (flock_try c p)" "keeps I (flock_lock p)" "keeps I (flock_unlock p)" "keeps I (flock_close p)"
      "keeps I (modify_mem h)" "keeps I time_now" "keeps I (os_write_file p bs)" "keeps I checkpointWAL"
    and reading: "keeps I (q_referencedOutputIDs n t)" "keeps I q_countRuns" "keeps I q_compressedSize"
      "keeps I (evictionCandidates k m)"
    and remove: "free p \<Longrightarrow> keeps I (os_remove p)"
begin

lemma locks:
  "keeps I fn \<Longrightarrow> keeps I (withFileLock q fn)" "keeps I fn \<Longrightarrow> keeps I (withFileLockIfFree q fn)"
  "keeps I fn \<Longrightarrow> keeps I (withOutputLock st h fn)"
  unfolding withOutputLock_def
  by (intro keeps_withFileLock keeps_withFileLockIfFree keeps_intros quiet; assumption)+

lemma regular: "keeps I (regularFile q)"
  unfolding regularFile_def by (intro keeps_intros quiet)

lemma remove_if: "free p \<Longrightarrow> keeps I (remove_if_present msg p)"
  unfolding remove_if_present_def by (intro keeps_intros remove)

lemma walk:
  "keeps I (walk_existing root)" "keeps I (orphanFilesInDir root ids exts)"
  "keeps I (referencedInShard shard m)"
  unfolding orphanFilesInDir_def walk_existing_def referencedInShard_def by (intro keeps_intros quiet reading)+

lemma plan_shards: "keeps I (plan_shards st b c shards)"
proof (induction shards)
  case Nil
  show ?case by (simp only: plan_shards.simps keeps_pure)
next
  case (Cons s ss)
  then show ?case unfolding plan_shards.simps Let_def by (intro keeps_intros walk)
qed

lemma planOrphans: "keeps I (planOrphans st b c)"
  unfolding planOrphans_def by (rule plan_shards)

lemma removeShard:
  "\<forall>p\<in>set ps. free p \<Longrightarrow> keeps I (removeShardOrphans ps ids before)"
proof (induction ps)
  case Nil
  show ?case by (simp only: removeShardOrphans.simps keeps_pure)
next
  case (Cons p ps)
  then show ?case unfolding removeShardOrphans.simps by (intro keeps_intros quiet remove_if) auto
qed

lemma removeOrphans:
  assumes "\<And>s ps p. (s, ps) \<in> set orphans \<Longrightarrow> p \<in> set ps \<Longrightarrow> free p"
  shows "keeps I (removeOrphans st orphans before)"
proof -
  have "\<forall>p\<in>set (the_default [] (map_of orphans s)). free p" for s
    by (cases "map_of orphans s") (auto dest: map_of_SomeD assms)
  then show ?thesis
    unfolding removeOrphans_def by (intro keeps_intros locks walk removeShard)
qed

lemma collect:
  assumes "\<And>p. prefix (retainedRoot (versionDir st)) p \<or> b \<and> prefix (blobsDir st) p \<Longrightarrow> free p"
    and "\<And>x. keeps I (f x)"
  shows "keeps I (bindE (planOrphans st b c) (\<lambda>orphans. bindE (removeOrphans st orphans t) f))"
  by (rule keeps_bind_yields [OF yields_planOrphans planOrphans])
    (rule keeps_bindE [OF removeOrphans assms(2)], use assms(1) in blast)

lemma emptyDirs:
  assumes "\<And>p. prefix root p \<Longrightarrow> p \<noteq> root \<Longrightarrow> free p"
  shows "keeps I (removeEmptyDirs root)"
  unfolding removeEmptyDirs_def Let_def
proof (rule keeps_bind_yields [OF yields_walk walk(1)])
  fix visited :: "(path \<times> node) list"
  assume v: "\<forall>(p, n)\<in>set visited. prefix root p"
  have "free p" if "p \<in> set (rev (map fst (filter (\<lambda>(p, n). n = DirN \<and> p \<noteq> root) visited)))" for p
    by (rule assms) (use that v in auto)
  then show "keeps I (forE (rev (map fst (filter (\<lambda>(p, n). n = DirN \<and> p \<noteq> root) visited)))
      (\<lambda>d. recoverE (os_remove d) (\<lambda>e. if errors_is ErrNotExist e then returnE () else ignoreE (os_read_dir d))))"
    by (intro keeps_intros quiet remove)
qed

lemma stalePending:
  assumes "\<And>p. prefix (blobsDir st) p \<Longrightarrow> free p"
  shows "keeps I (removeStalePendingBlobs st now)"
proof -
  have loop: "\<forall>p\<in>set ps. free p \<Longrightarrow> keeps I (remove_stale cutoff ps errs)" for cutoff ps errs
  proof (induction ps arbitrary: errs)
    case Nil
    show ?case by (simp only: remove_stale.simps keeps_pure)
  next
    case (Cons p ps)
    then show ?case unfolding remove_stale.simps by (intro keeps_intros quiet remove) auto
  qed
  have "yields (glob_pending (blobsDir st)) (\<lambda>ps. \<forall>p\<in>set ps. prefix (blobsDir st) p)"
    by (auto simp: yields_def glob_pending_def subtree_def strict_prefix_def)
  moreover have "keeps I (glob_pending (blobsDir st))"
    unfolding glob_pending_def by (intro keeps_intros quiet)
  moreover have "keeps I (bindE (remove_stale (now - mtimeInterval) ps None) returnErr)"
    if "\<forall>p\<in>set ps. prefix (blobsDir st) p" for ps
    by (intro keeps_intros quiet loop) (use that assms in blast)
  ultimately show ?thesis
    unfolding removeStalePendingBlobs_def by (rule keeps_bind_yields)
qed

lemma planToMax: "keeps I (planToMaxSize st cutoff)"
  unfolding planToMaxSize_def compressedSize_def by (intro keeps_intros keeps_plan_pages reading)

lemma due: "keeps I (sweepDue st now)" "keeps I (pruneDue st now)" "keeps I (retainedExpiryDue st now)"
  unfolding sweepDue_def pruneDue_def retainedExpiryDue_def stamp_due_def by (intro keeps_intros quiet)+

lemma marks: "keeps I (markSwept st)" "keeps I (markPruned st)" "keeps I (markRetainedExpired st)"
  unfolding markSwept_def markPruned_def markRetainedExpired_def by (intro keeps_intros quiet)+

lemma idle: "keeps I (cleanupAbandonedRuns st) \<Longrightarrow> keeps I (cacheIdle st)"
  unfolding cacheIdle_def countActive_def by (intro keeps_intros locks reading)

lemma planRetained: "keeps I (planOldRetainedFiles st now)"
proof -
  have loop: "keeps I (foldr (\<lambda>(p, n) rest. bindE (tryE (os_stat p)) (\<lambda>r. case r of
      Inl e \<Rightarrow> if errors_is ErrNotExist e then rest else failE (Wrap ''stat retained file'' [e])
    | Inr info \<Rightarrow> bindE rest (\<lambda>ps. returnE (if fi_mtime info < t then p # ps else ps)))) ws (returnE []))"
    for t and ws :: "(path \<times> node) list"
  proof (induction ws)
    case Nil
    show ?case by (simp only: foldr_Nil id_apply keeps_pure)
  next
    case (Cons x ws)
    then show ?case by (cases x) (simp only: foldr_Cons comp_apply prod.case, intro keeps_intros quiet)
  qed
  show ?thesis unfolding planOldRetainedFiles_def Let_def by (intro keeps_intros walk loop)
qed

end

text \<open>Passes that also change the catalog.\<close>

locale catalog_passes = file_passes +
  assumes changing: "keeps I (q_evictOutput h t)" "keeps I (deleteAccessedBefore cutoff)"
begin

lemma evict:
  assumes "\<And>p. prefix (blobsDir st) p \<Longrightarrow> free p"
  shows "keeps I (evictToMaxSize st cs)"
proof -
  have blob: "free (blobPath (blobsDir st) h)" for h
    by (rule assms) (simp add: blobPath_def blobDir_def)
  have "keeps I (evict_loop st cs sz ev)" for sz ev
  proof (induction cs arbitrary: sz ev)
    case Nil
    show ?case by (simp only: evict_loop.simps keeps_pure)
  next
    case (Cons c cs)
    show ?case unfolding evict_loop.simps by (intro keeps_intros locks remove_if changing blob Cons)
  qed
  then show ?thesis unfolding evictToMaxSize_def compressedSize_def by (intro keeps_intros reading)
qed

lemma sweeping:
  assumes "\<And>p. prefix (blobsDir st) p \<or> prefix (retainedRoot (versionDir st)) p \<Longrightarrow> free p"
    and "keeps I (sweepLiveRuns st now)"
  shows "keeps I (sweepUnlocked st now)"
proof -
  have blobs: "free p" if "prefix (blobsDir st) p" for p by (rule assms(1)) (simp add: that)
  have retained: "free p" if "prefix (retainedRoot (versionDir st)) p" for p by (rule assms(1)) (simp add: that)
  have both: "free p" if "prefix (retainedRoot (versionDir st)) p \<or> True \<and> prefix (blobsDir st) p" for p
    using that blobs retained by blast
  have dirs: "keeps I (removeEmptyDirs (blobsDir st))" "keeps I (removeEmptyDirs (retainedRoot (versionDir st)))"
    by (rule emptyDirs, rule blobs retained, assumption)+
  show ?thesis
    unfolding sweepUnlocked_def pruneOldEntries_def
    by (intro keeps_bindE keeps_if keeps_wrapE keeps_pure changing dirs assms(2) collect [OF both] stalePending [OF blobs])
qed

lemma scanning:
  assumes "\<And>p. prefix (blobsDir st) p \<or> prefix (retainedRoot (versionDir st)) p \<Longrightarrow> free p"
  shows "keeps I (scan st)"
proof -
  have cand: "\<forall>(s, ps)\<in>set (addRetainedCandidates st acc ids). \<forall>p\<in>set ps. free p"
    if "\<forall>(s, ps)\<in>set acc. \<forall>p\<in>set ps. free p" for acc ids
    using that
  proof (induction ids arbitrary: acc)
    case (Cons h ids)
    have path: "free (retainedPath st h e)" for e
      by (rule assms) (simp add: retainedPath_def retainedDir_def)
    have add: "\<forall>(s, ps)\<in>set (add_path k q m). \<forall>p\<in>set ps. free p"
      if "\<forall>(s, ps)\<in>set m. \<forall>p\<in>set ps. free p" "free q" for k q m
    proof -
      have "\<forall>p\<in>set (the_default [] (map_of m k)). free p"
        using that(1) by (cases "map_of m k") (auto dest: map_of_SomeD)
      with that show ?thesis
        unfolding add_path_def by (auto dest!: set_update_sub)
    qed
    show ?case
    proof (cases "parse_shard (take 2 h)")
      case None
      then have "addRetainedCandidates st acc (h # ids) = addRetainedCandidates st acc ids"
        by (simp add: addRetainedCandidates_def)
      with Cons show ?thesis by simp
    next
      case (Some k)
      then have "addRetainedCandidates st acc (h # ids) = addRetainedCandidates st
          (add_path (nat k) (retainedPath st h ''.go'') (add_path (nat k) (retainedPath st h ''.a'') acc)) ids"
        by (simp add: addRetainedCandidates_def)
      moreover note Cons.IH [OF add [OF add [OF Cons.prems path] path]]
      ultimately show ?thesis by simp
    qed
  qed (simp add: addRetainedCandidates_def)
  have blobs: "free p" if "prefix (blobsDir st) p" for p by (rule assms) (simp add: that)
  have dropped: "keeps I (removeOrphans st (addRetainedCandidates st [] ids) t)" for ids t
  proof (rule removeOrphans)
    fix k ps p
    assume "(k, ps) \<in> set (addRetainedCandidates st [] ids)" "p \<in> set ps"
    with cand [of "[]" ids] show "free p" by auto
  qed
  show ?thesis
    unfolding scan_def planPrune_def applyPrune_def Let_def
    by (intro keeps_bindE keeps_if keeps_pure quiet planToMax due marks evict dropped blobs)
qed

lemma expiring:
  assumes "\<And>p. prefix (retainedRoot (versionDir st)) p \<Longrightarrow> free p" "keeps I (cleanupAbandonedRuns st)"
  shows "keeps I (expireRetainedWhenIdle st now)"
proof -
  have remove: "keeps I (removeExpiredRetainedFiles ps t)" if "\<forall>p\<in>set ps. prefix (retainedRoot (versionDir st)) p" for ps t
    unfolding removeExpiredRetainedFiles_def
    by (intro keeps_intros quiet remove_if) (use that assms(1) in blast)
  show ?thesis
    unfolding expireRetainedWhenIdle_def countActive_def
    by (rule keeps_bindE [OF idle [OF assms(2)]], rule keeps_if, rule keeps_pure,
        rule keeps_bind_yields [OF yields_planRetained planRetained])
      (intro keeps_intros locks reading quiet marks remove)
qed

lemma pruning:
  assumes "\<And>p. prefix (blobsDir st) p \<or> prefix (retainedRoot (versionDir st)) p \<Longrightarrow> free p"
    and "\<And>now. keeps I (sweepLiveRuns st now)" "keeps I (cleanupAbandonedRuns st)"
  shows "keeps I (prune st)"
proof -
  have retained: "free p" if "prefix (retainedRoot (versionDir st)) p" for p by (rule assms(1)) (simp add: that)
  show ?thesis
    unfolding prune_def
    by (intro keeps_bindE keeps_if keeps_pure keeps_ignoreE quiet due locks marks sweeping [OF assms(1,2)]
        scanning [OF assms(1)] expiring [OF retained assms(3)])
qed

end

section \<open>Run directories\<close>

lemma children_path: "q \<in> set (children w root) \<Longrightarrow> q = root @ [last q]"
  by (cases "q = []") (auto simp: children_def subtree_def)

lemma read_dir_InrD:
  assumes "os_read_dir root w = (Inr items, w')" "(q, n) \<in> set items"
  shows "q = root @ [last q]"
  using assms by (auto simp: os_read_dir_def dest!: sys_InrD children_path split: option.splits node.splits)

text \<open>Listing a directory entry by entry, and collecting what each yields.\<close>

abbreviation collecting :: "('a \<Rightarrow> 'b list io) \<Rightarrow> 'a list \<Rightarrow> 'b list io" where
  "collecting visit items \<equiv>
     foldr (\<lambda>item rest. bindE (visit item) (\<lambda>ds. bindE rest (\<lambda>es. returnE (ds @ es)))) items (returnE [])"

lemma yields_collecting:
  "(\<And>i. i \<in> set items \<Longrightarrow> yields (visit i) (\<lambda>ds. \<forall>p\<in>set ds. A p)) \<Longrightarrow>
    yields (collecting visit items) (\<lambda>ds. \<forall>p\<in>set ds. A p)"
  by (induction items) (fastforce simp: yields_def bindE_eq_Inr)+

lemma keeps_collecting: "(\<And>i. i \<in> set items \<Longrightarrow> keeps I (visit i)) \<Longrightarrow> keeps I (collecting visit items)"
  by (induction items) (auto intro!: keeps_intros)

lemma ensures_collecting:
  assumes "i \<in> set items" "\<And>j. j \<in> set items \<Longrightarrow> keeps I (visit j)"
    and "ensures I (visit i) (\<lambda>ds _. x \<in> set ds) (\<lambda>_. True)"
  shows "ensures I (collecting visit items) (\<lambda>ds _. x \<in> set ds) (\<lambda>_. True)"
  using assms(1,2)
proof (induction items)
  case (Cons j items)
  show ?case
  proof (cases "j = i")
    case True
    have "x \<in> set ds" if "I w" "collecting visit (j # items) w = (Inr ds, w')" for w ds w'
      using that True ensures_InrD [OF assms(3) that(1)] by (fastforce simp: bindE_eq_Inr)
    then show ?thesis by (blast intro: ensuresI)
  next
    case False
    then have IH: "ensures I (collecting visit items) (\<lambda>ds _. x \<in> set ds) (\<lambda>_. True)"
      by (intro Cons.IH) (use Cons.prems in simp_all)
    have j: "keeps I (visit j)" using Cons.prems by simp
    have "x \<in> set ds" if "I w" "collecting visit (j # items) w = (Inr ds, w')" for w ds w'
      using that ensures_InrD [OF IH] keeps_eqD [OF j] by (fastforce simp: bindE_eq_Inr)
    then show ?thesis by (blast intro: ensuresI)
  qed
qed simp

definition visit_live :: "path \<times> node \<Rightarrow> path list io" where
  "visit_live = (\<lambda>(p, n). if has_prefix (last p) runDirPrefix then returnE [p]
     else bindE (tryE (os_read_dir p)) (\<lambda>r.
       case r of
         Inl e \<Rightarrow> if errors_is ErrNotExist e then returnE [] else failE (Wrap ''read live shard'' [e])
       | Inr subs \<Rightarrow> returnE (map fst (filter (\<lambda>(q, m). m = DirN \<and> has_prefix (last q) runDirPrefix) subs))))"

lemma liveRunDirs_collecting:
  "liveRunDirs root =
     bindE (tryE (os_read_dir root)) (\<lambda>r.
     case r of
       Inl e \<Rightarrow> if errors_is ErrNotExist e then returnE [] else failE (Wrap ''read live dir'' [e])
     | Inr items \<Rightarrow> collecting visit_live (filter (\<lambda>(p, n). n = DirN) items))"
  unfolding liveRunDirs_def visit_live_def Let_def ..

lemma yields_visit: "p = root @ [last p] \<Longrightarrow> yields (visit_live (p, n)) (\<lambda>ds. \<forall>d\<in>set ds. is_run_dir root d)"
proof -
  assume p: "p = root @ [last p]"
  have "is_run_dir root q" if "q = p @ [last q]" "\<not> has_prefix (last p) runDirPrefix" "has_prefix (last q) runDirPrefix" for q
  proof -
    from that(1) p have "q = root @ [last p, last q]" by (metis append.assoc append_Cons append_Nil)
    with that(2,3) show ?thesis unfolding is_run_dir_def by blast
  qed
  moreover have "is_run_dir root p" if "has_prefix (last p) runDirPrefix"
    using that p unfolding is_run_dir_def by blast
  ultimately show ?thesis
    by (auto simp: yields_def visit_live_def bindE_eq_Inr tryE_eq split: sum.splits if_splits dest: read_dir_InrD)
      (metis prod.collapse read_dir_InrD)
qed

lemma yields_liveRunDirs: "yields (liveRunDirs root) (\<lambda>ds. \<forall>d\<in>set ds. is_run_dir root d)"
proof -
  have "\<forall>d\<in>set ds. is_run_dir root d"
    if "os_read_dir root w = (Inr items, w1)" "collecting visit_live (filter (\<lambda>(p, n). n = DirN) items) w1 = (Inr ds, w2)"
    for items ds w w1 w2
  proof -
    have "yields (collecting visit_live (filter (\<lambda>(p, n). n = DirN) items)) (\<lambda>ds. \<forall>d\<in>set ds. is_run_dir root d)"
      by (rule yields_collecting) (auto intro!: yields_visit read_dir_InrD [OF that(1)])
    with that(2) show ?thesis unfolding yields_def by blast
  qed
  then show ?thesis
    unfolding yields_def liveRunDirs_collecting
    by (auto simp: bindE_eq_Inr tryE_eq split: sum.splits if_splits) (metis prod.collapse)
qed

lemma keeps_guarded_visit: "keeps (guarded l M) (visit_live v)"
  unfolding visit_live_def by (intro keeps_intros)

lemma keeps_guarded_liveRunDirs [keeps_intros]: "keeps (guarded l M) (liveRunDirs root)"
  unfolding liveRunDirs_collecting by (intro keeps_intros keeps_collecting keeps_guarded_visit)


lemma ensures_yields: "yields m A \<Longrightarrow> ensures P m Q E \<Longrightarrow> ensures P m (\<lambda>x w. A x \<and> Q x w) E"
  by (rule ensuresI) (auto simp: yields_def dest: ensures_InrD ensures_InlD)

text \<open>A lock another process holds is not taken, so its run is neither swept nor reclaimed.\<close>

lemma busy_try:
  assumes "guarded l M w" "flock_try c l w = (Inr b, w')"
  shows "\<not> b"
proof -
  have "busy w1 l" if "lock_file c l (w\<lparr>ticks := n\<rparr>) = (r, w1)" for r w1 n
    using that assms(1) by (auto simp: lock_file_def guarded_def new_file_def Let_def split: if_splits)
  with assms(2) show ?thesis
    by (auto simp: flock_try_def bindE_eq_Inr dest!: sys_InrD split: if_splits)
qed

lemma busy_not_taken: "guarded l M w \<Longrightarrow> fst (flock_try c l w) = Inr b \<Longrightarrow> \<not> b"
  using busy_try by (metis prod.collapse)

lemma ensures_busy_try: "ensures (guarded l M) (flock_try c l) (\<lambda>b w. \<not> b \<and> guarded l M w) (guarded l M)"
  by (rule ensuresI) (auto dest: busy_try keeps_eqD [OF keeps_guarded_locks(1)])

lemma liveRunExpired_busy:
  assumes "guarded (runLockPath R) M w" "liveRunExpiredIfUnlocked R cutoff w = (Inr b, w')"
  shows "\<not> b"
  using assms(2)
  by (auto simp: liveRunExpiredIfUnlocked_def Let_def bindE_eq_Inr tryE_eq ignoreE_eq
      dest: busy_not_taken [OF assms(1)] split: sum.splits bool.splits if_splits)

lemma keeps_case_bool [keeps_intros]:
  "(b \<Longrightarrow> keeps I m) \<Longrightarrow> (\<not> b \<Longrightarrow> keeps I n) \<Longrightarrow> keeps I (case b of True \<Rightarrow> m | False \<Rightarrow> n)"
  by (cases b) auto

lemma keeps_guarded_expired [keeps_intros]: "keeps (guarded l M) (liveRunExpiredIfUnlocked d cutoff)"
  unfolding liveRunExpiredIfUnlocked_def retainedLiveRunExpired_def Let_def by (intro keeps_intros)

lemma keeps_guarded_sweep:
  assumes g: "guards R B M" and R: "is_run_dir (liveRoot st) R"
    and B: "\<And>p. prefix (liveRoot st) p \<Longrightarrow> \<not> B p"
  shows "keeps (guarded (runLockPath R) M) (sweepLiveRuns st now)"
proof -
  have one: "keeps (guarded (runLockPath R) M) (bindE (liveRunExpiredIfUnlocked d cutoff) (\<lambda>expired.
      if \<not> expired then returnE () else wrapE ''remove old retained live run'' (os_remove_all d)))"
    if d: "is_run_dir (liveRoot st) d" for d cutoff
  proof (cases "d = R")
    case True
    show ?thesis
      unfolding keeps_def True
      by (intro allI impI)
        (auto simp: bindE_def split: prod.splits sum.splits dest: liveRunExpired_busy keeps_eqD [OF keeps_guarded_expired])
  next
    case False
    have "prefix (liveRoot st) d" using d by (auto simp: is_run_dir_def)
    then have "d \<notin> dom M" using guards_free [OF g run_dirs_apart [OF d R False]] B by blast
    then show ?thesis
      by (intro keeps_intros keeps_guarded_remove_all guards_rooted [OF g] run_dir_ne [OF d])
  qed
  show ?thesis
    unfolding sweepLiveRuns_def Let_def
    by (intro keeps_if keeps_pure keeps_bind_yields [OF yields_liveRunDirs keeps_guarded_liveRunDirs] keeps_forE one) blast
qed


section \<open>The register of runs\<close>

text \<open>
  Every row leads to a run directory, the row named \<open>i\<close> leads to \<open>R\<close>, and it is there.
\<close>

definition row_ok :: "store \<Rightarrow> path \<Rightarrow> bytes \<Rightarrow> bytes \<Rightarrow> path \<Rightarrow> bool" where
  "row_ok st R i key rel \<longleftrightarrow>
     is_run_dir (liveRoot st) (path_join (versionDir st) rel) \<and> (key = i \<longrightarrow> path_join (versionDir st) rel = R)"

definition registry :: "store \<Rightarrow> path \<Rightarrow> bytes \<Rightarrow> tables \<Rightarrow> bool" where
  "registry st R i d \<longleftrightarrow>
     (\<forall>r\<in>set (runs d). row_ok st R i (run_key r) (run_path r)) \<and> (\<exists>r\<in>set (runs d). run_key r = i)"

lemma registry_delete: "k \<noteq> i \<Longrightarrow> registry st R i d \<Longrightarrow> registry st R i (sql_delete_run k d)"
  by (auto simp: registry_def sql_delete_run_def)

lemma registry_runs: "runs d' = runs d \<Longrightarrow> registry st R i d' = registry st R i d"
  by (simp add: registry_def)

definition tended :: "store \<Rightarrow> path \<Rightarrow> bytes \<Rightarrow> (path \<rightharpoonup> node) \<Rightarrow> world \<Rightarrow> bool" where
  "tended st R i M w \<longleftrightarrow> guarded (runLockPath R) M w \<and> registry st R i (db w)"

lemma keeps_tended:
  "keeps (guarded (runLockPath R) M) m \<Longrightarrow> keeps (\<lambda>w. registry st R i (db w)) m \<Longrightarrow> keeps (tended st R i M) m"
  unfolding tended_def by (rule keeps_conj)

lemma keeps_tended_leaves [keeps_intros]:
  "keeps (tended st R i M) (os_stat q)" "keeps (tended st R i M) (flock_try c q)" "keeps (tended st R i M) (flock_lock q)"
  "keeps (tended st R i M) (flock_unlock q)" "keeps (tended st R i M) (flock_close q)" "keeps (tended st R i M) (sql_read g)"
  "keeps (tended st R i M) time_now" "keeps (tended st R i M) (modify_mem h)"
  by (rule keeps_tended; intro keeps_intros)+

lemma keeps_tended_delete: "k \<noteq> i \<Longrightarrow> keeps (tended st R i M) (q_deleteRun k)"
  unfolding q_deleteRun_def
  by (rule keeps_tended, intro keeps_intros, rule keeps_db_sql_exec, erule (1) registry_delete)

lemma keeps_undoing [keeps_intros]: "keeps I undo \<Longrightarrow> keeps I m \<Longrightarrow> keeps I (undoing undo m)"
  unfolding undoing_def by (intro keeps_intros)

lemma keeps_busy_branch:
  assumes I: "\<And>w. I w \<Longrightarrow> guarded l M w" and "keeps I undo" "keeps I (flock_try c l)" "keeps I (f False)"
  shows "keeps I (bindE (undoing undo (wrapE msg (flock_try c l))) f)"
proof -
  have "I (snd (f b w1))" if "I w" "undoing undo (wrapE msg (flock_try c l)) w = (Inr b, w1)" for b w w1
  proof -
    from that(2) have t: "flock_try c l w = (Inr b, w1)"
      by (auto simp: undoing_def recoverE_eq_Inr wrapE_eq_Inr bindE_eq_Inr)
    from busy_try [OF I [OF that(1)] t] keepsD [OF assms(4) keeps_eqD [OF assms(3) t that(1)]] show ?thesis by simp
  qed
  moreover have "keeps I (undoing undo (wrapE msg (flock_try c l)))" by (intro keeps_intros assms)
  ultimately show ?thesis
    by (fastforce simp: keeps_def bindE_def split: prod.splits sum.splits dest: arg_cong [of _ _ snd])
qed

lemma stat_present: "node_at w p \<noteq> None \<Longrightarrow> os_stat p w = (Inl e, w') \<Longrightarrow> \<not> errors_is ErrNotExist e"
  by (auto simp: os_stat_def dest!: sys_InlD)

lemma keeps_tended_reclaim:
  assumes g: "guards R B M" and R: "is_run_dir (liveRoot st) R" "M R = Some DirN"
    and B: "\<And>p. prefix (liveRoot st) p \<Longrightarrow> \<not> B p" and row: "row_ok st R i k rel"
  shows "keeps (tended st R i M) (tryReclaimRun st k rel)"
proof (cases "path_join (versionDir st) rel = R")
  case True
  have rest: "keeps (tended st R i M)
     (bindE (undoing (ignoreE (flock_close (runLockPath R))) (wrapE ''try lock live run'' (flock_try True (runLockPath R)))) (\<lambda>locked.
         if \<not> locked then bindE (ignoreE (flock_close (runLockPath R))) (\<lambda>_. returnE False)
         else X))" for X
    by (rule keeps_busy_branch [where M = M], simp add: tended_def) (simp_all only: not_False_eq_True if_True, (intro keeps_intros)+)
  show ?thesis
    unfolding keeps_def
  proof (intro allI impI)
    fix w assume w: "tended st R i M w"
    then have "node_at w R \<noteq> None" using R(2) by (auto simp: tended_def guarded_def)
    note stat = stat_present [OF this]
    obtain r w1 where s: "os_stat R w = (r, w1)" by (cases "os_stat R w")
    note w1 = keeps_eqD [OF keeps_tended_leaves(1) s w]
    show "tended st R i M (snd (tryReclaimRun st k rel w))"
      using s w1 stat [of _ w1] keepsD [OF rest w1]
      unfolding tryReclaimRun_def True Let_def by (cases r) (simp_all add: bindE_def tryE_def)
  qed
next
  case False
  let ?d = "path_join (versionDir st) rel"
  have d: "is_run_dir (liveRoot st) ?d" and k: "k \<noteq> i" using row False by (auto simp: row_ok_def)
  have "prefix (liveRoot st) ?d" using d by (auto simp: is_run_dir_def)
  then have free: "?d \<notin> dom M" using guards_free [OF g run_dirs_apart [OF d R(1) False]] B by blast
  have "keeps (tended st R i M) (os_remove_all ?d)"
    by (rule keeps_tended) (intro keeps_guarded_remove_all guards_rooted [OF g] run_dir_ne [OF d] free keeps_intros)+
  then show ?thesis
    unfolding tryReclaimRun_def Let_def by (intro keeps_intros keeps_tended_delete k)
qed

lemma keeps_tended_cleanup:
  assumes g: "guards R B M" and R: "is_run_dir (liveRoot st) R" "M R = Some DirN"
    and B: "\<And>p. prefix (liveRoot st) p \<Longrightarrow> \<not> B p"
  shows "keeps (tended st R i M) (cleanupAbandonedRuns st)"
proof -
  have loop: "keeps (tended st R i M) (reclaim_runs st rs errs)"
    if "\<forall>r\<in>set rs. row_ok st R i (cr_runID r) (cr_path r)" for rs errs
    using that
  proof (induction rs arbitrary: errs)
    case Nil
    show ?case by (simp only: reclaim_runs.simps keeps_pure)
  next
    case (Cons r rs)
    then show ?case
      unfolding reclaim_runs.simps by (intro keeps_bindE keeps_tryE keeps_tended_reclaim [OF assms]) simp_all
  qed
  show ?thesis
    unfolding keeps_def
  proof (intro allI impI)
    fix w assume w: "tended st R i M w"
    obtain r w1 where l: "q_listOtherRuns (runID st) w = (r, w1)" by (cases "q_listOtherRuns (runID st) w")
    have "keeps (tended st R i M) (q_listOtherRuns (runID st))" unfolding q_listOtherRuns_def by (intro keeps_intros)
    note w1 = keeps_eqD [OF this l w]
    have "\<forall>x\<in>set rs. row_ok st R i (cr_runID x) (cr_path x)" if "r = Inr rs" for rs
      using that l w by (auto simp: q_listOtherRuns_def tended_def registry_def dest!: sql_read_InrD)
    with l w1 show "tended st R i M (snd (cleanupAbandonedRuns st w))"
      by (cases r) (auto simp: cleanupAbandonedRuns_def bindE_def wrapE_def keepsD [OF loop])
  qed
qed


interpretation guarded_passes: catalog_passes "guarded l M" "\<lambda>p. p \<notin> dom M"
  by unfold_locales
    (unfold evictionCandidates_def checkpointWAL_def, (intro keeps_intros keeps_guarded_remove; assumption)+)

lemma keeps_registry:
  "keeps (\<lambda>w. registry st R i (db w)) (q_evictOutput h t)"
  "keeps (\<lambda>w. registry st R i (db w)) (deleteAccessedBefore cutoff)"
proof -
  show "keeps (\<lambda>w. registry st R i (db w)) (q_evictOutput h t)"
    by (rule keeps_evictOutput) (simp add: sql_evict_output_def registry_def)
  show "keeps (\<lambda>w. registry st R i (db w)) (deleteAccessedBefore cutoff)"
    by (rule keeps_deleteAccessedBefore)
      (simp add: expiry_stable_def sql_delete_stale_entry_def sql_delete_stale_output_def registry_def)
qed

interpretation tended_passes: catalog_passes "tended st R i M" "\<lambda>p. p \<notin> dom M"
  by (unfold_locales; rule keeps_tended)
    (unfold evictionCandidates_def checkpointWAL_def os_write_file_def q_referencedOutputIDs_def q_countRuns_def,
     (rule keeps_registry | (rule keeps_guarded_remove, assumption) | (intro keeps_intros)[1])+)


section \<open>What a running build relies on\<close>

text \<open>
  A tree: what has a node has its parents as directories. A running build: its run directory is
  there, another process holds the lock in it, and its row is registered.
\<close>

definition treed :: "world \<Rightarrow> bool" where
  "treed w \<longleftrightarrow> (\<forall>q. node_at w q \<noteq> None \<longrightarrow> is_dir w (butlast q))"

definition running :: "store \<Rightarrow> path \<Rightarrow> bytes \<Rightarrow> world \<Rightarrow> bool" where
  "running st R i w \<longleftrightarrow> is_run_dir (liveRoot st) R \<and> is_dir w R \<and> busy w (runLockPath R) \<and> registry st R i (db w)"

lemma treed_prefix: "treed w \<Longrightarrow> node_at w q \<noteq> None \<Longrightarrow> prefix p q \<Longrightarrow> p = q \<or> is_dir w p"
proof (induction q rule: rev_induct)
  case (snoc c q)
  have q: "is_dir w q" using snoc.prems(1,2) unfolding treed_def by (metis butlast_snoc)
  then have "node_at w q \<noteq> None" by (simp add: is_dir_def)
  with snoc q show ?case by auto
qed simp

definition nodes_of :: "world \<Rightarrow> (path \<Rightarrow> bool) \<Rightarrow> path \<rightharpoonup> node" where
  "nodes_of w S = (\<lambda>q. if q \<noteq> [] \<and> S q then node_at w q else None)"

lemma guarded_nodes_of: "busy w l \<Longrightarrow> guarded l (nodes_of w S) w"
  by (auto simp: guarded_def nodes_of_def split: if_splits)

lemma rooted_nodes_of:
  assumes "treed w" "\<And>p q. S q \<Longrightarrow> prefix p q \<Longrightarrow> S p"
  shows "rooted (nodes_of w S)"
  unfolding rooted_def
proof (intro ballI allI impI)
  fix q p assume q: "q \<in> dom (nodes_of w S)" and p: "prefix p q \<and> p \<noteq> []"
  from q have "S q" "node_at w q \<noteq> None" by (auto simp: nodes_of_def split: if_splits)
  with treed_prefix [OF assms(1), of q p] assms(2) [of q p] p show "p \<in> dom (nodes_of w S)"
    by (auto simp: nodes_of_def is_dir_def)
qed

lemma related_prefix: "\<not> q \<parallel> r \<Longrightarrow> prefix p q \<Longrightarrow> \<not> p \<parallel> r"
  by (meson parallelE parallelI parallel_def prefix_order.trans prefix_same_cases)

lemma guards_run: "treed w \<Longrightarrow> guards R (\<lambda>_. False) (nodes_of w (\<lambda>q. \<not> q \<parallel> R))"
  unfolding guards_def
  by (intro conjI rooted_nodes_of [OF _ related_prefix]) (auto simp: nodes_of_def split: if_splits)

lemma tended_run:
  assumes "running st R i w"
  shows "tended st R i (nodes_of w S) w"
  using assms by (simp add: running_def tended_def guarded_nodes_of)

lemma run_node: "running st R i w \<Longrightarrow> S R \<Longrightarrow> nodes_of w S R = Some DirN"
  using run_dir_ne by (auto simp: running_def nodes_of_def is_dir_def)

lemma keeps_tended_sweep:
  assumes "guards R B M" "is_run_dir (liveRoot st) R" "\<And>p. prefix (liveRoot st) p \<Longrightarrow> \<not> B p"
  shows "keeps (tended st R i M) (sweepLiveRuns st now)"
proof (rule keeps_tended [OF keeps_guarded_sweep [OF assms]])
  show "keeps (\<lambda>w. registry st R i (db w)) (sweepLiveRuns st now)"
    unfolding sweepLiveRuns_def liveRunDirs_collecting visit_live_def liveRunExpiredIfUnlocked_def retainedLiveRunExpired_def Let_def
    by (intro keeps_intros keeps_collecting)
qed

lemma keeps_tended_prune:
  assumes l: "cache_layout st" and g: "guards R (\<lambda>_. False) M" and R: "is_run_dir (liveRoot st) R" "M R = Some DirN"
  shows "keeps (tended st R i M) (prune st)"
proof (rule tended_passes.pruning)
  fix p assume p: "prefix (blobsDir st) p \<or> prefix (retainedRoot (versionDir st)) p"
  have "p \<parallel> R"
    using p beside_run [OF l R(1), of "''blobs''" p] beside_run [OF l R(1), of retainedDirName p] l
    by (auto simp: cache_layout_def retainedRoot_def retainedDirName_def)
  then show "p \<notin> dom M" using guards_free [OF g] by blast
next
  show "keeps (tended st R i M) (sweepLiveRuns st now)" for now
    by (rule keeps_tended_sweep [OF g R(1)]) simp
  show "keeps (tended st R i M) (cleanupAbandonedRuns st)"
    by (rule keeps_tended_cleanup [OF g R]) simp
qed

lemma tendedD:
  "tended st R i (nodes_of w S) w' \<Longrightarrow> node_at w q = Some n \<Longrightarrow> q \<noteq> [] \<Longrightarrow> S q \<Longrightarrow> node_at w' q = Some n"
  "tended st R i M w' \<Longrightarrow> \<exists>r\<in>set (runs (db w')). run_key r = i"
  by (auto simp: tended_def guarded_def nodes_of_def registry_def)

text \<open>
  C17. Maintenance never touches a running build. While another process holds the lock of a run
  directory and the run is registered, a prune, with its sweep, eviction and expiry, whatever in
  it fails, leaves every file and directory of that run in place and the run registered.
\<close>

theorem prune_spares_live_run:
  assumes "cache_layout st" "treed w" "running st R i w" "prefix R q" "node_at w q = Some n"
  shows "node_at (snd (prune st w)) q = Some n \<and> (\<exists>r\<in>set (runs (db (snd (prune st w)))). run_key r = i)"
proof -
  let ?M = "nodes_of w (\<lambda>q. \<not> q \<parallel> R)"
  have R: "is_run_dir (liveRoot st) R" using assms(3) by (simp add: running_def)
  have "keeps (tended st R i ?M) (prune st)"
    by (rule keeps_tended_prune [OF assms(1) guards_run [OF assms(2)] R run_node [OF assms(3)]]) (simp add: parallel_def)
  from keepsD [OF this tended_run [OF assms(3)]] have "tended st R i ?M (snd (prune st w))" .
  moreover have "q \<noteq> []" "\<not> q \<parallel> R"
    using assms(4) run_dir_ne [OF R] by (auto simp: parallel_def)
  ultimately show ?thesis using tendedD assms(5) by blast
qed


section \<open>Clean while a build is running\<close>

lemma read_dir_finds:
  assumes g: "guarded l M w" and "M root = Some DirN" "M (root @ [c]) = Some DirN"
    and run: "os_read_dir root w = (r, w')"
  shows "(\<exists>t. r = Inl (SysErr t)) \<or> (\<exists>items. r = Inr items \<and> (root @ [c], DirN) \<in> set items)"
proof -
  have n: "node_at w root = Some DirN" "node_at w (root @ [c]) = Some DirN"
    using g assms(2,3) by (auto simp: guarded_def)
  have "map_of (nodes w) (root @ [c]) = Some DirN"
    using g assms(3) by (auto simp: guarded_iff)
  then have "root @ [c] \<in> set (children (w\<lparr>ticks := k\<rparr>) root)" for k
    by (force simp: children_def subtree_def strict_prefix_def dest!: map_of_SomeD)
  with n run show ?thesis
    by (auto simp: os_read_dir_def sys_def effect_def Let_def image_iff split: option.splits)
qed

lemma finds_sub:
  assumes "M p = Some DirN" "M (p @ [c]) = Some DirN" "has_prefix c runDirPrefix" "\<not> has_prefix (last p) runDirPrefix"
  shows "ensures (guarded l M) (visit_live (p, DirN)) (\<lambda>ds _. p @ [c] \<in> set ds) (\<lambda>_. True)"
proof (rule ensuresI)
  fix w ds w' assume g: "guarded l M w" and run: "visit_live (p, DirN) w = (Inr ds, w')"
  obtain r w1 where d: "os_read_dir p w = (r, w1)" by (cases "os_read_dir p w")
  from read_dir_finds [OF g assms(1,2) d] run d assms(3,4) show "p @ [c] \<in> set ds"
    by (auto simp: visit_live_def bindE_eq_Inr tryE_eq image_iff split: if_splits)
qed simp

lemma liveRunDirs_finds:
  assumes R: "is_run_dir root R" and M: "rooted M" "M root = Some DirN" "M R = Some DirN"
    and dirs: "\<And>p. p \<in> dom M \<Longrightarrow> strict_prefix p R \<Longrightarrow> M p = Some DirN"
  shows "ensures (guarded l M) (liveRunDirs root) (\<lambda>ds _. R \<in> set ds) (\<lambda>_. True)"
proof (rule ensuresI)
  fix w ds w' assume g: "guarded l M w" and run: "liveRunDirs root w = (Inr ds, w')"
  obtain s r where sr: "R = root @ s # r" using R by (auto simp: is_run_dir_def)
  have "M (root @ [s]) = Some DirN"
  proof (cases r)
    case (Cons c cs)
    have "root @ [s] \<in> dom M" using M(1,3) unfolding rooted_def sr by (metis append.assoc append_Cons append_Nil domI prefixI snoc_eq_iff_butlast)
    then show ?thesis by (rule dirs) (auto simp: sr Cons strict_prefix_def)
  qed (use M(3) sr in simp)
  note s = this
  obtain x w1 where d: "os_read_dir root w = (x, w1)" by (cases "os_read_dir root w")
  note g1 = keeps_eqD [OF keeps_guarded_files(5) d g]
  from read_dir_finds [OF g M(2) s d] run d obtain items where x: "x = Inr items" "(root @ [s], DirN) \<in> set items"
    and c: "collecting visit_live (filter (\<lambda>(p, n). n = DirN) items) w1 = (Inr ds, w')"
    by (auto simp: liveRunDirs_collecting bindE_eq_Inr tryE_eq)
  have "ensures (guarded l M) (visit_live (root @ [s], DirN)) (\<lambda>ds _. R \<in> set ds) (\<lambda>_. True)"
  proof (cases "has_prefix s runDirPrefix")
    case True
    then have "r = []" using R sr by (auto simp: is_run_dir_def)
    then show ?thesis by (intro ensuresI) (auto simp: visit_live_def True sr)
  next
    case False
    with R sr obtain c where "r = [c]" "has_prefix c runDirPrefix" by (auto simp: is_run_dir_def)
    with finds_sub [where p = "root @ [s]" and M = M and c = c and l = l, OF s] M(3) False show ?thesis by (simp add: sr)
  qed
  then have "ensures (guarded l M) (collecting visit_live (filter (\<lambda>(p, n). n = DirN) items)) (\<lambda>ds _. R \<in> set ds) (\<lambda>_. True)"
    by (rule ensures_collecting [rotated 2]) (use x(2) in \<open>simp_all add: keeps_guarded_visit\<close>)
  from ensures_InrD [OF this g1 c] show "R \<in> set ds" .
qed simp


lemma bindE_assoc: "bindE (bindE m f) g = bindE m (\<lambda>x. bindE (f x) g)"
  by (rule ext) (simp add: bindE_def split: prod.splits sum.splits)

lemma bindE_if: "bindE (if b then m else n) f = (if b then bindE m f else bindE n f)"
  by simp

lemma remove_unused_Cons: "remove_unused (d # ds) a = bindE (remove_unused [d] a) (remove_unused ds)"
  unfolding remove_unused.simps Let_def bindE_assoc bindE_if bindE_returnE ..

lemma remove_unused_stays: "remove_unused ds True w = (Inr x, w') \<Longrightarrow> x"
  by (induction ds arbitrary: w) (auto simp: bindE_eq_Inr Let_def split: if_splits)

lemma keeps_tended_remove_unused:
  assumes g: "guards R B M" and R: "is_run_dir (liveRoot st) R" and B: "\<And>p. prefix (liveRoot st) p \<Longrightarrow> \<not> B p"
    and ds: "\<forall>d\<in>set ds. is_run_dir (liveRoot st) d"
  shows "keeps (tended st R i M) (remove_unused ds a)"
  using ds
proof (induction ds arbitrary: a)
  case Nil
  show ?case by (simp only: remove_unused.simps keeps_pure)
next
  case (Cons d ds)
  have IH: "keeps (tended st R i M) (remove_unused ds a)" for a using Cons by simp
  have d: "is_run_dir (liveRoot st) d" using Cons.prems by simp
  show ?case
  proof (cases "d = R")
    case True
    show ?thesis
      unfolding True remove_unused.simps Let_def
      by (rule keeps_busy_branch [where M = M], simp add: tended_def)
        (simp_all only: not_False_eq_True if_True, (intro keeps_intros IH)+)
  next
    case False
    have "prefix (liveRoot st) d" using d by (auto simp: is_run_dir_def)
    then have "d \<notin> dom M" using guards_free [OF g run_dirs_apart [OF d R False]] B by blast
    then have "keeps (tended st R i M) (os_remove_all d)"
      by (intro keeps_tended) (intro keeps_guarded_remove_all guards_rooted [OF g] run_dir_ne [OF d] keeps_intros; assumption?)+
    then show ?thesis unfolding remove_unused.simps Let_def by (intro keeps_intros IH)
  qed
qed

lemma remove_unused_finds:
  assumes "guards R B M" "is_run_dir (liveRoot st) R" "\<And>p. prefix (liveRoot st) p \<Longrightarrow> \<not> B p"
    and "\<forall>d\<in>set ds. is_run_dir (liveRoot st) d" "R \<in> set ds" "tended st R i M w" "remove_unused ds a w = (Inr x, w')"
  shows x
  using assms(4-7)
proof (induction ds arbitrary: a w)
  case (Cons d ds)
  show ?case
  proof (cases "d = R")
    case True
    from Cons.prems(3) have g: "guarded (runLockPath R) M w" by (simp add: tended_def)
    from Cons.prems(4) True obtain b w1 where
      t: "flock_try True (runLockPath R) w = (Inr b, w1)" and
      r: "b \<or> remove_unused ds True (snd (flock_close (runLockPath R) w1)) = (Inr x, w')"
      by (auto simp: bindE_eq_Inr undoing_def recoverE_eq_Inr wrapE_eq_Inr ignoreE_eq Let_def split: if_splits)
    from busy_try [OF g t] r show ?thesis using remove_unused_stays by blast
  next
    case False
    let ?step = "remove_unused [d] a"
    have k: "keeps (tended st R i M) ?step"
      by (rule keeps_tended_remove_unused [OF assms(1-3)]) (use Cons.prems(1) in auto)
    from Cons.prems(4) obtain b w1 where "?step w = (Inr b, w1)" "remove_unused ds b w1 = (Inr x, w')"
      unfolding remove_unused_Cons [of d ds] bindE_eq_Inr by blast
    with keeps_eqD [OF k _ Cons.prems(3)] Cons.IH [of w1 b] Cons.prems(1,2) False show ?thesis by auto
  qed
qed simp

lemma keeps_tended_live: "keeps (tended st R i M) (liveRunDirs root)"
  unfolding liveRunDirs_collecting visit_live_def by (rule keeps_tended) (intro keeps_intros keeps_collecting)+

text \<open>The nodes a clean leaves alone while a build runs: the run's, the blobs and the catalog.\<close>

definition catalog_files :: "path \<Rightarrow> path list" where
  "catalog_files v = [dbPath v, v @ [''cache.db-wal''], v @ [''cache.db-shm'']]"

definition clean_kept :: "store \<Rightarrow> path \<Rightarrow> path \<Rightarrow> bool" where
  "clean_kept st R q \<longleftrightarrow>
     \<not> q \<parallel> R \<or> \<not> q \<parallel> blobsDir st \<or> list_ex (\<lambda>f. \<not> q \<parallel> f) (catalog_files (versionDir st))"

abbreviation clean_extra :: "store \<Rightarrow> path \<Rightarrow> bool" where
  "clean_extra st q \<equiv> \<not> prefix (liveRoot st) q \<and> \<not> prefix (retainedRoot (versionDir st)) q"

lemma guards_clean:
  assumes "cache_layout st" "treed w"
  shows "guards R (clean_extra st) (nodes_of w (clean_kept st R))"
  unfolding guards_def
proof (intro conjI ballI)
  show "rooted (nodes_of w (clean_kept st R))"
    by (rule rooted_nodes_of [OF assms(2)]) (auto simp: clean_kept_def catalog_files_def dest: related_prefix)
  fix q assume "q \<in> dom (nodes_of w (clean_kept st R))"
  then have "clean_kept st R q" by (auto simp: nodes_of_def split: if_splits)
  moreover have "q \<parallel> blobsDir st \<and> \<not> list_ex (\<lambda>f. \<not> q \<parallel> f) (catalog_files (versionDir st))"
    if "prefix (liveRoot st) q \<or> prefix (retainedRoot (versionDir st)) q"
    using that assms(1) by (auto simp: cache_layout_def catalog_files_def dbPath_def retainedRoot_def retainedDirName_def parallel_def prefix_def)
  ultimately show "\<not> q \<parallel> R \<or> clean_extra st q" unfolding clean_kept_def by blast
qed


lemma keeps_tended_openDB:
  assumes "dbPath (versionDir st) \<in> dom M"
  shows "keeps (tended st R i M) (openDB (dbPath (versionDir st)))"
proof -
  have "keeps (tended st R i M) (db_file (dbPath (versionDir st)))"
    using assms by (auto simp: keeps_def db_file_def tended_def guarded_def)
  moreover have "keeps (tended st R i M) initDB"
    unfolding initDB_def by (rule keeps_tended) (intro keeps_intros keeps_db_sql_exec; simp add: registry_def)+
  ultimately show ?thesis unfolding openDB_def by (intro keeps_intros)
qed

lemma keeps_tended_cleanLocked:
  assumes l: "cache_layout st" and w: "treed w" "running st R i w" and db: "node_at w (dbPath (versionDir st)) \<noteq> None"
  shows "keeps (tended st R i (nodes_of w (clean_kept st R))) (cleanLocked st)"
proof -
  let ?M = "nodes_of w (clean_kept st R)" and ?I = "tended st R i (nodes_of w (clean_kept st R))"
  have R: "is_run_dir (liveRoot st) R" "?M R = Some DirN"
    using w(2) run_node [OF w(2)] by (auto simp: running_def clean_kept_def parallel_def)
  note g = guards_clean [OF l w(1), of R]
  have B: "\<not> clean_extra st p" if "prefix (liveRoot st) p" for p using that by simp
  have retained: "p \<notin> dom ?M" if "prefix (retainedRoot (versionDir st)) p" for p
    using guards_free [OF g, of p] that beside_run [OF l R(1), of retainedDirName p]
    by (simp add: retainedRoot_def retainedDirName_def)
  have opens: "keeps ?I (openDB (dbPath (versionDir st)))"
    by (rule keeps_tended_openDB) (use db in \<open>auto simp: nodes_of_def clean_kept_def catalog_files_def dbPath_def parallel_def\<close>)
  have collected: "keeps ?I (clean_retained st)"
    unfolding clean_retained_def countActive_def
    by (intro keeps_bind_yields [OF yields_planOrphans tended_passes.planOrphans] keeps_bindE keeps_wrapE
        tended_passes.quiet tended_passes.reading tended_passes.emptyDirs tended_passes.removeOrphans)
      (use retained in blast)+
  have dirs: "?M p = Some DirN" if "p \<in> dom ?M" "strict_prefix p R" for p
  proof -
    have "node_at w R \<noteq> None" using w(2) by (simp add: running_def is_dir_def)
    with treed_prefix [OF w(1), of R p] that show ?thesis
      by (auto simp: nodes_of_def is_dir_def strict_prefix_def split: if_splits)
  qed
  have "liveRoot st \<in> dom ?M"
  proof -
    have "prefix (liveRoot st) R" "liveRoot st \<noteq> []"
      using R(1) l by (auto simp: is_run_dir_def cache_layout_def)
    with guards_rooted [OF g] R(2) show ?thesis unfolding rooted_def by blast
  qed
  then have live: "?M (liveRoot st) = Some DirN"
    by (rule dirs) (use R(1) in \<open>auto simp: is_run_dir_def strict_prefix_def\<close>)
  have unused: "ensures ?I (removeUnusedLiveDirs st) (\<lambda>x w. x \<and> ?I w) ?I"
  proof (rule ensuresI)
    fix v x v' assume v: "?I v" and run: "removeUnusedLiveDirs st v = (Inr x, v')"
    then obtain ds v1 where d: "liveRunDirs (liveRoot st) v = (Inr ds, v1)" and r: "remove_unused ds False v1 = (Inr x, v')"
      by (auto simp: removeUnusedLiveDirs_def bindE_eq_Inr)
    have "R \<in> set ds"
      using ensures_InrD [OF liveRunDirs_finds [OF R(1) guards_rooted [OF g] live R(2) dirs] _ d] v unfolding tended_def by blast
    moreover have ds: "\<forall>d\<in>set ds. is_run_dir (liveRoot st) d" using yields_liveRunDirs d unfolding yields_def by blast
    moreover have v1: "?I v1" by (rule keeps_eqD [OF keeps_tended_live d v])
    ultimately show "x \<and> ?I v'"
      using remove_unused_finds [OF g R(1) B] keeps_eqD [OF keeps_tended_remove_unused [OF g R(1) B ds] r v1] r by blast
  next
    fix v e v' assume v: "?I v" and run: "removeUnusedLiveDirs st v = (Inl e, v')"
    have "keeps ?I (removeUnusedLiveDirs st)"
      unfolding removeUnusedLiveDirs_def
      by (rule keeps_bind_yields [OF yields_liveRunDirs keeps_tended_live]) (rule keeps_tended_remove_unused [OF g R(1) B])
    from keeps_eqD [OF this run v] show "?I v'" .
  qed
  have "ensures ?I (cleanLocked st) (\<lambda>_. ?I) ?I"
    unfolding cleanLocked_def
  proof (rule ensures_step [OF tended_passes.regular], assumption)
    fix has_db
    have first: "keeps ?I (if has_db then bindE (openDB (dbPath (versionDir st))) (\<lambda>_. cleanupAbandonedRuns st) else returnE ())"
      by (intro keeps_intros opens keeps_tended_cleanup [OF g R B])
    show "ensures ?I (bindE (if has_db then bindE (openDB (dbPath (versionDir st))) (\<lambda>_. cleanupAbandonedRuns st) else returnE ()) (\<lambda>_.
        bindE (removeUnusedLiveDirs st) (\<lambda>activeLive.
        bindE (if has_db then clean_retained st else returnE 0) (\<lambda>activeRuns.
        if activeLive \<or> 0 < activeRuns then returnE () else clean_all st)))) (\<lambda>_. ?I) ?I"
      by (rule ensures_step [OF first], assumption, rule ensures_bindE [OF unused], rule ensures_pre, rule ensures_step)
        (auto intro!: keeps_intros collected ensures_keeps)
  qed
  then show ?thesis unfolding keeps_def using ensures_any [where R = ?I] by blast
qed

section \<open>Clean and the inventory\<close>

text \<open>
  The rows of entries and outputs. What a clean does to the database is to open it and to take
  away run rows.
\<close>

definition inventory :: "tables \<Rightarrow> entry_row list \<times> output_row list" where
  "inventory d = (entries d, outputs d)"

abbreviation same_inventory :: "tables \<Rightarrow> world \<Rightarrow> bool" where
  "same_inventory d w \<equiv> inventory (db w) = inventory d"

lemma keeps_inventory_delete [keeps_intros]: "keeps (same_inventory d) (q_deleteRun r)"
  unfolding q_deleteRun_def by (rule keeps_db_sql_exec) (simp add: inventory_def sql_delete_run_def)

lemma keeps_inventory_shard: "keeps (same_inventory d) (removeShardOrphans ps ids before)"
proof (induction ps)
  case Nil
  show ?case by (simp only: removeShardOrphans.simps keeps_pure)
next
  case (Cons q qs)
  then show ?case unfolding removeShardOrphans.simps by (intro keeps_intros)
qed

lemma keeps_inventory_plan: "keeps (same_inventory d) (plan_shards st b c shards)"
proof (induction shards)
  case Nil
  show ?case by (simp only: plan_shards.simps keeps_pure)
next
  case (Cons s ss)
  then show ?case
    unfolding plan_shards.simps Let_def referencedInShard_def q_referencedOutputIDs_def orphanFilesInDir_def walk_existing_def
    by (intro keeps_intros)
qed

lemma keeps_inventory_reclaim: "keeps (same_inventory d) (reclaim_runs st rs errs)"
proof (induction rs arbitrary: errs)
  case Nil
  show ?case by (simp add: reclaim_runs.simps returnErr_def keeps_def split: option.splits)
next
  case (Cons r rs)
  then show ?case unfolding reclaim_runs.simps tryReclaimRun_def Let_def by (intro keeps_intros)
qed

lemma keeps_inventory_unused: "keeps (same_inventory d) (remove_unused ds a)"
proof (induction ds arbitrary: a)
  case Nil
  show ?case by (simp only: remove_unused.simps keeps_pure)
next
  case (Cons q qs)
  then show ?case unfolding remove_unused.simps Let_def by (intro keeps_intros)
qed

lemma keeps_inventory_live: "keeps (same_inventory d) (liveRunDirs root)"
  unfolding liveRunDirs_collecting visit_live_def by (intro keeps_intros keeps_collecting)

lemma keeps_inventory_clean:
  "keeps (same_inventory d) (clean_retained st)" "keeps (same_inventory d) (clean_all st)"
  "keeps (same_inventory d) (cleanupAbandonedRuns st)" "keeps (same_inventory d) (removeUnusedLiveDirs st)"
  unfolding clean_retained_def clean_all_def cleanupAbandonedRuns_def removeUnusedLiveDirs_def planOrphans_def removeOrphans_def
    referencedInShard_def q_referencedOutputIDs_def removeEmptyDirs_def walk_existing_def countActive_def q_countRuns_def
    clearMaintenanceStamps_def q_listOtherRuns_def Let_def
  by (intro keeps_intros keeps_inventory_shard keeps_inventory_plan keeps_inventory_reclaim keeps_inventory_unused
      keeps_inventory_live)+

text \<open>Opening a catalog that is there changes nothing but its version.\<close>

definition stored :: "path \<Rightarrow> path \<Rightarrow> node \<Rightarrow> tables \<Rightarrow> world \<Rightarrow> bool" where
  "stored l p n d w \<longleftrightarrow> guarded l [p \<mapsto> n] w \<and> same_inventory d w"

lemma keeps_stored: "keeps (guarded l [p \<mapsto> n]) m \<Longrightarrow> keeps (same_inventory d) m \<Longrightarrow> keeps (stored l p n d) m"
  unfolding stored_def by (rule keeps_conj)

lemma keeps_stored_open: "keeps (stored l p n d) (openDB p)"
proof -
  have "keeps (stored l p n d) (db_file p)"
    by (auto simp: keeps_def db_file_def stored_def guarded_def)
  moreover have "keeps (stored l p n d) initDB"
    unfolding initDB_def by (rule keeps_stored) (intro keeps_intros keeps_db_sql_exec; simp add: inventory_def)+
  ultimately show ?thesis unfolding openDB_def by (intro keeps_intros)
qed

lemma cleanCache_inventory:
  "ensures (stored l (dbPath (cacheVersionDir c)) n d) (cleanCache c) (\<lambda>_. same_inventory d) (same_inventory d)"
    (is "ensures ?I _ (\<lambda>_. ?J) ?J")
proof -
  let ?st = "bare_store c"
  have dbp: "dbPath (versionDir ?st) = dbPath (cacheVersionDir c)" by (simp add: bare_store_def cachePaths_def Let_def)
  have IJ: "?I w \<Longrightarrow> ?J w" for w by (simp add: stored_def)
  have locked: "ensures ?I (cleanLocked ?st) (\<lambda>_. ?J) ?J"
    unfolding cleanLocked_def
  proof (rule ensures_step [where P = ?I, OF _ IJ], rule keeps_stored)
    fix has_db
    have first: "ensures ?I (if has_db then bindE (openDB (dbPath (versionDir ?st))) (\<lambda>_. cleanupAbandonedRuns ?st) else returnE ())
        (\<lambda>_. ?J) ?J"
      unfolding dbp
      by (rule ensures_if, rule ensures_bindE [OF ensures_keeps_to [OF keeps_stored_open IJ]], assumption,
          rule ensures_conseq [OF ensures_keeps [OF keeps_inventory_clean(3)]])
        (auto intro: ensures_returnE IJ)
    have rest: "keeps ?J (bindE (removeUnusedLiveDirs ?st) (\<lambda>activeLive.
        bindE (if has_db then clean_retained ?st else returnE 0) (\<lambda>activeRuns.
        if activeLive \<or> 0 < activeRuns then returnE () else clean_all ?st)))"
      by (intro keeps_intros keeps_inventory_clean)
    show "ensures ?I (bindE (if has_db then bindE (openDB (dbPath (versionDir ?st))) (\<lambda>_. cleanupAbandonedRuns ?st) else returnE ()) (\<lambda>_.
        bindE (removeUnusedLiveDirs ?st) (\<lambda>activeLive.
        bindE (if has_db then clean_retained ?st else returnE 0) (\<lambda>activeRuns.
        if activeLive \<or> 0 < activeRuns then returnE () else clean_all ?st)))) (\<lambda>_. ?J) ?J"
      by (rule ensures_bindE [OF first ensures_keeps [OF rest]])
  qed (intro keeps_intros | assumption)+
  have lock: "ensures ?I (withFileLock (lifecycleLockPath ?st) (cleanLocked ?st)) (\<lambda>_. ?J) ?J"
    by (rule ensures_withFileLock [OF locked _ IJ]) (assumption | rule keeps_stored | intro keeps_intros)+
  show ?thesis
    unfolding cleanCache_def Let_def
  proof (rule ensures_step_try [where P = ?I])
    fix r :: "err + file_info"
    show "ensures ?I (case r of
       Inl e \<Rightarrow> if errors_is ErrNotExist e then returnE () else failE (Wrap ''stat cache version dir'' [e])
     | Inr _ \<Rightarrow> bindE (modify_mem (\<lambda>_. fresh_mem 0)) (\<lambda>_. withFileLock (lifecycleLockPath ?st) (cleanLocked ?st))) (\<lambda>_. ?J) ?J"
    proof (cases r)
      case (Inl e)
      show ?thesis unfolding Inl sum.case by (intro ensures_if ensures_returnE ensures_failE IJ)
    next
      case (Inr x)
      show ?thesis unfolding Inr sum.case
        by (rule ensures_step [OF _ IJ lock], rule keeps_stored) (intro keeps_intros | assumption)+
    qed
  qed (rule keeps_stored; intro keeps_intros)
qed

text \<open>
  C18. A clean while a build is running keeps what the build uses. While another process holds
  the lock of a run directory and there is a catalog, \<open>clean\<close>, whatever in it fails, removes no
  file of that run, no blob and none of the catalog's files (the database, its write-ahead log
  and its shared memory), changes no entry and no output in the catalog, and leaves the run
  registered.
\<close>

theorem clean_spares_live_run:
  assumes treed: "treed w" and run: "running (bare_store c) R i w"
    and there: "node_at w (dbPath (cacheVersionDir c)) \<noteq> None"
  shows "(\<forall>q n. prefix R q \<or> prefix (cacheVersionDir c @ [''blobs'']) q \<or> q \<in> set (catalog_files (cacheVersionDir c)) \<longrightarrow>
      node_at w q = Some n \<longrightarrow> node_at (snd (cleanCache c w)) q = Some n) \<and>
    inventory (db (snd (cleanCache c w))) = inventory (db w) \<and>
    (\<exists>r\<in>set (runs (db (snd (cleanCache c w)))). run_key r = i)"
proof -
  let ?st = "bare_store c" and ?S = "clean_kept (bare_store c) R"
  have st: "cache_layout ?st" "versionDir ?st = cacheVersionDir c" "blobsDir ?st = cacheVersionDir c @ [''blobs'']"
    by (simp_all add: bare_store_def cachePaths_def cache_layout_def Let_def)
  have "keeps (tended ?st R i (nodes_of w ?S)) (cleanLocked ?st)"
    by (rule keeps_tended_cleanLocked [OF st(1) treed run]) (simp add: st there)
  then have "keeps (tended ?st R i (nodes_of w ?S)) (cleanCache c)"
    unfolding cleanCache_def Let_def by (intro keeps_intros tended_passes.quiet tended_passes.locks)
  from keepsD [OF this tended_run [OF run]] have t: "tended ?st R i (nodes_of w ?S) (snd (cleanCache c w))" .
  have R: "is_run_dir (liveRoot ?st) R" using run by (simp add: running_def)
  have "node_at (snd (cleanCache c w)) q = Some n"
    if q: "prefix R q \<or> prefix (cacheVersionDir c @ [''blobs'']) q \<or> q \<in> set (catalog_files (cacheVersionDir c))"
      and n: "node_at w q = Some n" for q n
  proof -
    have "q \<noteq> []" "?S q"
      using q run_dir_ne [OF R] by (auto simp: clean_kept_def catalog_files_def parallel_def st dbPath_def)
    with tendedD [OF t] n show ?thesis by blast
  qed
  moreover obtain m where m: "node_at w (dbPath (cacheVersionDir c)) = Some m" using there by blast
  have "stored (runLockPath R) (dbPath (cacheVersionDir c)) m (db w) w"
    using run m by (auto simp: stored_def guarded_def running_def dbPath_def)
  then have "inventory (db (snd (cleanCache c w))) = inventory (db w)"
    by (rule ensures_any [OF cleanCache_inventory, rotated 2])
  ultimately show ?thesis using tendedD(2) [OF t] by blast
qed

end
