(* ===== verification/Closing.thy ===== *)
theory Closing
  imports Live_Runs
begin

text \<open>
  A helper that closes its store next to a running build, and one that opens a store: opening
  sets up exactly what keeps other helpers away, and closing leaves everyone else's run alone.
\<close>

section \<open>Creating and renaming around guarded nodes\<close>

lemma guarded_rename:
  assumes g: "guarded l M w" and r: "rooted M" and ab: "a \<notin> dom M" "b \<notin> dom M" "a \<noteq> []" "b \<noteq> []"
  shows "guarded l M (w\<lparr>nodes := map (\<lambda>(q, m). (move_path a b q, m)) (nodes w)\<rparr>)"
proof -
  have "\<not> prefix a q" "\<not> prefix b q" if "M q = Some n" for q n
    using that r ab unfolding rooted_def by blast+
  moreover have "map_of (map (\<lambda>(q, m). (move_path a b q, m)) ns) q = map_of ns q"
    if "\<not> prefix a q" "\<not> prefix b q" for q and ns :: "(path \<times> node) list"
    using that by (induction ns) (auto simp: move_path_def)
  ultimately show ?thesis using g by (simp add: guarded_iff)
qed

lemma keeps_guarded_rename:
  assumes "rooted M" "a \<notin> dom M" "b \<notin> dom M" "a \<noteq> []" "b \<noteq> []"
  shows "keeps (guarded l M) (os_rename a b)"
  unfolding os_rename_def
  by (rule keeps_sys)
    (auto simp: keeps_def guarded_rename assms guarded_set_node guarded_del_node split: option.splits node.splits)

lemma keeps_guarded_link: "b \<noteq> [] \<Longrightarrow> keeps (guarded l M) (os_link a b)"
  unfolding os_link_def
  by (rule keeps_sys) (auto simp: keeps_def guarded_set_node split: option.splits node.splits)

lemma create_temp_guarded:
  assumes g: "guarded l M w" and run: "os_create_temp d pre suf w = (r, w')"
  shows "guarded l M w' \<and> (\<forall>i p. r = Inr (i, p) \<longrightarrow> p \<noteq> [] \<and> p \<notin> dom M)"
proof -
  have "guarded l M (snd (new_file p v)) \<and> p \<noteq> [] \<and> p \<notin> dom M"
    if v: "guarded l M v" and f: "free_temp d pre suf v 0 = Some p" for v p
  proof -
    from create_temp_free [OF f] have n: "node_at v p = None" "p \<noteq> []" by auto
    then have "p \<notin> dom M" using v by (auto simp: guarded_def)
    with n show ?thesis by (simp add: guarded_new_file [OF v])
  qed
  note new = this
  have "guarded l M (w\<lparr>ticks := Suc (ticks w)\<rparr>)" using g by simp
  from new [OF this] run g show ?thesis
    by (auto simp: os_create_temp_def sys_def effect_def Let_def split: option.splits if_splits prod.splits)
qed

text \<open>Continuations of a program whose result is only known from the state it runs in.\<close>

lemma keeps_bind_from:
  assumes "\<And>w r w'. I w \<Longrightarrow> m w = (r, w') \<Longrightarrow> I w' \<and> (\<forall>x. r = Inr x \<longrightarrow> A x)" "\<And>x. A x \<Longrightarrow> keeps I (f x)"
  shows "keeps I (bindE m f)"
  unfolding keeps_def
proof (intro allI impI)
  fix w assume w: "I w"
  obtain r w1 where m: "m w = (r, w1)" by (cases "m w")
  from assms(1) [OF w m] assms(2) m show "I (snd (bindE m f w))"
    by (cases r) (auto simp: bindE_def keeps_def)
qed


section \<open>Retaining files\<close>

lemma keeps_tended_files [keeps_intros]:
  "keeps (tended st R i M) (os_open q)" "keeps (tended st R i M) (file_read j)" "keeps (tended st R i M) (file_close j)"
  "keeps (tended st R i M) (file_write j bs)" "keeps (tended st R i M) (os_create q)" "keeps (tended st R i M) (os_chtimes q t)"
  "keeps (tended st R i M) (os_mkdir_all q)" "keeps (tended st R i M) (walk_dir q)" "keeps (tended st R i M) (regularFile q)"
  "keeps (tended st R i M) (os_read_file q)"
  unfolding os_read_file_def by (rule keeps_tended; intro keeps_intros)+

lemma keeps_tended_moves:
  "rooted M \<Longrightarrow> a \<notin> dom M \<Longrightarrow> b \<notin> dom M \<Longrightarrow> a \<noteq> [] \<Longrightarrow> b \<noteq> [] \<Longrightarrow> keeps (tended st R i M) (os_rename a b)"
  "b \<noteq> [] \<Longrightarrow> keeps (tended st R i M) (os_link a b)"
  "q \<notin> dom M \<Longrightarrow> keeps (tended st R i M) (os_remove q)"
  "rooted M \<Longrightarrow> q \<noteq> [] \<Longrightarrow> q \<notin> dom M \<Longrightarrow> keeps (tended st R i M) (os_remove_all q)"
  by (rule keeps_tended; intro keeps_guarded_rename keeps_guarded_link keeps_guarded_remove keeps_guarded_remove_all
      keeps_intros; assumption)+

text \<open>Making a temporary file and going on with it.\<close>

lemma keeps_tended_temp:
  assumes "\<And>j p. p \<noteq> [] \<Longrightarrow> p \<notin> dom M \<Longrightarrow> keeps (tended st R i M) (f (j, p))"
  shows "keeps (tended st R i M) (bindE (wrapE msg (os_create_temp d pre suf)) f)"
    and "keeps (tended st R i M) (bindE (closing fs msg (os_create_temp d pre suf)) f)"
proof -
  have made: "tended st R i M w' \<and> (\<forall>x. r = Inr x \<longrightarrow> snd x \<noteq> [] \<and> snd x \<notin> dom M)"
    if "tended st R i M w" "os_create_temp d pre suf w = (r, w')" for w r w'
  proof -
    have "db w' = db w" using frame_eqD [OF frame_db_outside [OF outside_file_effects(12)] that(2)] .
    moreover have "guarded (runLockPath R) M w" "registry st R i (db w)" using that(1) by (simp_all add: tended_def)
    ultimately show ?thesis
      using create_temp_guarded [OF _ that(2), of "runLockPath R" M] by (auto simp: tended_def)
  qed
  have cont: "keeps (tended st R i M) (f x)" if "snd x \<noteq> [] \<and> snd x \<notin> dom M" for x
    using assms that by (cases x) auto
  show "keeps (tended st R i M) (bindE (wrapE msg (os_create_temp d pre suf)) f)"
  proof (rule keeps_bind_from [OF _ cont])
    fix w r w' assume w: "tended st R i M w" and run: "wrapE msg (os_create_temp d pre suf) w = (r, w')"
    obtain r1 where c: "os_create_temp d pre suf w = (r1, w')" "\<And>x. r = Inr x \<Longrightarrow> r1 = Inr x"
      using run by (cases "os_create_temp d pre suf w") (auto simp: wrapE_def split: sum.splits)
    from made [OF w c(1)] c(2)
    show "tended st R i M w' \<and> (\<forall>x. r = Inr x \<longrightarrow> snd x \<noteq> [] \<and> snd x \<notin> dom M)" by auto
  qed
  show "keeps (tended st R i M) (bindE (closing fs msg (os_create_temp d pre suf)) f)"
  proof (rule keeps_bind_from [OF _ cont])
    fix w r w' assume w: "tended st R i M w" and run: "closing fs msg (os_create_temp d pre suf) w = (r, w')"
    obtain r1 w1 where c: "os_create_temp d pre suf w = (r1, w1)" by (cases "os_create_temp d pre suf w")
    note m = made [OF w c]
    have "keeps (tended st R i M) (bindE (forE fs (\<lambda>f. ignoreE (file_close f))) (\<lambda>_. failE e :: (nat \<times> path) io))" for e
      by (intro keeps_intros)
    from keepsD [OF this, of w1] m run c
    show "tended st R i M w' \<and> (\<forall>x. r = Inr x \<longrightarrow> snd x \<noteq> [] \<and> snd x \<notin> dom M)"
      by (cases r1) (auto simp: closing_def recoverE_def bindE_def split: prod.splits sum.splits)
  qed
qed

lemma keeps_closing [keeps_intros]: "keeps I m \<Longrightarrow> (\<And>f. keeps I (file_close f)) \<Longrightarrow> keeps I (closing fs msg m)"
  unfolding closing_def by (intro keeps_intros)


lemma keeps_tended_markUsed [keeps_intros]: "keeps (tended st R i M) (markRetainedFileUsed p)"
  unfolding markRetainedFileUsed_def by (intro keeps_intros)

lemma keeps_tended_rename_over:
  assumes "rooted M" "a \<notin> dom M" "b \<notin> dom M" "a \<noteq> []" "b \<noteq> []"
  shows "keeps (tended st R i M) (rename_over cl a b)"
  unfolding rename_over_def Let_def by (intro keeps_intros keeps_tended_moves assms)

lemma keeps_tended_copyFile [keeps_intros]: "keeps (tended st R i M) (copyFile a b)"
  unfolding copyFile_def by (intro keeps_intros)

lemma keeps_tended_installExport:
  assumes "rooted M" "a \<notin> dom M" "e \<notin> dom M" "a \<noteq> []" "e \<noteq> []"
  shows "keeps (tended st R i M) (installExportArchive a e)"
  unfolding installExportArchive_def by (intro keeps_intros keeps_tended_moves assms)

lemma keeps_tended_replace:
  assumes "rooted M" "p \<notin> dom M" "p \<noteq> []"
  shows "keeps (tended st R i M) (replaceWithExportArchive e p)"
  unfolding replaceWithExportArchive_def
  by (rule keeps_tended_temp(1))
    (simp only: prod.case, intro keeps_intros keeps_tended_moves keeps_tended_rename_over assms)

lemma keeps_tended_strip:
  assumes M: "rooted M" and p: "p \<notin> dom M" "p \<noteq> []" and e: "\<And>e. exportPath = Some e \<Longrightarrow> e \<notin> dom M \<and> e \<noteq> []"
  shows "keeps (tended st R i M) (stripPackageArchiveToExport p exportPath)"
proof -
  have fill: "keeps (tended st R i M) (strip_fill inp tmp hdr sz)" for inp tmp hdr sz
    unfolding strip_fill_def Let_def by (intro keeps_intros)
  have "keeps (tended st R i M) (strip_into inp hdr sz p exportPath)" for inp hdr sz
    unfolding strip_into_def Let_def
  proof (rule keeps_bindE)
    show "keeps (tended st R i M) (case exportPath of None \<Rightarrow> returnE ()
        | Some _ \<Rightarrow> closing [inp] ''create export dir'' (os_mkdir_all (case exportPath of None \<Rightarrow> butlast p | Some e \<Rightarrow> butlast e)))"
      by (intro keeps_intros)
    fix u
    show "keeps (tended st R i M) (bindE (closing [inp] ''create stripped export archive''
        (os_create_temp (case exportPath of None \<Rightarrow> butlast p | Some e \<Rightarrow> butlast e) (last p @ ''.pkgdef-'') [])) (\<lambda>(tmp, tmpPath).
      finallyE (bindE (strip_fill inp tmp hdr sz) (\<lambda>_. case exportPath of
          None \<Rightarrow> bindE (replaceFile tmpPath p) (\<lambda>_. returnE True)
        | Some e \<Rightarrow> bindE (installExportArchive tmpPath e) (\<lambda>_. bindE (replaceWithExportArchive e p) (\<lambda>_. returnE True))))
      (os_remove tmpPath)))"
    proof (rule keeps_tended_temp(2))
      fix j t assume t: "t \<noteq> []" "t \<notin> dom M"
      have "keeps (tended st R i M) (case exportPath of
          None \<Rightarrow> bindE (replaceFile t p) (\<lambda>_. returnE True)
        | Some e \<Rightarrow> bindE (installExportArchive t e) (\<lambda>_. bindE (replaceWithExportArchive e p) (\<lambda>_. returnE True)))"
      proof (cases exportPath)
        case None
        then show ?thesis
          unfolding replaceFile_def by simp (intro keeps_intros keeps_tended_rename_over M p t)
      next
        case (Some e)
        with assms(4) show ?thesis
          by simp (intro keeps_intros keeps_tended_installExport keeps_tended_replace M p t; simp)
      qed
      then show "keeps (tended st R i M) (case (j, t) of (tmp, tmpPath) \<Rightarrow>
        finallyE (bindE (strip_fill inp tmp hdr sz) (\<lambda>_. case exportPath of
          None \<Rightarrow> bindE (replaceFile tmpPath p) (\<lambda>_. returnE True)
        | Some e \<Rightarrow> bindE (installExportArchive tmpPath e) (\<lambda>_. bindE (replaceWithExportArchive e p) (\<lambda>_. returnE True))))
        (os_remove tmpPath))"
        by (simp only: prod.case) (intro keeps_finallyE keeps_bindE fill keeps_tended_moves t)
    qed
  qed
  then show ?thesis unfolding stripPackageArchiveToExport_def Let_def by (intro keeps_intros)
qed

lemma keeps_tended_retainSource:
  assumes M: "rooted M" and p: "p \<notin> dom M" "p \<noteq> []" and r: "r \<notin> dom M" "r \<noteq> []"
  shows "keeps (tended st R i M) (retainEscapedGeneratedGoSource p r)"
proof -
  have "keeps (tended st R i M) (installRetainedFile d r)" for d
    unfolding installRetainedFile_def
    by (rule keeps_bindE, intro keeps_intros, rule keeps_if, intro keeps_intros,
        rule keeps_bindE, intro keeps_intros, rule keeps_tended_temp(1),
        simp only: prod.case, intro keeps_intros keeps_tended_moves M r)
  then show ?thesis
    unfolding retainEscapedGeneratedGoSource_def by (intro keeps_intros keeps_tended_replace M p)
qed


section \<open>Closing\<close>

text \<open>The nodes a store may touch when it closes: its own run directory and the retained files.\<close>

lemma keeps_tended_stripLive:
  assumes M: "rooted M" and p: "p \<notin> dom M" "p \<noteq> []"
    and ret: "\<And>q. prefix (retainedRoot (versionDir st)) q \<Longrightarrow> q \<notin> dom M"
  shows "keeps (tended st R i M) (stripLivePackageArchiveToExport st p)"
proof -
  have r: "retainedPath st h e \<notin> dom M" "retainedPath st h e \<noteq> []" for h e
    by (rule ret) (simp_all add: retainedPath_def retainedDir_def)
  have upd: "keeps (tended st R i M) (q_updateRetainedType h k)" for h k
  proof (rule keeps_tended)
    show "keeps (\<lambda>w. registry st R i (db w)) (q_updateRetainedType h k)"
      unfolding q_updateRetainedType_def
      by (intro keeps_intros keeps_db_sql_exec) (simp add: registry_def sql_update_retained_type_def)
  qed (intro keeps_intros)
  show ?thesis
    unfolding stripLivePackageArchiveToExport_def Let_def
    by (intro keeps_if keeps_bindE tended_passes.locks keeps_tended_strip keeps_tended_retainSource M p r upd keeps_intros)
      (use r in auto)
qed

lemma keeps_tended_prepare:
  assumes M: "rooted M" and own: "\<And>p. prefix (runDir st) p \<Longrightarrow> p \<notin> dom M" "runDir st \<noteq> []"
    and ret: "\<And>q. prefix (retainedRoot (versionDir st)) q \<Longrightarrow> q \<notin> dom M"
  shows "keeps (tended st R i M) (prepareLiveRunForClose st)"
proof -
  have one: "keeps (tended st R i M) (strip_live st (p, n) acc)" if "prefix (runDir st) p" for p n acc
  proof -
    have p: "p \<notin> dom M" "p \<noteq> []" using own that by auto
    show ?thesis
      unfolding strip_live_def Let_def prod.case
      by (cases acc, simp only: prod.case)
        (intro keeps_intros keeps_tended_moves keeps_tended_stripLive M p ret; assumption)
  qed
  have all: "keeps (tended st R i M) (strip_all st vs acc)" if "\<forall>(p, n)\<in>set vs. prefix (runDir st) p" for vs acc
    using that
  proof (induction vs arbitrary: acc)
    case Nil
    show ?case by (simp only: strip_all.simps keeps_pure)
  next
    case (Cons v vs)
    then show ?case unfolding strip_all.simps by (cases v) (rule keeps_bindE; (simp only:, rule one | rule Cons.IH); simp)
  qed
  have visits: "\<forall>(p, n)\<in>set vs. prefix (runDir st) p" if "walk_dir (runDir st) w = (Inr vs, w')" for vs w w'
    using that by (auto simp: walk_dir_def subtree_def strict_prefix_def dest!: sys_InrD split: option.splits)
  have walked: "keeps (tended st R i M) (bindE (tryE (walk_dir (runDir st))) (\<lambda>r. case r of
      Inl e \<Rightarrow> if errors_is ErrNotExist e then returnE (False, None)
               else returnE (True, join_err None (Some (Wrap ''read live run dir'' [e])))
    | Inr vs \<Rightarrow> strip_all st vs (False, None)))"
  proof (rule keeps_bind_from [where A = "\<lambda>r. \<forall>vs. r = Inr vs \<longrightarrow> (\<forall>(p, n)\<in>set vs. prefix (runDir st) p)"])
    show "tended st R i M w' \<and> (\<forall>x. r = Inr x \<longrightarrow> (\<forall>vs. x = Inr vs \<longrightarrow> (\<forall>(p, n)\<in>set vs. prefix (runDir st) p)))"
      if "tended st R i M w" "tryE (walk_dir (runDir st)) w = (r, w')" for w r w'
      using that(2) keeps_eqD [OF tended_passes.quiet(2) _ that(1)]
      by (cases "walk_dir (runDir st) w") (auto simp: tryE_def dest!: visits)
    show "keeps (tended st R i M) (case r of
        Inl e \<Rightarrow> if errors_is ErrNotExist e then returnE (False, None)
                 else returnE (True, join_err None (Some (Wrap ''read live run dir'' [e])))
      | Inr vs \<Rightarrow> strip_all st vs (False, None))"
      if "\<forall>vs. r = Inr vs \<longrightarrow> (\<forall>(p, n)\<in>set vs. prefix (runDir st) p)" for r
      using that by (cases r) (simp_all only: sum.case, (intro keeps_intros all; blast)+)
  qed
  have "keeps (tended st R i M) (removeEmptyDirs (runDir st))"
    by (rule tended_passes.emptyDirs) (rule own)
  then show ?thesis
    unfolding prepareLiveRunForClose_def
    by (intro keeps_bindE [OF walked]) (simp only: split_paired_all prod.case, intro keeps_intros)
qed

lemma keeps_tended_unregister:
  assumes M: "rooted M" and own: "\<And>p. prefix (runDir st) p \<Longrightarrow> p \<notin> dom M" "runDir st \<noteq> []"
    and ret: "\<And>q. prefix (retainedRoot (versionDir st)) q \<Longrightarrow> q \<notin> dom M" and id: "runID st \<noteq> i"
  shows "keeps (tended st R i M) (unregisterRun st)"
  unfolding unregisterRun_def joining_def Let_def
  by (intro keeps_intros keeps_tended_prepare keeps_tended_delete keeps_tended_moves M own ret id; simp)


lemma keeps_tended_flush: "keeps (tended st R i M) flushAccessTimes"
proof -
  have touch: "keeps (\<lambda>w. registry st R i (db w)) (touchAll f accs)"
    if "\<And>t k d. runs (f t k d) = runs d" for f accs
    unfolding touchAll_def using that
    by (intro keeps_intros keeps_db_sql_exec) (simp add: registry_def)
  have all: "keeps (\<lambda>w. registry st R i (db w)) (q_touchAccessed accs outs)" for accs outs
    unfolding q_touchAccessed_def
    by (intro keeps_intros touch) (simp_all add: sql_touch_entry_def sql_touch_output_def)
  have "keeps (\<lambda>w. registry st R i (db w)) (writeAccessTimes accs outs)" for accs outs
    unfolding writeAccessTimes_def
    by (rule keeps_transaction, rule keeps_bindE, rule keeps_recoverE, rule all)
      (intro keeps_intros keeps_rollback keeps_commit; assumption)+
  then have "keeps (tended st R i M) (writeAccessTimes accs outs)" for accs outs
    by (rule keeps_tended [rotated]) (unfold writeAccessTimes_def, intro keeps_intros)
  then show ?thesis unfolding flushAccessTimes_def restoreAccessed_def by (intro keeps_intros)
qed

text \<open>
  C20. A helper that shuts down leaves every other run alone. Closing a store flushes its access
  times, strips and removes its own live files, takes down its own run and prunes; whatever
  fails on the way, every file and directory of another run whose lock is held stays, and that
  run stays registered.
\<close>

theorem close_spares_live_run:
  assumes "cache_layout st" "treed w" "running st R i w"
    and own: "is_run_dir (liveRoot st) (runDir st)" "runDir st \<noteq> R" "runID st \<noteq> i"
    and q: "prefix R q" "node_at w q = Some n"
  shows "node_at (snd (close st w)) q = Some n \<and> (\<exists>r\<in>set (runs (db (snd (close st w)))). run_key r = i)"
proof -
  let ?M = "nodes_of w (\<lambda>q. \<not> q \<parallel> R)"
  note g = guards_run [OF assms(2), of R]
  have R: "is_run_dir (liveRoot st) R" "?M R = Some DirN"
    using assms(3) run_node [OF assms(3)] by (auto simp: running_def parallel_def)
  have ownfree: "p \<notin> dom ?M" if "prefix (runDir st) p" for p
    using run_dirs_apart [OF own(1) R(1) own(2)] that guards_free [OF g, of p] related_prefix by blast
  have ret: "p \<notin> dom ?M" if "prefix (retainedRoot (versionDir st)) p" for p
    using guards_free [OF g, of p] beside_run [OF assms(1) R(1), of retainedDirName p] that
    by (simp add: retainedRoot_def retainedDirName_def)
  have "keeps (tended st R i ?M) (close st)"
    unfolding close_def
    by (intro keeps_bindE keeps_ignoreE keeps_tended_flush keeps_tended_prune [OF assms(1) g R]
        keeps_tended_unregister guards_rooted [OF g] ownfree ret run_dir_ne [OF own(1)] own(3))
  from keepsD [OF this tended_run [OF assms(3)]] have t: "tended st R i ?M (snd (close st w))" .
  have "q \<noteq> []" "\<not> q \<parallel> R" using q(1) run_dir_ne [OF R(1)] by (auto simp: parallel_def)
  with tendedD [OF t] q(2) show ?thesis by blast
qed


section \<open>Opening\<close>

text \<open>What opening builds up: the directory, then the lock in it, then the row.\<close>

definition opened :: "path \<Rightarrow> path \<Rightarrow> path \<Rightarrow> bool \<Rightarrow> world \<Rightarrow> bool" where
  "opened vdir root d locked w \<longleftrightarrow> d \<noteq> [] \<and> node_at w d = Some DirN \<and> (locked \<longrightarrow> runLockPath d \<in> set (held w)) \<and>
     (\<forall>r\<in>set (runs (db w)). is_run_dir root (path_join vdir (run_path r)))"

lemma opened_ticks [simp]: "opened vdir root d b (w\<lparr>ticks := n\<rparr>) = opened vdir root d b w"
  "opened vdir root d b (w\<lparr>mem := m\<rparr>) = opened vdir root d b w"
  by (simp_all add: opened_def)

lemma ticks_blind_opened [simp]: "ticks_blind (opened vdir root d b)"
  by (simp add: ticks_blind_def)

lemma opened_set_node: "opened vdir root d b w \<Longrightarrow> node_at w p = None \<Longrightarrow> opened vdir root d b (set_node p n w)"
  by (cases "p = []") (auto simp: opened_def)

lemma opened_mkdir_chain: "opened vdir root d b w \<Longrightarrow> opened vdir root d b (snd (mkdir_chain pre cs w))"
  by (induction cs arbitrary: pre w) (auto intro: opened_set_node split: option.splits node.splits)

lemma keeps_opened [keeps_intros]:
  "keeps (opened vdir root d b) (os_mkdir_all p)" "keeps (opened vdir root d b) (modify_mem h)"
  "keeps (opened vdir root d b) time_now" "keeps (opened vdir root d b) (sql_read g)"
proof -
  show "keeps (opened vdir root d b) (os_mkdir_all p)"
    unfolding os_mkdir_all_def by (rule keeps_sys) (simp_all add: keeps_def opened_mkdir_chain)
qed (auto simp: keeps_def modify_mem_def time_now_def sql_read_def sql_def effect_def Let_def opened_def split: option.splits)

lemma opened_new_file: "opened vdir root d b w \<Longrightarrow> node_at w p = None \<Longrightarrow> opened vdir root d b (snd (new_file p w))"
  by (cases "p = []") (auto simp: new_file_def Let_def opened_def)

lemma keeps_opened_openDB: "keeps (opened vdir root d b) (openDB path)"
proof -
  have "opened vdir root d b (v\<lparr>db := empty_tables\<rparr>)" if "opened vdir root d b v" for v
    using that by (simp add: opened_def empty_tables_def)
  then have "keeps (opened vdir root d b) (db_file path)"
    by (auto simp: keeps_def db_file_def opened_new_file)
  moreover have "keeps (opened vdir root d b) (sql_exec (\<lambda>d. d\<lparr>user_version := v\<rparr>))" "keeps (opened vdir root d b) (sql_exec (\<lambda>d. d))" for v
    by (auto simp: keeps_def sql_exec_def sql_def effect_def Let_def opened_def split: option.splits)
  ultimately show ?thesis unfolding openDB_def initDB_def by (intro keeps_intros)
qed

lemma flock_lock_opened:
  "opened vdir root d b w \<Longrightarrow> flock_lock (runLockPath d) w = (Inr u, w') \<Longrightarrow> opened vdir root d True w'"
  by (auto simp: flock_lock_def lock_file_def bindE_eq_Inr dest!: sys_InrD dest: opened_new_file split: if_splits)
    (auto simp: opened_def new_file_def Let_def set_node_def node_at_def update_conv')

lemma rename_opened:
  assumes o: "opened vdir root a b w" and run: "os_rename a d w = (Inr u, w')" and ad: "a \<noteq> d" "d \<noteq> []"
  shows "opened vdir root d False w'"
proof -
  from o have a: "node_at w a = Some DirN" "a \<noteq> []" by (simp_all add: opened_def)
  with run ad have d: "node_at w d = None"
    and w': "w' = w\<lparr>ticks := Suc (ticks w), nodes := map (\<lambda>(q, m). (move_path a d q, m)) (nodes w)\<rparr>"
    by (auto simp: os_rename_def dest!: sys_InrD split: option.splits if_splits)
  have none: "d \<notin> fst ` set (nodes w)" using d ad(2) by (simp add: node_at_def map_of_eq_None_iff)
  have "map_of (map (\<lambda>(q, m). (move_path a d q, m)) ns) d = map_of ns a" if "d \<notin> fst ` set ns" for ns :: "(path \<times> node) list"
    using that
  proof (induction ns)
    case (Cons x ns)
    obtain q m where x: "x = (q, m)" by (cases x)
    have "move_path a d q = d \<longleftrightarrow> q = a" using Cons.prems x by (auto simp: move_path_def prefix_def)
    with Cons x show ?case by auto
  qed simp
  from this [OF none] a ad(2) have "node_at w' d = Some DirN" by (simp add: node_at_def w')
  moreover have "db w' = db w" by (simp add: w')
  ultimately show ?thesis using o ad(2) by (simp add: opened_def)
qed


lemma path_join_rel: "path_join v (path_rel v (v @ x # xs)) = v @ x # xs"
  if "CHR ''.'' \<notin> set x" "\<forall>c\<in>set xs. CHR ''.'' \<notin> set c"
proof -
  have lcp: "longest_common_prefix v (v @ x # xs) = v" for v :: path
    by (induction v) simp_all
  have plain: "c \<noteq> ''..'' \<and> c \<noteq> ''.''" if "CHR ''.'' \<notin> set c" for c using that by auto
  have "fold (\<lambda>c acc. if c = ''..'' then tl acc else if c = ''.'' then acc else c # acc) cs acc = rev cs @ acc"
    if "\<forall>c\<in>set cs. CHR ''.'' \<notin> set c" for cs and acc :: path
    using that by (induction cs arbitrary: acc) (simp_all add: plain)
  from this [of "x # xs"] that show ?thesis by (simp add: path_join_def path_rel_def lcp)
qed

text \<open>
  How the state looks to any other process: the locks this one holds are the busy ones.
\<close>

definition others_view :: "world \<Rightarrow> world" where
  "others_view w = w\<lparr>busy := (\<lambda>p. busy w p \<or> p \<in> set (held w)), held := []\<rparr>"

lemma others_view_simps [simp]:
  "db (others_view w) = db w" "is_dir (others_view w) = is_dir w" "p \<in> set (held w) \<Longrightarrow> busy (others_view w) p"
  by (auto simp: others_view_def is_dir_def node_at_def fun_eq_iff)

lemma live_shard_short: "length (liveShardName h) \<le> 2"
  by (simp add: liveShardName_def)

lemma short_no_run: "length s \<le> 2 \<Longrightarrow> \<not> has_prefix s runDirPrefix"
  by (auto simp: has_prefix_def runDirPrefix_def dest: arg_cong [of _ _ length])


lemma undoing_Inr: "undoing u m w = (Inr x, w') \<longleftrightarrow> m w = (Inr x, w')"
  by (auto simp: undoing_def recoverE_eq_Inr bindE_eq_Inr)

lemma register_opened:
  assumes o: "opened (versionDir st) (liveRoot st) (runDir st) True w" and run: "registerRun st w = (Inr u, w')"
    and R: "is_run_dir (liveRoot st) (runDir st)"
    and rel: "path_join (versionDir st) (path_rel (versionDir st) (runDir st)) = runDir st"
  shows "running st (runDir st) (runID st) (others_view w')"
proof -
  from run obtain k t where w': "w' = w\<lparr>ticks := t, db := sql_register_run (runID st) (path_rel (versionDir st) (runDir st)) k (db w)\<rparr>"
    by (auto simp: registerRun_def bindE_eq_Inr wrapE_eq_Inr q_registerRun_def time_now_def dest!: sql_exec_InrD)
  have "registry st (runDir st) (runID st) (db w')"
    using o R rel by (auto simp: w' registry_def row_ok_def opened_def sql_register_run_def)
  moreover have "is_dir w' (runDir st)" "runLockPath (runDir st) \<in> set (held w')"
    using o by (auto simp: w' opened_def is_dir_def)
  ultimately show ?thesis using R by (simp add: running_def)
qed

lemma mkdir_temp_opened:
  assumes "os_mkdir_temp root runDirPrefix w = (Inr made, w')"
    and "\<forall>r\<in>set (runs (db w)). is_run_dir root (path_join vdir (run_path r))"
  shows "opened vdir root made False w'" and "\<exists>x. made = root @ [runDirPrefix @ x]"
proof -
  from assms(1) obtain k where f: "free_temp root runDirPrefix [] (w\<lparr>ticks := k\<rparr>) 0 = Some made"
    and w': "w' = set_node made DirN (w\<lparr>ticks := k\<rparr>)"
    by (auto simp: os_mkdir_temp_def dest!: sys_InrD split: if_splits option.splits)
  from create_temp_free [OF f] show made: "\<exists>x. made = root @ [runDirPrefix @ x]" by auto
  then have "made \<noteq> []" by auto
  with assms(2) show "opened vdir root made False w'" by (simp add: opened_def w')
qed

text \<open>
  C19. Opening a store claims its run. When opening succeeds, the store's run directory exists
  where every helper looks for run directories, its lock is held, and its row is registered and
  leads back to that directory: seen from any other process, it is a running build.
\<close>

theorem open_claims_run:
  assumes run: "newStoreLocked c vdir bdir root lifecycle w = (Inr st, w')" and root: "root = vdir @ [''live'']"
    and rows: "\<forall>r\<in>set (runs (db w)). is_run_dir root (path_join vdir (run_path r))"
    and name: "CHR ''.'' \<notin> set (runID st)"
  shows "running st (runDir st) (runID st) (others_view w')"
proof -
  from run obtain u1 u2 u4 w1 w2 w3 w4 w5 made moved where
    a: "os_mkdir_all bdir w = (Inr u1, w1)" "os_mkdir_all root w1 = (Inr u2, w2)"
    and m: "os_mkdir_temp root runDirPrefix w2 = (Inr made, w3)"
    and s: "os_mkdir_all (root @ [liveShardName (last made)]) w3 = (Inr u4, w4)"
    and moves: "tryE (os_rename made ((root @ [liveShardName (last made)]) @ [last made])) w4 = (Inr moved, w5)"
    and tl: "\<exists>x w6. flock_lock (runLockPath (case moved of Inl _ \<Rightarrow> made | Inr _ \<Rightarrow> (root @ [liveShardName (last made)]) @ [last made])) w5 = (Inr x, w6) \<and>
        bindE (openDB (dbPath vdir)) (\<lambda>_. bindE time_now (\<lambda>now. bindE (modify_mem (\<lambda>_. fresh_mem now)) (\<lambda>_.
        bindE q_prepare (\<lambda>_. bindE (registerRun \<lparr>cfg = c, versionDir = vdir, blobsDir = bdir, liveRoot = root,
                  lifecycleLockPath = lifecycle, runID = last made,
                  runDir = case moved of Inl _ \<Rightarrow> made | Inr _ \<Rightarrow> (root @ [liveShardName (last made)]) @ [last made]\<rparr>)
        (\<lambda>_. returnE \<lparr>cfg = c, versionDir = vdir, blobsDir = bdir, liveRoot = root,
                  lifecycleLockPath = lifecycle, runID = last made,
                  runDir = case moved of Inl _ \<Rightarrow> made | Inr _ \<Rightarrow> (root @ [liveShardName (last made)]) @ [last made]\<rparr>))))) w6 = (Inr st, w')"
    unfolding newStoreLocked_def Let_def undoing_Inr bindE_eq_Inr wrapE_eq_Inr
    by (elim exE conjE, intro that) (assumption+, intro exI conjI, assumption, unfold bindE_eq_Inr, intro exI conjI, assumption+)
  define rdir where "rdir = (case moved of Inl _ \<Rightarrow> made | Inr _ \<Rightarrow> root @ [liveShardName (last made), last made])"
  have mv: "os_rename made (root @ [liveShardName (last made), last made]) w4 = (moved, w5)"
    using moves by (cases "os_rename made (root @ [liveShardName (last made), last made]) w4") (simp add: tryE_eq)
  have "(case moved of Inl _ \<Rightarrow> made | Inr _ \<Rightarrow> (root @ [liveShardName (last made)]) @ [last made]) = rdir"
    by (simp add: rdir_def split: sum.split)
  note tl [unfolded this]
  then obtain w6 where l: "flock_lock (runLockPath rdir) w5 = (Inr (), w6)"
    and rest: "bindE (openDB (dbPath vdir)) (\<lambda>_. bindE time_now (\<lambda>now. bindE (modify_mem (\<lambda>_. fresh_mem now)) (\<lambda>_.
        let st = \<lparr>cfg = c, versionDir = vdir, blobsDir = bdir, liveRoot = root,
                  lifecycleLockPath = lifecycle, runID = last made, runDir = rdir\<rparr> in
        bindE q_prepare (\<lambda>_. bindE (registerRun st) (\<lambda>_. returnE st))))) w6 = (Inr st, w')"
    by (auto simp: Let_def)
  note rdir = rdir_def
  have rows2: "\<forall>r\<in>set (runs (db w2)). is_run_dir root (path_join vdir (run_path r))"
    using rows frame_eqD [OF frame_db_outside [OF outside_file_effects(2)] a(1)]
      frame_eqD [OF frame_db_outside [OF outside_file_effects(2)] a(2)] by simp
  from mkdir_temp_opened [OF m rows2] obtain x where made: "made = root @ [runDirPrefix @ x]"
    and o3: "opened vdir root made False w3" by blast
  have o4: "opened vdir root made False w4" by (rule keeps_eqD [OF keeps_opened(1) s o3])
  let ?id = "last made"
  have id: "has_prefix ?id runDirPrefix" by (simp add: made has_prefix_def)
  have shard: "\<not> has_prefix (liveShardName ?id) runDirPrefix" by (rule short_no_run [OF live_shard_short])
  have R: "is_run_dir root rdir"
    using id shard by (cases moved) (auto simp: is_run_dir_def rdir made)
  have o5: "opened vdir root rdir False w5"
  proof (cases moved)
    case (Inl e)
    then have "node_at w5 = node_at w4 \<and> db w5 = db w4"
      using mv by (auto simp: os_rename_def dest!: sys_InlD split: option.splits node.splits if_splits)
    with o4 Inl show ?thesis by (simp add: opened_def rdir)
  next
    case (Inr u)
    with mv rename_opened [OF o4, of "root @ [liveShardName ?id, ?id]" u w5] show ?thesis by (simp add: rdir made)
  qed
  from flock_lock_opened [OF this l] have o6: "opened vdir root rdir True w6" .
  let ?st = "\<lparr>cfg = c, versionDir = vdir, blobsDir = bdir, liveRoot = root,
      lifecycleLockPath = lifecycle, runID = ?id, runDir = rdir\<rparr>"
  from rest obtain u7 u8 u9 v7 v8 v9 v10 where
    b: "openDB (dbPath vdir) w6 = (Inr u7, v7)" "time_now v7 = (Inr u8, v8)" "modify_mem (\<lambda>_. fresh_mem u8) v8 = (Inr u9, v9)"
      "q_prepare v9 = (Inr (), v10)" "registerRun ?st v10 = (Inr (), w')" and st: "st = ?st"
    by (auto simp: bindE_eq_Inr Let_def)
  have "keeps (opened vdir root rdir True) q_prepare" unfolding q_prepare_def by (intro keeps_intros)
  from keeps_eqD [OF this b(4) keeps_eqD [OF keeps_opened(2) b(3) keeps_eqD [OF keeps_opened(3) b(2)
        keeps_eqD [OF keeps_opened_openDB b(1) o6]]]]
  have o10: "opened vdir root rdir True v10" .
  have idn: "CHR ''.'' \<notin> set ?id" using name st by simp
  then have "CHR ''.'' \<notin> set (liveShardName ?id)"
    by (auto simp: liveShardName_def dest: in_set_dropD)
  with idn have "path_join vdir (path_rel vdir rdir) = rdir"
    using path_join_rel [of "''live''" "[?id]" vdir] path_join_rel [of "''live''" "[liveShardName ?id, ?id]" vdir]
    by (cases moved) (simp_all add: rdir root made)
  with register_opened [of ?st v10 "()" w'] o10 b(5) R show ?thesis by (simp add: st)
qed


section \<open>Witnesses\<close>

definition demo_config :: config where
  "demo_config = \<lparr>dir = [''c''], maxSize = 1000, maxAge = defaultMaxAge, maxRetainedAge = 0, verbose = False, types = False, cpuProfile = [], memProfile = []\<rparr>"

text \<open>A build in \<open>live/run-1\<close>, with one live file, seen by another helper.\<close>

definition demo_run :: path where "demo_run = [''c'', ''v2'', ''live'', ''run-1'']"

definition busy_world :: world where
  "busy_world = calm_world\<lparr>
     nodes := [([''c''], DirN), ([''c'', ''v2''], DirN), ([''c'', ''v2'', ''live''], DirN), (demo_run, DirN),
               (demo_run @ [''run.lock''], FileN 0), (demo_run @ [''ab-d''], FileN 1), ([''c'', ''v2'', ''cache.db''], FileN 2)],
     inodes := (\<lambda>_. \<lparr>ino_data = [], ino_mtime = 0\<rparr>), next_ino := 3,
     db := empty_tables\<lparr>runs := [\<lparr>run_key = ''run-1'', run_path = [''live'', ''run-1''], run_created = 0\<rparr>]\<rparr>,
     busy := (\<lambda>p. p = demo_run @ [''run.lock''])\<rparr>"

lemma treedI: "\<forall>q\<in>fst ` set (nodes w). is_dir w (butlast q) \<Longrightarrow> treed w"
  unfolding treed_def
proof (intro allI impI)
  fix q assume w: "\<forall>q\<in>fst ` set (nodes w). is_dir w (butlast q)" and q: "node_at w q \<noteq> None"
  show "is_dir w (butlast q)"
  proof (cases "q = []")
    case False
    with q obtain n where "map_of (nodes w) q = Some n" by (auto simp: node_at_def)
    from map_of_SomeD [OF this] w show ?thesis by force
  qed (simp add: is_dir_def)
qed

lemma treed_busy: "treed busy_world"
  by (rule treedI) (simp add: busy_world_def is_dir_def node_at_def demo_run_def)

lemma running_busy:
  assumes "versionDir st = [''c'', ''v2'']" "liveRoot st = [''c'', ''v2'', ''live'']"
  shows "running st demo_run ''run-1'' busy_world"
  using assms
  by (simp add: running_def registry_def row_ok_def is_run_dir_def busy_world_def is_dir_def node_at_def demo_run_def
      runLockPath_def runLockName_def path_join_def has_prefix_def runDirPrefix_def)

definition other_store :: store where
  "other_store = \<lparr>cfg = demo_config, versionDir = [''c'', ''v2''], blobsDir = [''c'', ''v2'', ''blobs''],
     liveRoot = [''c'', ''v2'', ''live''], lifecycleLockPath = [''c'', ''v2'', ''lifecycle.lock''],
     runID = ''run-2'', runDir = [''c'', ''v2'', ''live'', ''run-2'']\<rparr>"

lemma cache_layout_other: "cache_layout other_store"
  by (simp add: cache_layout_def other_store_def)

lemma busy_file: "node_at busy_world (demo_run @ [''ab-d'']) = Some (FileN 1)"
  by (simp add: busy_world_def node_at_def demo_run_def)

theorem prune_spares_live_run_witness:
  "node_at (snd (prune other_store busy_world)) (demo_run @ [''ab-d'']) = Some (FileN 1)"
  using prune_spares_live_run [OF cache_layout_other treed_busy running_busy _ busy_file] by (simp add: other_store_def)

theorem close_spares_live_run_witness:
  "node_at (snd (close other_store busy_world)) (demo_run @ [''ab-d'']) = Some (FileN 1)"
proof -
  have "is_run_dir (liveRoot other_store) (runDir other_store)" "runDir other_store \<noteq> demo_run" "runID other_store \<noteq> ''run-1''"
    by (simp_all add: other_store_def is_run_dir_def has_prefix_def runDirPrefix_def demo_run_def)
  from close_spares_live_run [OF cache_layout_other treed_busy running_busy this _ busy_file]
  show ?thesis by (simp add: other_store_def)
qed

text \<open>The same with a write-ahead log and two outputs in the catalog.\<close>

definition stocked_world :: world where
  "stocked_world = busy_world\<lparr>
     nodes := nodes busy_world @ [([''c'', ''v2'', ''cache.db-wal''], FileN 3)], next_ino := 4,
     db := (db busy_world)\<lparr>outputs := outputs sample_tables\<rparr>\<rparr>"

lemma treed_stocked: "treed stocked_world"
  by (rule treedI) (simp add: stocked_world_def busy_world_def is_dir_def node_at_def demo_run_def)

theorem clean_spares_live_run_witness:
  "node_at (snd (cleanCache demo_config stocked_world)) [''c'', ''v2'', ''cache.db-wal''] = Some (FileN 3) \<and>
   outputs (db (snd (cleanCache demo_config stocked_world))) = outputs sample_tables"
proof -
  have v: "cacheVersionDir demo_config = [''c'', ''v2'']" by (simp add: cacheVersionDir_def demo_config_def)
  have n: "node_at stocked_world [''c'', ''v2'', ''cache.db-wal''] = Some (FileN 3)"
    "node_at stocked_world [''c'', ''v2'', ''cache.db''] = Some (FileN 2)"
    by (simp_all add: stocked_world_def busy_world_def node_at_def demo_run_def)
  have "running (bare_store demo_config) demo_run ''run-1'' busy_world"
    by (rule running_busy) (simp_all add: bare_store_def cachePaths_def v Let_def)
  then have "running (bare_store demo_config) demo_run ''run-1'' stocked_world"
    by (simp add: running_def registry_def stocked_world_def is_dir_def node_at_def busy_world_def)
  from clean_spares_live_run [OF treed_stocked this] n
  have "node_at (snd (cleanCache demo_config stocked_world)) [''c'', ''v2'', ''cache.db-wal''] = Some (FileN 3)"
    "inventory (db (snd (cleanCache demo_config stocked_world))) = inventory (db stocked_world)"
    by (simp_all add: v dbPath_def catalog_files_def)
  then show ?thesis by (simp add: inventory_def stocked_world_def)
qed


lemma open_succeeds:
  "case fst (newStoreLocked demo_config [''c'', ''v2''] [''c'', ''v2'', ''blobs''] [''c'', ''v2'', ''live''] [''c'', ''v2'', ''lifecycle.lock''] calm_world) of
     Inr st \<Rightarrow> CHR ''.'' \<notin> set (runID st) | Inl _ \<Rightarrow> False"
  by code_simp

theorem open_claims_run_witness:
  "\<exists>st w'. newStoreLocked demo_config [''c'', ''v2''] [''c'', ''v2'', ''blobs''] [''c'', ''v2'', ''live''] [''c'', ''v2'', ''lifecycle.lock'']
      calm_world = (Inr st, w') \<and> running st (runDir st) (runID st) (others_view w')"
proof -
  let ?open = "newStoreLocked demo_config [''c'', ''v2''] [''c'', ''v2'', ''blobs''] [''c'', ''v2'', ''live''] [''c'', ''v2'', ''lifecycle.lock''] calm_world"
  obtain st w' where run: "?open = (Inr st, w')" and name: "CHR ''.'' \<notin> set (runID st)"
    using open_succeeds by (cases ?open) (auto split: sum.splits)
  from open_claims_run [OF run _ _ name] run show ?thesis by (simp add: empty_tables_def)
qed

end
