(* ===== verification/Due.thy ===== *)
theory Due
  imports Maintenance
begin

text \<open>
  When maintenance acts: the cutoff behind which entries are too old, and the stamps that say
  when a pass is due.
\<close>

section \<open>Cutoffs\<close>

lemma sdiv_mono:
  assumes "a \<le> b" "0 < (c::int)"
  shows "a sdiv c \<le> b sdiv c"
proof -
  have pos: "x sdiv c = x div c" if "0 \<le> x" for x
    using that assms(2) by (cases "x = 0") (simp_all add: signed_divide_int_def)
  have neg: "x sdiv c = - ((- x) div c)" if "x < 0" for x
    using that assms(2) by (simp add: signed_divide_int_def)
  have nneg: "0 \<le> x div c" if "0 \<le> x" for x using that assms(2) by (simp add: pos_imp_zdiv_nonneg_iff)
  show ?thesis
  proof (cases "0 \<le> a")
    case True
    with assms show ?thesis by (simp add: pos zdiv_mono1)
  next
    case a: False
    show ?thesis
    proof (cases "0 \<le> b")
      case True
      have "- ((- a) div c) \<le> 0" using nneg [of "- a"] a by linarith
      with a True nneg [of b] show ?thesis by (simp add: pos neg)
    next
      case False
      with a assms show ?thesis by (simp add: neg zdiv_mono1)
    qed
  qed
qed

definition entries_kept :: "int \<Rightarrow> tables \<Rightarrow> entry_row list \<times> output_row list" where
  "entries_kept at d = (filter (\<lambda>e. at \<le> ent_accessed e) (entries d), filter (\<lambda>r. at \<le> out_accessed r) (outputs d))"

lemma entries_kept_delete:
  assumes "cutoff \<le> at"
  shows "entries_kept at (snd (sql_delete_stale_entry cutoff k d)) = entries_kept at d"
    and "entries_kept at (snd (sql_delete_stale_output cutoff k d)) = entries_kept at d"
  using assms
  by (auto simp: entries_kept_def sql_delete_stale_entry_def sql_delete_stale_output_def conj_commute intro!: filter_cong)

lemma i64_add_i64: "i64 (a + i64 b) = i64 (a + b)"
  unfolding i64_def by (simp add: mod_simps algebra_simps)

lemma i64_diff_i64: "i64 (i64 a - b) = i64 (a - b)"
  unfolding i64_def by (simp add: mod_simps algebra_simps)

lemma unixMillis_cutoff: "unixMillis (trimCutoff age now) = unixMillis (now - age - mtimeInterval)"
  unfolding unixMillis_def trimCutoff_def by (simp add: i64_add_i64 i64_diff_i64 algebra_simps)

text \<open>
  C21. Nothing used within the configured age expires. For every age an \<open>int64\<close> can hold, an age
  pass planned at \<open>now\<close> keeps every entry and output last used at most that age ago, whatever
  fails in it: where the cutoff's arithmetic wraps, the conversion to milliseconds wraps it back.
\<close>

theorem recently_used_kept:
  assumes age: "0 < maxAge (cfg st)" "maxAge (cfg st) \<le> max_i64" and now: "mtimeInterval \<le> now" "now \<le> max_i64"
    and run: "pruneOldEntries st (planOldEntries st now) w = (r, w')" and used: "now - maxAge (cfg st) \<le> t" "t \<le> max_i64"
  shows "entries_kept (unixMillis t) (db w') = entries_kept (unixMillis t) (db w)"
proof (cases "planOldEntries st now = 0")
  case True
  with run show ?thesis by (simp add: pruneOldEntries_def)
next
  case False
  let ?c = "planOldEntries st now"
  have c: "?c = unixMillis (now - maxAge (cfg st) - mtimeInterval)"
    using age by (simp add: planOldEntries_def unixMillis_cutoff)
  have "now - maxAge (cfg st) - mtimeInterval \<le> t" "in_i64 (now - maxAge (cfg st) - mtimeInterval)" "in_i64 t"
    using age now used by (auto simp: in_i64_def min_i64_def max_i64_def mtimeInterval_def)
  then have le: "?c \<le> unixMillis t"
    unfolding c unixMillis_def by (simp add: sdiv_mono)
  have "keeps (\<lambda>v. entries_kept (unixMillis t) (db v) = entries_kept (unixMillis t) (db w)) (deleteAccessedBefore ?c)"
    by (rule keeps_deleteAccessedBefore) (simp add: expiry_stable_def entries_kept_delete [OF le])
  then have "keeps (\<lambda>v. entries_kept (unixMillis t) (db v) = entries_kept (unixMillis t) (db w)) (pruneOldEntries st ?c)"
    unfolding pruneOldEntries_def by (intro keeps_bindE keeps_wrapE keeps_if keeps_pure)
  from keeps_dbD [OF this run] show ?thesis by simp
qed

definition young_store :: store where
  "young_store = \<lparr>cfg = \<lparr>dir = [], maxSize = 0, maxAge = 1000000, maxRetainedAge = 0, verbose = False, types = False, cpuProfile = [], memProfile = []\<rparr>,
     versionDir = [], blobsDir = [], liveRoot = [], lifecycleLockPath = [], runID = [], runDir = []\<rparr>"

theorem recently_used_kept_witness:
  "snd (entries_kept 3999999 (db (snd (pruneOldEntries young_store (planOldEntries young_store 4000000000000) sample_world)))) = []"
proof -
  obtain r w' where run: "pruneOldEntries young_store (planOldEntries young_store 4000000000000) sample_world = (r, w')"
    by (cases "pruneOldEntries young_store (planOldEntries young_store 4000000000000) sample_world")
  have "unixMillis 3999999000000 = 3999999"
    by (simp add: unixMillis_def in_i64_def min_i64_def max_i64_def signed_divide_int_def)
  with recently_used_kept [OF _ _ _ _ run, of 3999999000000]
  have "entries_kept 3999999 (db w') = entries_kept 3999999 sample_tables"
    by (simp add: young_store_def max_i64_def mtimeInterval_def)
  with run show ?thesis by (simp add: entries_kept_def sample_tables_def sample_row_def)
qed

text \<open>
  C22. File times are compared without that second wrap. With an age within an hour of the
  largest duration the cutoff lands in the future, and a retained file is removed however
  recently it was used.
\<close>

theorem huge_age_drops_retained:
  assumes age: "max_i64 - mtimeInterval + 1 < age" "age \<le> max_i64"
    and w: "calm w" "p \<noteq> []" "node_at w p = Some (FileN i)" "ino_mtime (inodes w i) \<le> now"
  shows "now < trimCutoff age now \<and> node_at (snd (removeExpiredRetainedFiles [p] (trimCutoff age now) w)) p = None"
proof -
  have "i64 (- age) = - age" using age by (simp add: in_i64_def min_i64_def max_i64_def mtimeInterval_def)
  moreover have "i64 (- age - mtimeInterval) = - age - mtimeInterval + 18446744073709551616"
  proof -
    let ?x = "- age - mtimeInterval + 9223372036854775808"
    have "(?x + 18446744073709551616) mod 18446744073709551616 = ?x + 18446744073709551616"
      by (rule mod_pos_pos_trivial) (use age in \<open>simp_all add: max_i64_def mtimeInterval_def\<close>)
    then have "?x mod 18446744073709551616 = ?x + 18446744073709551616" by (simp only: mod_add_self2)
    then show ?thesis by (simp add: i64_def)
  qed
  ultimately have c: "now < trimCutoff age now"
    using age unfolding trimCutoff_def by (auto simp: min_i64_def max_i64_def mtimeInterval_def)
  then have "\<exists>w'. removeExpiredRetainedFiles [p] (trimCutoff age now) w = (Inr (), w') \<and> node_at w' p = None"
    using w by (simp add: removeExpiredRetainedFiles_def bindE_def tryE_def os_stat_def sys_def calm_effect info_of_def
        remove_if_present_def recoverE_def os_remove_def returnE_def)
  with c show ?thesis by auto
qed


theorem huge_age_drops_retained_witness:
  "node_at (snd (removeExpiredRetainedFiles [[''a'']] (trimCutoff max_i64 5)
     (calm_world\<lparr>nodes := [([''a''], FileN 0)]\<rparr>))) [''a''] = None"
proof -
  have "calm (calm_world\<lparr>nodes := [([''a''], FileN 0)]\<rparr>)" by (simp add: calm_def)
  from huge_age_drops_retained [of max_i64, OF _ _ this, of "[''a'']" 0 5]
  show ?thesis by (simp add: max_i64_def mtimeInterval_def node_at_def calm_world_def)
qed

section \<open>Stamps\<close>

text \<open>A stamp written less than the interval ago.\<close>

definition stamp_fresh :: "path \<Rightarrow> int \<Rightarrow> world \<Rightarrow> bool" where
  "stamp_fresh p now w \<longleftrightarrow>
     (\<exists>i. p \<noteq> [] \<and> node_at w p = Some (FileN i) \<and> ino_mtime (inodes w i) \<le> now \<and> now - ino_mtime (inodes w i) < pruneInterval)"

lemma stamp_due_fresh:
  assumes "calm w" "stamp_fresh p now w"
  shows "stamp_due p now w = (Inr False, w\<lparr>ticks := Suc (ticks w)\<rparr>)"
proof -
  from assms(2) obtain i where i: "node_at w p = Some (FileN i)" "ino_mtime (inodes w i) \<le> now"
    "now - ino_mtime (inodes w i) < pruneInterval" by (auto simp: stamp_fresh_def)
  have "time_sub now (ino_mtime (inodes w i)) = now - ino_mtime (inodes w i)"
    using i(2,3) by (simp add: time_sub_def pruneInterval_def min_i64_def max_i64_def)
  with i assms(1) show ?thesis
    by (simp add: stamp_due_def bindE_def tryE_def os_stat_def sys_def calm_effect info_of_def)
qed

text \<open>
  C23. A helper that exits when nothing is due does no maintenance. With all three stamps younger
  than an hour and no more installed since the last prune than the allowed overshoot, a prune
  looks at the stamps and changes nothing: no file, no row, no lock.
\<close>

theorem prune_idle_when_fresh:
  assumes calm: "calm w" and now: "now = clock w (ticks w)"
    and fresh: "stamp_fresh (sweepStampPath (versionDir st)) now w" "stamp_fresh (pruneStampPath (versionDir st)) now w"
      "stamp_fresh (retainedStampPath (versionDir st)) now w"
    and under: "maxSize (cfg st) \<le> 0 \<or> installed (mem w) \<le> maxSize (cfg st) sdiv pruneOvershootDivisor"
  shows "\<exists>n. prune st w = (Inr (), w\<lparr>ticks := n\<rparr>)"
proof -
  have f: "stamp_fresh p t (w\<lparr>ticks := n\<rparr>) = stamp_fresh p t w" for p t n by (simp add: stamp_fresh_def)
  note due = stamp_due_fresh [of "w\<lparr>ticks := n\<rparr>" for n, simplified f calm_simps, OF calm]
  have over: "\<not> (0 < maxSize (cfg st) \<and> maxSize (cfg st) sdiv pruneOvershootDivisor < installed (mem w))"
    using under by linarith
  show ?thesis
    using over
    by (auto simp: prune_def bindE_def time_now_def sweepDue_def pruneDue_def retainedExpiryDue_def due fresh [unfolded now])
qed


definition stamped_world :: world where
  "stamped_world = calm_world\<lparr>nodes := [([''sweep.stamp''], FileN 0), ([''prune.stamp''], FileN 0), ([''retained.stamp''], FileN 0)]\<rparr>"

theorem prune_idle_when_fresh_witness:
  "\<exists>n. prune young_store stamped_world = (Inr (), stamped_world\<lparr>ticks := n\<rparr>)"
  by (rule prune_idle_when_fresh [where now = 0])
    (simp_all add: stamp_fresh_def stamped_world_def calm_world_def calm_def young_store_def node_at_def pruneInterval_def
      sweepStampPath_def pruneStampPath_def retainedStampPath_def)

end
