(* ===== verification/Protocol.thy ===== *)
theory Protocol
  imports Content Maintenance
begin

text \<open>
  The protocol loop (\<open>protocol.go\<close>). Requests are JSON lines, a put's body follows its line;
  gets are answered concurrently, everything else in order. The loop is a step relation whose
  steps are atomic: reading a request, finishing a get that is in flight, answering any other
  request, shutting down. Decoding a line is \<open>encoding/json\<close>, a parameter.
\<close>

section \<open>What a reader leaves of the stream\<close>

lemma read_slice_suffix: "read_slice c inp fin = (sl, e, rest) \<Longrightarrow> suffix rest inp"
  by (auto simp: read_slice_def Let_def suffix_drop split: if_splits)

lemma raw_read_suffix: "raw_read n r = (bs, e, r') \<Longrightarrow> suffix (rd_input r') (rd_input r)"
  by (auto simp: raw_read_def Let_def split: if_splits prod.splits slice_end.splits dest!: read_slice_suffix)

lemma filt_read_suffix: "filt_read n r = (bs, e, r') \<Longrightarrow> suffix (rd_input r') (rd_input r)"
proof (induction n r rule: filt_read.induct)
  case (1 n r)
  obtain cs d r1 where raw: "raw_read n r = (cs, d, r1)" by (metis prod_cases3)
  note s1 = raw_read_suffix [OF raw]
  show ?case
  proof (cases "cs = [] \<or> filter (\<lambda>c. c \<noteq> CHR 13 \<and> c \<noteq> CHR 10) cs \<noteq> []")
    case True
    with raw 1(2) s1 show ?thesis by (auto simp: filt_read.simps [of n r] Let_def split: if_splits)
  next
    case False
    with raw 1(2) have "filt_read n r1 = (bs, e, r')" by (auto simp: filt_read.simps [of n r] Let_def)
    from 1(1) [OF raw [symmetric] _ _ refl _ this] False s1 show ?thesis by (auto intro: suffix_order.trans)
  qed
qed

lemma fill_suffix: "fill buf e r = (buf', e', r') \<Longrightarrow> suffix (rd_input r') (rd_input r)"
proof (induction buf e r rule: fill.induct)
  case (1 buf e r)
  show ?case
  proof (cases "4 \<le> length buf \<or> e \<noteq> None")
    case True
    with 1(2) show ?thesis by (auto simp: fill.simps [of buf])
  next
    case False
    obtain bs e1 r1 where f: "filt_read (decBuf - length buf) r = (bs, e1, r1)" by (metis prod_cases3)
    with False 1(2) have "fill (buf @ bs) e1 r1 = (buf', e', r')" by (simp add: fill.simps [of buf])
    from 1(1) [OF False f [symmetric] _ this] filt_read_suffix [OF f] show ?thesis by (auto intro: suffix_order.trans)
  qed
qed

lemma dec_read_suffix: "dec_read d = (out, e, d') \<Longrightarrow> suffix (rd_input (dec_raw d')) (rd_input (dec_raw d))"
  by (auto simp: dec_read_def Let_def split: prod.splits if_splits dest!: fill_suffix)

lemma drain_suffix: "suffix (rd_input (drain_raw r)) (rd_input r)"
proof (induction r rule: drain_raw.induct)
  case (1 r)
  obtain bs e r1 where raw: "raw_read 32768 r = (bs, e, r1)" by (metis prod_cases3)
  note s1 = raw_read_suffix [OF raw]
  show ?case
  proof (cases e)
    case None
    from 1 [OF raw [symmetric] refl] None raw s1 show ?thesis
      by (auto simp: drain_raw.simps [of r] intro: suffix_order.trans)
  qed (use raw s1 in \<open>simp add: drain_raw.simps [of r]\<close>)
qed

lemma copy_put_suffix:
  "copy_put fl buf data d w = (Inr (e, buf', data', d'), w') \<Longrightarrow> suffix (rd_input (dec_raw d')) (rd_input (dec_raw d))"
proof (induction fl buf data d w arbitrary: e buf' data' d' w' rule: copy_put.induct)
  case (1 fl buf data d w)
  obtain out e1 d1 where r: "dec_read d = (out, e1, d1)" by (metis prod_cases3)
  obtain x w1 where b: "buf_write fl buf out w = (x, w1)" by (metis surj_pair)
  note s1 = dec_read_suffix [OF r]
  show ?case
  proof (cases "\<exists>b. x = Inr b \<and> e1 = None")
    case True
    then obtain b1 where x: "x = Inr b1" "e1 = None" by blast
    with r b 1(2) have "copy_put fl b1 (data @ out) d1 w1 = (Inr (e, buf', data', d'), w')"
      by (simp add: copy_put.simps [of fl buf])
    from 1(1) [OF r [symmetric] refl b [symmetric] x this] s1 show ?thesis by (auto intro: suffix_order.trans)
  next
    case False
    with r b 1(2) s1 show ?thesis by (cases x; cases e1) (auto simp: copy_put.simps [of fl buf])
  qed
qed


text \<open>A put always answers: its errors are values, and it leaves a suffix of the stream.\<close>

definition answers :: "'a io \<Rightarrow> ('a \<Rightarrow> bool) \<Rightarrow> bool" where
  "answers m A \<longleftrightarrow> (\<forall>w. \<exists>x w'. m w = (Inr x, w') \<and> A x)"

lemma answers_bindE: "answers m A \<Longrightarrow> (\<And>x. A x \<Longrightarrow> answers (f x) B) \<Longrightarrow> answers (bindE m f) B"
  unfolding answers_def bindE_eq_Inr by metis

lemma answers_tryE: "answers (tryE m) (\<lambda>_. True)" "answers (ignoreE m) (\<lambda>_. True)"
  by (simp_all add: answers_def tryE_eq ignoreE_eq)

lemma answers_returnE: "A x \<Longrightarrow> answers (returnE x) A"
  by (simp add: answers_def)

lemma answers_mono: "answers m A \<Longrightarrow> (\<And>x. A x \<Longrightarrow> B x) \<Longrightarrow> answers m B"
  unfolding answers_def by blast

lemma answers_runs: "answers m A \<Longrightarrow> (\<And>w x w'. m w = (Inr x, w') \<Longrightarrow> B x) \<Longrightarrow> answers m B"
  unfolding answers_def by metis

definition body_suffix :: "body \<Rightarrow> body \<Rightarrow> bool" where
  "body_suffix b' b = (case (b', b) of
     (EmptyBody, EmptyBody) \<Rightarrow> True | (StringBody r', StringBody r) \<Rightarrow> suffix (rd_input r') (rd_input r) | _ \<Rightarrow> False)"

lemma body_suffix_refl [simp]: "body_suffix b b"
  by (cases b) (simp_all add: body_suffix_def)

lemma body_suffix_drain: "body_suffix b' b \<Longrightarrow> body_suffix (drainBody b') b"
  by (cases b; cases b') (auto simp: body_suffix_def drainBody_def intro: suffix_order.trans [OF drain_suffix])

lemma copy_put_answers:
  "answers (copy_put fl buf data d) (\<lambda>(e, buf, data, d'). suffix (rd_input (dec_raw d')) (rd_input (dec_raw d)))"
proof -
  have "\<exists>x w'. copy_put fl buf data d w = (Inr x, w')" for w
  proof (induction fl buf data d w rule: copy_put.induct)
    case (1 fl buf data d w)
    obtain out e1 d1 where r: "dec_read d = (out, e1, d1)" by (metis prod_cases3)
    obtain x w1 where b: "buf_write fl buf out w = (x, w1)" by (metis surj_pair)
    show ?case
    proof (cases "\<exists>b. x = Inr b \<and> e1 = None")
      case True
      then obtain b1 where x: "x = Inr b1" "e1 = None" by blast
      from 1 [OF r [symmetric] refl b [symmetric] x] r b x show ?thesis by (simp add: copy_put.simps [of fl buf])
    next
      case False
      with r b show ?thesis by (cases x; cases e1) (auto simp: copy_put.simps [of fl buf])
    qed
  qed
  then show ?thesis unfolding answers_def by (metis (mono_tags, lifting) case_prodI2 copy_put_suffix)
qed

lemma streamPutBody_answers: "answers (streamPutBody i b) (\<lambda>(e, data, b'). body_suffix b' b)"
proof -
  have copied: "answers (copy_body_put i b) (\<lambda>(e, buf, data, b'). body_suffix b' b)"
  proof (cases b)
    case (StringBody r)
    show ?thesis
      unfolding copy_body_put_def StringBody body.case
      by (rule answers_bindE [OF copy_put_answers]) (auto intro!: answers_returnE simp: body_suffix_def)
  qed (simp add: copy_body_put_def answers_def body_suffix_def)
  have rest: "answers (case e of
      Some x \<Rightarrow> returnE (Some (Wrap ''read put body'' [x]), data, b')
    | None \<Rightarrow> bindE (tryE (if buf = [] then returnE () else file_write i buf)) (\<lambda>r. case r of
        Inl x \<Rightarrow> returnE (Some (Wrap ''write live file'' [x]), data, b') | Inr _ \<Rightarrow> returnE (None, data, b')))
    (\<lambda>(e, data, b'). body_suffix b' b)" if "body_suffix b' b" for e buf data b'
    using that by (cases e) (auto intro!: answers_bindE [OF answers_tryE(1)] answers_returnE split: sum.splits)
  show ?thesis
    unfolding streamPutBody_def by (rule answers_bindE [OF copied]) (simp only: split_paired_all prod.case, rule rest)
qed

lemma put_body_leaves:
  assumes drained: "Q (drainBody b)"
    and streamed: "\<And>i. answers (streamPutBody i b) (\<lambda>(e, data, b'). Q (if e = None then b' else drainBody b'))"
  shows "answers (put_body cd st req a h b) (\<lambda>(r, b'). Q b')"
  unfolding put_body_def
proof (rule answers_bindE [OF answers_tryE(1)])
  fix op :: "err + path \<times> nat \<times> path \<times> nat"
  show "answers (case op of
      Inl e \<Rightarrow> returnE (Inl e, drainBody b)
    | Inr (bodyPath, bodyFile, blobTmpPath, blobTmp) \<Rightarrow>
        bindE (streamPutBody bodyFile b) (\<lambda>(copyErr, data, b').
        bindE (tryE (put_finish cd st req a h (bodyPath, bodyFile, blobTmpPath, blobTmp) copyErr data)) (\<lambda>r.
        bindE (ignoreE (os_remove blobTmpPath)) (\<lambda>_.
        bindE (case r of Inl e \<Rightarrow> ignoreE (os_remove bodyPath) | Inr _ \<Rightarrow> returnE ()) (\<lambda>_.
        returnE (r, if copyErr = None then b' else drainBody b')))))) (\<lambda>(r, b'). Q b')"
  proof (cases op)
    case (Inl e)
    with drained show ?thesis by (auto intro!: answers_returnE)
  next
    case (Inr x)
    obtain p i q j where x: "x = (p, i, q, j)" by (metis prod_cases4)
    have cleanup: "answers (case r of Inl e \<Rightarrow> ignoreE (os_remove p) | Inr _ \<Rightarrow> returnE ()) (\<lambda>_. True)" for r :: "err + response"
      by (cases r) (simp_all add: answers_tryE answers_returnE)
    show ?thesis
      unfolding Inr x sum.case prod.case
      by (rule answers_bindE [OF streamed], simp only: split_paired_all prod.case,
          rule answers_bindE [OF answers_tryE(1)], rule answers_bindE [OF answers_tryE(2)],
          rule answers_bindE [OF cleanup], rule answers_returnE, simp)
  qed
qed

lemma put_body_answers: "answers (put_body cd st req a h b) (\<lambda>(r, b'). body_suffix b' b)"
proof (rule put_body_leaves)
  show "answers (streamPutBody i b) (\<lambda>(e, data, b'). body_suffix (if e = None then b' else drainBody b') b)" for i
    by (rule answers_mono [OF streamPutBody_answers]) (auto simp: body_suffix_drain)
qed (simp add: body_suffix_drain)

lemma skipWhitespace_suffix: "skipWhitespace inp fin = Inr rest \<Longrightarrow> suffix rest inp"
  by (induction inp fin rule: skipWhitespace.induct) (auto split: if_splits intro: suffix_ConsI)

lemma bodyReader_suffix:
  "bodyReader inp fin sz = Inl (e, rest) \<Longrightarrow> suffix rest inp"
  "bodyReader inp fin sz = Inr (StringBody r) \<Longrightarrow> suffix (rd_input r) inp"
  by (auto simp: bodyReader_def newJSONStringReader_def split: if_splits sum.splits list.splits
      dest!: skipWhitespace_suffix intro: suffix_ConsD)

lemma put_answers: "answers (put cd st req inp fin) (\<lambda>(r, rest). suffix rest inp)"
proof -
  have "answers (bindE (put_body cd st req a h b) (\<lambda>(r, b'). returnE (r, body_rest inp b'))) (\<lambda>(r, rest). suffix rest inp)"
    if "bodyReader inp fin sz = Inr b" for a h b sz
  proof (rule answers_bindE [OF put_body_answers], clarify)
    fix r b' assume "body_suffix b' b"
    with bodyReader_suffix(2) [of inp fin sz] that
    show "answers (returnE (r, body_rest inp b')) (\<lambda>(r, rest). suffix rest inp)"
      by (cases b; cases b') (auto simp: body_suffix_def body_rest_def intro!: answers_returnE intro: suffix_order.trans)
  qed
  then show ?thesis
    unfolding put_def by (auto split: sum.splits intro!: answers_returnE dest: bodyReader_suffix(1))
qed


section \<open>Answering\<close>

text \<open>\<open>handle\<close>: an error becomes the response's \<open>Err\<close>; a put leaves the stream behind its body.\<close>

definition answer :: "request \<Rightarrow> err + response \<Rightarrow> response" where
  "answer req r = (case r of Inr res \<Rightarrow> res | Inl e \<Rightarrow> no_response\<lparr>rs_ID := rq_ID req, rs_Err := Some e\<rparr>)"

definition handle :: "codec \<Rightarrow> store \<Rightarrow> request \<Rightarrow> bytes \<Rightarrow> err \<Rightarrow> (response \<times> bytes) io" where
  "handle cd st req inp fin =
     (case rq_Command req of
        CmdPut \<Rightarrow> bindE (put cd st req inp fin) (\<lambda>(r, rest). returnE (answer req r, rest))
      | CmdGet \<Rightarrow> bindE (tryE (get cd st req)) (\<lambda>r. returnE (answer req r, inp))
      | CmdClose \<Rightarrow> returnE (no_response\<lparr>rs_ID := rq_ID req\<rparr>, inp)
      | UnknownCommand c \<Rightarrow> returnE (answer req (Inl (Msg (''unknown command '' @ c))), inp))"

text \<open>\<open>bufio.Reader.ReadBytes\<close> of a line, and \<open>readRequest\<close>, which skips blank lines.\<close>

definition read_line :: "bytes \<Rightarrow> err \<Rightarrow> bytes \<times> err option \<times> bytes" where
  "read_line inp fin =
     (let l = takeWhile (\<lambda>c. c \<noteq> CHR 10) inp
      in if length l < length inp then (l @ [CHR 10], None, drop (Suc (length l)) inp) else (inp, Some fin, []))"

function readRequest :: "(bytes \<Rightarrow> err + request) \<Rightarrow> bytes \<Rightarrow> err \<Rightarrow> (err + request) \<times> bytes" where
  "readRequest dec inp fin =
     (case read_line inp fin of (line, e, rest) \<Rightarrow>
        if trim_space line = [] then (case e of Some x \<Rightarrow> (Inl x, rest) | None \<Rightarrow> readRequest dec rest fin)
        else
          (case dec (trim_space line) of
             Inl x \<Rightarrow> Inl x
           | Inr req \<Rightarrow> (case e of None \<Rightarrow> Inr req | Some x \<Rightarrow> if errors_is ErrEOF x then Inr req else Inl x), rest))"
  by pat_completeness auto
termination
  by (relation "measure (\<lambda>(dec, inp, fin). length inp)") (auto simp: read_line_def Let_def split: if_splits)

declare readRequest.simps [simp del]

lemma read_line_suffix: "read_line inp fin = (line, e, rest) \<Longrightarrow> suffix rest inp \<and> (inp \<noteq> [] \<longrightarrow> length rest < length inp)"
  by (auto simp: read_line_def Let_def suffix_drop split: if_splits)

lemma readRequest_suffix:
  "readRequest dec inp fin = (r, rest) \<Longrightarrow> suffix rest inp \<and> (\<forall>req. r = Inr req \<longrightarrow> length rest < length inp)"
proof (induction dec inp fin rule: readRequest.induct)
  case (1 dec inp fin)
  obtain line e rest1 where l: "read_line inp fin = (line, e, rest1)" by (metis prod_cases3)
  note s1 = read_line_suffix [OF l]
  have ne: "inp \<noteq> []" if "trim_space line \<noteq> []" using that l by (auto simp: read_line_def Let_def)
  show ?case
  proof (cases "trim_space line = [] \<and> e = None")
    case True
    with l 1(2) have "readRequest dec rest1 fin = (r, rest)" by (simp add: readRequest.simps [of dec inp])
    from 1(1) [OF l [symmetric] _ _ _ this] True s1 show ?thesis
      by (auto intro: suffix_order.trans dest: suffix_length_le)
  next
    case False
    with l 1(2) s1 ne show ?thesis by (auto simp: readRequest.simps [of dec inp] split: option.splits if_splits)
  qed
qed

text \<open>A line that ends in a newline and is not blank is one request.\<close>

definition trims :: "bytes \<Rightarrow> bytes \<Rightarrow> bool" where
  "trims l t \<longleftrightarrow> CHR 10 \<notin> set l \<and> trim_space (l @ [CHR 10]) = t \<and> t \<noteq> []"

lemma readRequest_line:
  assumes "trims l t"
  shows "readRequest dec (l @ CHR 10 # rest) fin = (dec t, rest)"
proof -
  have "read_line (l @ CHR 10 # rest) fin = (l @ [CHR 10], None, rest)"
    using assms by (simp add: trims_def read_line_def Let_def takeWhile_append)
  with assms show ?thesis by (simp add: readRequest.simps trims_def split: sum.split)
qed

lemma put_ID: "yields (put cd st req inp fin) (\<lambda>(r, rest). \<forall>res. r = Inr res \<longrightarrow> rs_ID res = rq_ID req)"
proof -
  have fin: "yields (put_finish cd st req a h fs e d) (\<lambda>res. rs_ID res = rq_ID req)" for a h fs e d
    unfolding put_finish_def put_record_def
    by (cases fs, simp only: prod.case)
      (auto intro!: yields_bindE yields_if yields_returnE yields_failE split: option.splits)
  have body: "yields (put_body cd st req a h b) (\<lambda>(r, b'). \<forall>res. r = Inr res \<longrightarrow> rs_ID res = rq_ID req)" for a h b
  proof -
    have "rs_ID res = rq_ID req"
      if "put_body cd st req a h b w = (Inr (Inr res, b'), w')" for w res b' w'
    proof -
      from that obtain op w1 where op: "tryE (put_open st h) w = (Inr op, w1)"
        and rest: "(case op of Inl e \<Rightarrow> returnE (Inl e, drainBody b)
          | Inr (bodyPath, bodyFile, blobTmpPath, blobTmp) \<Rightarrow>
              bindE (streamPutBody bodyFile b) (\<lambda>(copyErr, data, b').
              bindE (tryE (put_finish cd st req a h (bodyPath, bodyFile, blobTmpPath, blobTmp) copyErr data)) (\<lambda>r.
              bindE (ignoreE (os_remove blobTmpPath)) (\<lambda>_.
              bindE (case r of Inl e \<Rightarrow> ignoreE (os_remove bodyPath) | Inr _ \<Rightarrow> returnE ()) (\<lambda>_.
              returnE (r, if copyErr = None then b' else drainBody b')))))) w1 = (Inr (Inr res, b'), w')"
        unfolding put_body_def bindE_eq_Inr by blast
      obtain p i q j where "op = Inr (p, i, q, j)" using rest by (cases op) auto
      note rest = rest [unfolded this sum.case prod.case]
      from rest obtain e d b1 w2 where
        "bindE (tryE (put_finish cd st req a h (p, i, q, j) e d)) (\<lambda>r.
              bindE (ignoreE (os_remove q)) (\<lambda>_.
              bindE (case r of Inl e \<Rightarrow> ignoreE (os_remove p) | Inr _ \<Rightarrow> returnE ()) (\<lambda>_.
              returnE (r, if e = None then b1 else drainBody b1)))) w2 = (Inr (Inr res, b'), w')"
        unfolding bindE_eq_Inr [of "streamPutBody i b"] by auto
      then obtain w3 where "put_finish cd st req a h (p, i, q, j) e d w2 = (Inr res, w3)"
        by (cases "put_finish cd st req a h (p, i, q, j) e d w2") (auto simp: bindE_eq_Inr tryE_eq)
      with fin show ?thesis unfolding yields_def by blast
    qed
    then show ?thesis unfolding yields_def by auto
  qed
  have "rs_ID res = rq_ID req" if "put cd st req inp fin w = (Inr (Inr res, rest), w')" for w res rest w'
    using that body by (auto simp: put_def bindE_eq_Inr yields_def split: sum.splits) blast+
  then show ?thesis unfolding yields_def by auto
qed

lemma get_ID: "yields (get cd st req) (\<lambda>res. rs_ID res = rq_ID req)"
  unfolding get_def missed_def
  by (auto intro!: yields_bindE yields_if yields_returnE yields_failE split: sum.splits option.splits)

lemma handle_answers: "answers (handle cd st req inp fin) (\<lambda>(res, rest). rs_ID res = rq_ID req \<and> suffix rest inp)"
proof (cases "rq_Command req")
  case CmdPut
  have "\<exists>res rest w'. handle cd st req inp fin w = (Inr (res, rest), w') \<and> rs_ID res = rq_ID req \<and> suffix rest inp" for w
  proof -
    obtain r rest w' where p: "put cd st req inp fin w = (Inr (r, rest), w')" "suffix rest inp"
      using put_answers [of cd st req inp fin] unfolding answers_def by fast
    with put_ID [of cd st req inp fin] have "\<forall>res. r = Inr res \<longrightarrow> rs_ID res = rq_ID req" unfolding yields_def by fast
    then have "rs_ID (answer req r) = rq_ID req" by (simp add: answer_def split: sum.split)
    with p show ?thesis by (simp add: handle_def CmdPut bindE_def)
  qed
  then show ?thesis unfolding answers_def by fastforce
next
  case CmdGet
  have "rs_ID (answer req r) = rq_ID req" if "get cd st req w = (r, w')" for r w w'
    using get_ID [of cd st req] that unfolding yields_def by (auto simp: answer_def split: sum.split)
  then show ?thesis by (auto simp: answers_def handle_def CmdGet bindE_def tryE_eq) (metis prod.collapse)
qed (simp_all add: answers_def handle_def answer_def)

section \<open>A put and the stream\<close>

lemma copy_put_decoding:
  "copy_put i buf data d w = (Inr (e, buf', data', d'), w') \<Longrightarrow> decoding rest d \<Longrightarrow>
    on_string rest (dec_raw d') \<and> (e = None \<longrightarrow> rd_input (dec_raw d') = rest)"
proof (induction i buf data d w rule: copy_put.induct)
  case (1 i buf data d w)
  obtain out x d1 where read: "dec_read d = (out, x, d1)" by (metis prod_cases3)
  obtain b w1 where wr: "buf_write i buf out w = (b, w1)" by (cases "buf_write i buf out w")
  note d1 = dec_read_decoding [OF 1(3) read]
  show ?case
  proof (cases "\<exists>b1. b = Inr b1 \<and> x = None")
    case True
    then obtain b1 where b: "b = Inr b1" "x = None" by blast
    with 1(2) read wr have "copy_put i b1 (data @ out) d1 w1 = (Inr (e, buf', data', d'), w')"
      by (simp add: copy_put.simps [of i buf data d])
    from "1.IH" [OF read [symmetric] _ wr [symmetric] b this] d1 show ?thesis by simp
  next
    case False
    with 1(2) read wr d1 show ?thesis
      by (cases b; cases x) (auto simp: copy_put.simps [of i buf data d] decoding_def split: if_splits)
  qed
qed

text \<open>What a copy leaves of a string body: at its end when nothing failed, else somewhere in it.\<close>

definition left_body :: "bytes \<Rightarrow> err option \<Rightarrow> body \<Rightarrow> bool" where
  "left_body rest e b \<longleftrightarrow>
     (\<exists>r. b = StringBody r \<and> on_string rest r \<and> (e = None \<longrightarrow> rd_input r = rest))"

lemma left_body_rest: "left_body rest e b \<Longrightarrow> body_rest inp (if e = None then b else drainBody b) = rest"
  by (auto simp: left_body_def body_rest_def drainBody_def drain_raw_rest)

lemma streamPutBody_left:
  assumes on: "on_string rest r"
  shows "answers (streamPutBody i (StringBody r)) (\<lambda>(e, data, b'). left_body rest e b')"
proof -
  let ?d = "\<lparr>dec_buf = [], dec_readErr = None, dec_raw = r\<rparr>"
  have d: "decoding rest ?d" using on by (simp add: decoding_def)
  have copy: "answers (copy_put i [] [] ?d) (\<lambda>(e, buf, data, d'). left_body rest e (StringBody (dec_raw d')))"
    by (rule answers_runs [OF copy_put_answers]) (use copy_put_decoding [OF _ d] in \<open>force simp: left_body_def\<close>)
  have copied: "answers (copy_body_put i (StringBody r)) (\<lambda>(e, buf, data, b'). left_body rest e b')"
    unfolding copy_body_put_def body.case
    by (rule answers_bindE [OF copy], simp only: split_paired_all prod.case, rule answers_returnE, simp)
  have stored: "answers (case e of
      Some x \<Rightarrow> returnE (Some (Wrap ''read put body'' [x]), data, b')
    | None \<Rightarrow> bindE (tryE (if buf = [] then returnE () else file_write i buf)) (\<lambda>r. case r of
        Inl x \<Rightarrow> returnE (Some (Wrap ''write live file'' [x]), data, b') | Inr _ \<Rightarrow> returnE (None, data, b')))
    (\<lambda>(e, data, b'). left_body rest e b')" if "left_body rest e b'" for e buf data b'
    using that by (cases e) (auto intro!: answers_bindE [OF answers_tryE(1)] answers_returnE split: sum.splits simp: left_body_def)
  show ?thesis
    unfolding streamPutBody_def by (rule answers_bindE [OF copied]) (simp only: split_paired_all prod.case, rule stored)
qed

text \<open>
  C16. A put does not desynchronise the stream. For a put with both identifiers, whatever effect
  fails and whether or not it succeeds, it is answered and the next request is read right behind
  its body: at once when the body is empty, and behind the closing quote of the string when
  there is one, whatever text without quote or backslash the string holds, valid base64 or
  not, and also when the copy stopped in the middle because a write failed. (A put without an
  identifier is refused before its body is read.)
\<close>

theorem put_resync:
  assumes ids: "rq_ActionID req \<noteq> []" "rq_OutputID req \<noteq> []"
    and sent: "rq_BodySize req = 0 \<and> inp = rest \<or>
      0 < rq_BodySize req \<and> inp = ws @ CHR 34 # t @ CHR 34 # rest \<and>
      set ws \<subseteq> {CHR 32, CHR 10, CHR 13, CHR 9} \<and> CHR 34 \<notin> set t \<and> CHR 92 \<notin> set t"
  shows "\<exists>r w'. put cd st req inp fin w = (Inr (r, rest), w')"
proof -
  have "\<exists>b. bodyReader inp fin (rq_BodySize req) = Inr b \<and>
      (\<forall>a h. answers (put_body cd st req a h b) (\<lambda>(r, b'). body_rest inp b' = rest))"
    using sent
  proof (elim disjE conjE)
    assume "rq_BodySize req = 0" "inp = rest"
    then have read: "bodyReader inp fin (rq_BodySize req) = Inr EmptyBody" by (simp add: bodyReader_def)
    have "answers (put_body cd st req a h EmptyBody) (\<lambda>(r, b'). body_rest inp b' = rest)" for a h
      by (rule put_body_leaves)
        (simp_all add: drainBody_def body_rest_def \<open>inp = rest\<close> streamPutBody_def copy_body_put_def answers_def bindE_def tryE_def)
    with read show ?thesis by blast
  next
    let ?r = "\<lparr>rd_input = t @ CHR 34 # rest, rd_end = fin, rd_pending = [], rd_done = False\<rparr>"
    assume *: "0 < rq_BodySize req" "inp = ws @ CHR 34 # t @ CHR 34 # rest"
      "set ws \<subseteq> {CHR 32, CHR 10, CHR 13, CHR 9}" "CHR 34 \<notin> set t" "CHR 92 \<notin> set t"
    have read: "bodyReader inp fin (rq_BodySize req) = Inr (StringBody ?r)"
      unfolding *(2) by (rule bodyReader_string [OF *(1,3)])
    have on: "on_string rest ?r"
      using new_reader_on_string [of t rest fin] *(4,5) by (auto simp: on_string_def plain_text_def)
    have "answers (put_body cd st req a h (StringBody ?r)) (\<lambda>(r, b'). body_rest inp b' = rest)" for a h
    proof (rule put_body_leaves)
      show "body_rest inp (drainBody (StringBody ?r)) = rest" by (simp add: drainBody_def body_rest_def drain_raw_rest [OF on])
      show "answers (streamPutBody i (StringBody ?r)) (\<lambda>(e, data, b'). body_rest inp (if e = None then b' else drainBody b') = rest)" for i
        by (rule answers_mono [OF streamPutBody_left [OF on]]) (use left_body_rest in \<open>force\<close>)
    qed
    with read show ?thesis by blast
  qed
  then obtain b where b: "bodyReader inp fin (rq_BodySize req) = Inr b"
    and body: "answers (put_body cd st req (hex_encode (rq_ActionID req)) (hex_encode (rq_OutputID req)) b)
      (\<lambda>(r, b'). body_rest inp b' = rest)" by blast
  from body obtain r b' w' where "put_body cd st req (hex_encode (rq_ActionID req)) (hex_encode (rq_OutputID req)) b w = (Inr (r, b'), w')"
    "body_rest inp b' = rest" unfolding answers_def by fast
  with ids b show ?thesis by (simp add: put_def idHex_def bindE_def)
qed

theorem put_resync_witness:
  "\<exists>r w'. put plain_codec sample_store hello_put (''  '' @ CHR 34 # ''not base64!'' @ CHR 34 # ''{}'') ErrEOF
      (calm_world\<lparr>fault := \<lambda>n. if n = 9 then Some \<lparr>flt_code = 3, flt_text = ''ENOSPC'', flt_applied = False\<rparr> else None\<rparr>) =
    (Inr (r, ''{}''), w')"
  by (rule put_resync [of _ _ _ "''  ''" "''not base64!''"]) (simp_all add: hello_put_def)

end
