(* ===== verification/Serving.thy ===== *)
theory Serving
  imports Protocol "HOL-Library.Multiset"
begin

text \<open>
  The loop of \<open>run\<close> (\<open>protocol.go\<close>) as a step relation: the main goroutine reads and dispatches
  requests, a goroutine per get answers it. One step reads a request, answers one get in
  flight, answers a request in line, or ends the loop. What was accepted and what was answered,
  with the world at that moment, is kept as history variables, which no step reads.
\<close>

section \<open>Writing responses\<close>

text \<open>\<open>responseWriter\<close>: the first encoding error sticks. \<open>enc n\<close> is the outcome of the \<open>n\<close>-th \<open>Encode\<close>.\<close>

record responseWriter =
  rw_sent :: "response list"
  rw_calls :: nat
  rw_firstErr :: "err option"

definition rw_write :: "(nat \<Rightarrow> err option) \<Rightarrow> response \<Rightarrow> responseWriter \<Rightarrow> err option \<times> responseWriter" where
  "rw_write enc res rw =
     (case rw_firstErr rw of
        Some e \<Rightarrow> (Some e, rw)
      | None \<Rightarrow>
          (case enc (rw_calls rw) of
             Some e \<Rightarrow> (Some e, rw\<lparr>rw_calls := Suc (rw_calls rw), rw_firstErr := Some e\<rparr>)
           | None \<Rightarrow> (None, rw\<lparr>rw_calls := Suc (rw_calls rw), rw_sent := rw_sent rw @ [res]\<rparr>)))"

lemma rw_write_firstErr: "rw_write enc res rw = (e, rw') \<Longrightarrow> e = rw_firstErr rw'"
  by (auto simp: rw_write_def split: option.splits)

lemma rw_write_None:
  "rw_write enc res rw = (e, rw') \<Longrightarrow> rw_firstErr rw' = None \<Longrightarrow> rw_firstErr rw = None \<and> rw_sent rw' = rw_sent rw @ [res]"
  by (auto simp: rw_write_def split: option.splits)

definition handshake :: response where
  "handshake = no_response\<lparr>rs_KnownCommands := [CmdGet, CmdPut, CmdClose]\<rparr>"

section \<open>The state of the loop\<close>

datatype phase = Reading | Closing request | Waiting | Failing err | Finished "err option"

record connection =
  cn_codec :: codec
  cn_store :: store
  cn_decode :: "bytes \<Rightarrow> err + request"
  cn_end :: err
  cn_encode :: "nat \<Rightarrow> err option"
  cn_slots :: nat

record serving =
  sv_input :: bytes
  sv_phase :: phase
  sv_flight :: "request list"
  sv_writer :: responseWriter
  sv_world :: world
  sv_closed :: bool
  sv_accepted :: "request list"
  sv_answered :: "(request \<times> response \<times> world) list"

definition maxConcurrency :: "nat \<Rightarrow> nat" where
  "maxConcurrency gomaxprocs = min (max gomaxprocs 1) 8"

text \<open>The handshake is written before the store is opened.\<close>

definition begin_serving ::
  "config \<Rightarrow> nat \<Rightarrow> codec \<Rightarrow> (bytes \<Rightarrow> err + request) \<Rightarrow> err \<Rightarrow> (nat \<Rightarrow> err option) \<Rightarrow> bytes \<Rightarrow>
    (connection \<times> serving) io" where
  "begin_serving c procs cd dec fin enc inp =
     (case rw_write enc handshake \<lparr>rw_sent = [], rw_calls = 0, rw_firstErr = None\<rparr> of
        (Some e, _) \<Rightarrow> failE e
      | (None, rw) \<Rightarrow>
          bindE (newStore c) (\<lambda>st w. (Inr
            (\<lparr>cn_codec = cd, cn_store = st, cn_decode = dec, cn_end = fin, cn_encode = enc, cn_slots = maxConcurrency procs\<rparr>,
             \<lparr>sv_input = inp, sv_phase = Reading, sv_flight = [], sv_writer = rw, sv_world = w, sv_closed = False,
              sv_accepted = [], sv_answered = []\<rparr>), w)))"

definition fresh_serving :: "connection \<Rightarrow> serving \<Rightarrow> bool" where
  "fresh_serving cn s \<longleftrightarrow> sv_phase s = Reading \<and> sv_flight s = [] \<and> \<not> sv_closed s \<and> sv_accepted s = [] \<and>
     sv_answered s = [] \<and> rw_sent (sv_writer s) = [handshake] \<and> rw_firstErr (sv_writer s) = None \<and> 0 < cn_slots cn"

lemma begin_serving_fresh: "begin_serving c procs cd dec fin enc inp w = (Inr (cn, s), w') \<Longrightarrow> fresh_serving cn s"
  by (auto simp: begin_serving_def rw_write_def fresh_serving_def maxConcurrency_def bindE_eq_Inr split: option.splits)

section \<open>Steps\<close>

definition accept :: "request \<Rightarrow> bytes \<Rightarrow> serving \<Rightarrow> serving" where
  "accept req rest s = s\<lparr>sv_input := rest, sv_accepted := sv_accepted s @ [req]\<rparr>"

definition reply :: "connection \<Rightarrow> request \<Rightarrow> response \<Rightarrow> world \<Rightarrow> serving \<Rightarrow> serving" where
  "reply cn req res w s = s\<lparr>sv_writer := snd (rw_write (cn_encode cn) res (sv_writer s)), sv_world := w,
     sv_answered := sv_answered s @ [(req, res, w)]\<rparr>"

abbreviation write_error :: "serving \<Rightarrow> err option" where
  "write_error s \<equiv> rw_firstErr (sv_writer s)"

definition received :: "connection \<Rightarrow> serving \<Rightarrow> (err + request) \<times> bytes" where
  "received cn s = readRequest (cn_decode cn) (sv_input s) (cn_end cn)"

definition stream_over :: "err \<Rightarrow> bool" where
  "stream_over e \<longleftrightarrow> errors_is ErrEOF e \<or> errors_is ErrClosed e"

text \<open>
  After a failed write the loop returns at once, with gets possibly in flight; every other way
  out waits for them first. The deferred \<open>closeStore\<close> then runs, once.
\<close>

inductive serve_step :: "connection \<Rightarrow> serving \<Rightarrow> serving \<Rightarrow> bool" for cn :: connection where
  accept_get: "serve_step cn s ((accept req rest s)\<lparr>sv_flight := sv_flight s @ [req]\<rparr>)"
    if "sv_phase s = Reading" "received cn s = (Inr req, rest)" "rq_Command req = CmdGet"
      "length (sv_flight s) < cn_slots cn"
| finish_get: "serve_step cn s ((reply cn req res w s)\<lparr>sv_flight := gs @ hs\<rparr>)"
    if "\<not> sv_closed s" "sv_flight s = gs @ req # hs"
      "handle (cn_codec cn) (cn_store cn) req [] (cn_end cn) (sv_world s) = (Inr (res, left), w)"
| serve_other: "serve_step cn s (t\<lparr>sv_input := rest', sv_phase := (case write_error t of None \<Rightarrow> Reading | e \<Rightarrow> Finished e)\<rparr>)"
    if "sv_phase s = Reading" "received cn s = (Inr req, rest)" "rq_Command req \<noteq> CmdGet" "rq_Command req \<noteq> CmdClose"
      "handle (cn_codec cn) (cn_store cn) req rest (cn_end cn) (sv_world s) = (Inr (res, rest'), w)"
      "t = reply cn req res w (accept req rest s)"
| accept_close: "serve_step cn s ((accept req rest s)\<lparr>sv_phase := Closing req\<rparr>)"
    if "sv_phase s = Reading" "received cn s = (Inr req, rest)" "rq_Command req = CmdClose"
| answer_close: "serve_step cn s (t\<lparr>sv_phase := Finished (write_error t)\<rparr>)"
    if "sv_phase s = Closing req" "sv_flight s = []"
      "handle (cn_codec cn) (cn_store cn) req [] (cn_end cn) (sv_world s) = (Inr (res, left), w)"
      "t = reply cn req res w s"
| end_of_input: "serve_step cn s (s\<lparr>sv_input := rest, sv_phase := Waiting\<rparr>)"
    if "sv_phase s = Reading" "received cn s = (Inl e, rest)" "stream_over e"
| bad_input: "serve_step cn s (s\<lparr>sv_input := rest, sv_phase := Failing e\<rparr>)"
    if "sv_phase s = Reading" "received cn s = (Inl e, rest)" "\<not> stream_over e"
| ended: "serve_step cn s (s\<lparr>sv_phase := Finished (write_error s)\<rparr>)"
    if "sv_phase s = Waiting" "sv_flight s = []"
| failed: "serve_step cn s (s\<lparr>sv_phase := Finished (Some e)\<rparr>)"
    if "sv_phase s = Failing e" "sv_flight s = []"
| shut: "serve_step cn s (s\<lparr>sv_closed := True, sv_world := snd (close (cn_store cn) (sv_world s))\<rparr>)"
    if "sv_phase s = Finished r" "\<not> sv_closed s"

abbreviation serves :: "connection \<Rightarrow> serving \<Rightarrow> serving \<Rightarrow> bool" where
  "serves cn \<equiv> (serve_step cn)\<^sup>*\<^sup>*"

named_theorems serving_simps

lemmas serving_defs [serving_simps] = accept_def reply_def

lemma received_suffix:
  "received cn s = (r, rest) \<Longrightarrow> suffix rest (sv_input s) \<and> (\<forall>req. r = Inr req \<longrightarrow> length rest < length (sv_input s))"
  unfolding received_def by (rule readRequest_suffix)

lemma received_le: "received cn s = (r, rest) \<Longrightarrow> length rest \<le> length (sv_input s)"
  using received_suffix suffix_length_le by blast

lemma handled:
  assumes "handle cd st req inp fin w = (Inr (res, rest), w')"
  shows "rs_ID res = rq_ID req" "suffix rest inp" "length rest \<le> length inp"
  using handle_answers [of cd st req inp fin] assms unfolding answers_def
  by (auto dest!: spec [of _ w] intro: suffix_length_le)

lemma handle_total: "\<exists>res rest w'. handle cd st req inp fin w = (Inr (res, rest), w')"
  using handle_answers [of cd st req inp fin] unfolding answers_def by fast

section \<open>The loop ends\<close>

fun phase_rank :: "phase \<Rightarrow> nat" where
  "phase_rank Reading = 2"
| "phase_rank (Finished _) = 0"
| "phase_rank _ = 1"

definition remaining :: "serving \<Rightarrow> nat" where
  "remaining s = 2 * length (sv_input s) + length (sv_flight s) + phase_rank (sv_phase s) + (if sv_closed s then 0 else 1)"

lemma step_remaining: "serve_step cn s t \<Longrightarrow> remaining t < remaining s"
proof (induction rule: serve_step.induct)
  case (serve_other s req rest res rest' w t)
  then have "length rest' < length (sv_input s)"
    using handled(3) [OF serve_other(5)] received_suffix [of cn s] by force
  with serve_other show ?case by (auto simp: remaining_def serving_simps split: option.splits)
qed (auto simp: remaining_def serving_simps dest: received_suffix received_le)

lemma steps_remaining: "(serve_step cn ^^ n) s t \<Longrightarrow> n + remaining t \<le> remaining s"
proof (induction n arbitrary: t)
  case (Suc n)
  then obtain u where "(serve_step cn ^^ n) s u" "serve_step cn u t" by auto
  with Suc.IH step_remaining [of cn u t] show ?case by fastforce
qed simp

lemma step_or_closed: "0 < cn_slots cn \<Longrightarrow> \<not> sv_closed s \<Longrightarrow> \<exists>t. serve_step cn s t"
proof (cases "sv_flight s = []")
  case False
  assume "\<not> sv_closed s"
  with False show ?thesis
    using handle_total by (metis append_Nil list.exhaust serve_step.finish_get)
next
  case True
  assume "0 < cn_slots cn" "\<not> sv_closed s"
  show ?thesis
  proof (cases "sv_phase s")
    case Reading
    obtain r rest where r: "received cn s = (r, rest)" by fastforce
    show ?thesis
    proof (cases r)
      case (Inl e)
      with Reading r show ?thesis by (cases "stream_over e") (blast intro: serve_step.intros)+
    next
      case (Inr req)
      with Reading r True \<open>0 < cn_slots cn\<close> show ?thesis
        using handle_total by (cases "rq_Command req") (metis command.distinct list.size(3) serve_step.intros(1,3,4))+
    qed
  next
    case (Closing req)
    with True handle_total show ?thesis by (metis serve_step.answer_close)
  qed (use True \<open>\<not> sv_closed s\<close> in \<open>blast intro: serve_step.intros\<close>)+
qed

section \<open>What is accepted, in flight and answered\<close>

definition in_order :: "request \<Rightarrow> bool" where
  "in_order req \<longleftrightarrow> rq_Command req \<noteq> CmdGet"

fun pending :: "phase \<Rightarrow> request list" where
  "pending (Closing req) = [req]"
| "pending _ = []"

definition answered_requests :: "serving \<Rightarrow> request list" where
  "answered_requests s = map fst (sv_answered s)"

definition accounted :: "serving \<Rightarrow> bool" where
  "accounted s \<longleftrightarrow>
     mset (sv_accepted s) = mset (answered_requests s) + mset (sv_flight s) + mset (pending (sv_phase s)) \<and>
     filter in_order (sv_accepted s) = filter in_order (answered_requests s @ pending (sv_phase s)) \<and>
     (\<forall>req\<in>set (sv_flight s). \<not> in_order req) \<and>
     (\<forall>(req, res, w)\<in>set (sv_answered s). rs_ID res = rq_ID req)"

definition written :: "serving \<Rightarrow> bool" where
  "written s \<longleftrightarrow> (write_error s = None \<longrightarrow> rw_sent (sv_writer s) = handshake # map (fst \<circ> snd) (sv_answered s)) \<and>
     (\<forall>r. sv_phase s = Finished r \<longrightarrow> r = None \<longrightarrow> write_error s = None \<and> sv_flight s = []) \<and>
     (\<forall>r. sv_phase s = Finished r \<longrightarrow> sv_flight s \<noteq> [] \<longrightarrow> write_error s \<noteq> None)"

definition closing :: "serving \<Rightarrow> bool" where
  "closing s \<longleftrightarrow> (\<forall>req. sv_phase s = Closing req \<longrightarrow> rq_Command req = CmdClose) \<and>
     (\<forall>req\<in>set (answered_requests s). rq_Command req = CmdClose \<longrightarrow>
        (\<exists>r. sv_phase s = Finished r) \<and> sv_flight s = [] \<and> last (answered_requests s) = req)"

lemmas account_defs = accounted_def written_def closing_def in_order_def answered_requests_def

lemma reply_simps [serving_simps]:
  "write_error (reply cn req res w s) =
     (case write_error s of None \<Rightarrow> cn_encode cn (rw_calls (sv_writer s)) | Some e \<Rightarrow> Some e)"
  "write_error s = None \<Longrightarrow> cn_encode cn (rw_calls (sv_writer s)) = None \<Longrightarrow>
     rw_sent (sv_writer (reply cn req res w s)) = rw_sent (sv_writer s) @ [res]"
  by (auto simp: reply_def rw_write_def split: option.splits)

lemma reply_fields [simp]:
  "sv_input (reply cn req res w s) = sv_input s" "sv_phase (reply cn req res w s) = sv_phase s"
  "sv_flight (reply cn req res w s) = sv_flight s" "sv_world (reply cn req res w s) = w"
  "sv_closed (reply cn req res w s) = sv_closed s" "sv_accepted (reply cn req res w s) = sv_accepted s"
  "sv_answered (reply cn req res w s) = sv_answered s @ [(req, res, w)]"
  by (simp_all add: reply_def)

lemma accept_fields [simp]:
  "sv_input (accept req rest s) = rest" "sv_phase (accept req rest s) = sv_phase s"
  "sv_flight (accept req rest s) = sv_flight s" "sv_world (accept req rest s) = sv_world s"
  "sv_closed (accept req rest s) = sv_closed s" "sv_accepted (accept req rest s) = sv_accepted s @ [req]"
  "sv_answered (accept req rest s) = sv_answered s" "sv_writer (accept req rest s) = sv_writer s"
  by (simp_all add: accept_def)

lemma step_accounted: "serve_step cn s t \<Longrightarrow> accounted s \<Longrightarrow> accounted t"
proof (induction rule: serve_step.induct)
  case (finish_get s gs req hs res left w)
  from handled(1) [OF finish_get(3)] finish_get show ?case by (auto simp: account_defs)
next
  case (serve_other s req rest res rest' w t)
  from handled(1) [OF serve_other(5)] serve_other show ?case by (auto simp: account_defs split: option.splits)
next
  case (answer_close s req res left w t)
  from handled(1) [OF answer_close(3)] answer_close show ?case by (auto simp: account_defs)
qed (auto simp: account_defs)

lemma step_written: "serve_step cn s t \<Longrightarrow> written s \<Longrightarrow> written t"
proof (induction rule: serve_step.induct)
  case (serve_other s req rest res rest' w t)
  then show ?case by (auto simp: account_defs serving_simps(3,4) split: option.splits)
qed (auto simp: account_defs serving_simps(3,4) split: option.splits)

lemma step_closing: "serve_step cn s t \<Longrightarrow> accounted s \<Longrightarrow> closing s \<Longrightarrow> closing t"
proof (induction rule: serve_step.induct)
  case (serve_other s req rest res rest' w t)
  then show ?case by (auto simp: account_defs split: option.splits)
qed (auto simp: account_defs)

lemma serves_accounts: "serves cn s t \<Longrightarrow> fresh_serving cn s \<Longrightarrow> accounted t \<and> written t \<and> closing t"
proof (induction rule: rtranclp_induct)
  case base
  then show ?case by (simp add: fresh_serving_def account_defs)
next
  case (step t u)
  then show ?case by (simp add: step_accounted step_written step_closing)
qed

lemma step_flight: "serve_step cn s t \<Longrightarrow> length (sv_flight s) \<le> cn_slots cn \<Longrightarrow> length (sv_flight t) \<le> cn_slots cn"
  by (induction rule: serve_step.induct) auto

section \<open>What the answers hold\<close>

definition honest_body :: "connection \<Rightarrow> (bytes \<Rightarrow> bytes) \<Rightarrow> request \<Rightarrow> bytes \<Rightarrow> bool" where
  "honest_body cn C req inp \<longleftrightarrow> (\<forall>b data b'. bodyReader inp (cn_end cn) (rq_BodySize req) = Inr b \<longrightarrow>
     copy_body b = (data, None, b') \<longrightarrow> int (length data) = rq_BodySize req \<longrightarrow> data = C (rq_OutputID req))"

text \<open>Every put this run reaches is followed by the content its OutputID stands for, or by no whole body.\<close>

definition honest :: "connection \<Rightarrow> (bytes \<Rightarrow> bytes) \<Rightarrow> serving \<Rightarrow> bool" where
  "honest cn C s \<longleftrightarrow> (\<forall>t req rest. serves cn s t \<longrightarrow> received cn t = (Inr req, rest) \<longrightarrow>
     rq_Command req = CmdPut \<longrightarrow> honest_body cn C req rest)"

fun answer_holds :: "(bytes \<Rightarrow> bytes) \<Rightarrow> request \<times> response \<times> world \<Rightarrow> bool" where
  "answer_holds C (req, res, w) \<longleftrightarrow> rs_Err res = None \<longrightarrow>
     (rq_Command req = CmdPut \<longrightarrow> file_data w (rs_DiskPath res) = Some (C (rq_OutputID req))) \<and>
     (rq_Command req = CmdGet \<longrightarrow> \<not> rs_Miss res \<longrightarrow> file_data w (rs_DiskPath res) = Some (C (rs_OutputID res)))"

lemma handle_sound:
  assumes l: "layout (cn_store cn)" and cd: "\<And>x. decompress (cn_codec cn) (compress (cn_codec cn) x) = (x, None)"
    and s: "sound (cn_codec cn) C (cn_store cn) w"
    and body: "rq_Command req = CmdPut \<Longrightarrow> honest_body cn C req inp"
    and run: "handle (cn_codec cn) (cn_store cn) req inp (cn_end cn) w = (Inr (res, rest), w')"
  shows "sound (cn_codec cn) C (cn_store cn) w' \<and> answer_holds C (req, res, w')"
proof (cases "rq_Command req")
  case CmdPut
  with run obtain r where p: "put (cn_codec cn) (cn_store cn) req inp (cn_end cn) w = (Inr (r, rest), w')" "res = answer req r"
    by (auto simp: handle_def bindE_eq_Inr)
  have h: "honest_body cn C req inp" by (rule body [OF CmdPut])
  from put_sound [OF l cd s h [unfolded honest_body_def, rule_format] p(1)] p(2) CmdPut
  show ?thesis by (auto simp: answer_def split: sum.splits)
next
  case CmdGet
  with run obtain r where g: "get (cn_codec cn) (cn_store cn) req w = (r, w')" "res = answer req r"
    by (cases "get (cn_codec cn) (cn_store cn) req w") (auto simp: handle_def bindE_eq_Inr tryE_eq)
  from get_sound [OF l s g(1)] g(2) CmdGet show ?thesis by (auto simp: answer_def split: sum.splits)
qed (use run s in \<open>auto simp: handle_def\<close>)

definition serving_sound :: "connection \<Rightarrow> (bytes \<Rightarrow> bytes) \<Rightarrow> serving \<Rightarrow> bool" where
  "serving_sound cn C s \<longleftrightarrow> (\<not> sv_closed s \<longrightarrow> sound (cn_codec cn) C (cn_store cn) (sv_world s)) \<and>
     (sv_closed s \<longrightarrow> (\<exists>r. sv_phase s = Finished r)) \<and> list_all (answer_holds C) (sv_answered s) \<and>
     (\<forall>req\<in>set (sv_flight s @ pending (sv_phase s)). rq_Command req \<noteq> CmdPut)"

lemma step_serving_sound:
  assumes l: "layout (cn_store cn)" and cd: "\<And>x. decompress (cn_codec cn) (compress (cn_codec cn) x) = (x, None)"
  shows "serve_step cn s t \<Longrightarrow> serving_sound cn C s \<Longrightarrow>
    (\<And>req rest. received cn s = (Inr req, rest) \<Longrightarrow> rq_Command req = CmdPut \<Longrightarrow> honest_body cn C req rest) \<Longrightarrow>
    serving_sound cn C t"
proof (induction rule: serve_step.induct)
  case (finish_get s gs req hs res left w)
  then show ?case using handle_sound [OF l cd _ _ finish_get(3)] by (auto simp: serving_sound_def)
next
  case (serve_other s req rest res rest' w t)
  then have "sound (cn_codec cn) C (cn_store cn) w \<and> answer_holds C (req, res, w)"
    by (intro handle_sound [OF l cd _ _ serve_other(5)]) (auto simp: serving_sound_def)
  with serve_other show ?case by (auto simp: serving_sound_def split: option.splits)
next
  case (answer_close s req res left w t)
  then have "sound (cn_codec cn) C (cn_store cn) w \<and> answer_holds C (req, res, w)"
    by (intro handle_sound [OF l cd _ _ answer_close(3)]) (auto simp: serving_sound_def)
  with answer_close show ?case by (auto simp: serving_sound_def)
qed (auto simp: serving_sound_def)

lemma serves_serving_sound:
  assumes l: "layout (cn_store cn)" and cd: "\<And>x. decompress (cn_codec cn) (compress (cn_codec cn) x) = (x, None)"
    and h: "honest cn C s" and s: "serving_sound cn C s"
  shows "serves cn s t \<Longrightarrow> serving_sound cn C t"
proof (induction rule: rtranclp_induct)
  case (step t u)
  from step(1) h have "honest_body cn C req rest" if "received cn t = (Inr req, rest)" "rq_Command req = CmdPut" for req rest
    using that unfolding honest_def by blast
  from step_serving_sound [OF l cd step(2,3) this] show ?case by blast
qed (rule s)

section \<open>What the loop guarantees\<close>

text \<open>
  C24. Every request the loop accepts is answered exactly once. When serving ends without an error
  the client has been sent the handshake and then one response per accepted request, each with
  its request's ID; requests other than gets were answered in the order they came, and a close is
  answered after everything else.
\<close>

theorem every_request_answered:
  assumes "fresh_serving cn s" "serves cn s t" "sv_phase t = Finished None"
  shows "rw_sent (sv_writer t) = handshake # map (fst \<circ> snd) (sv_answered t) \<and>
    list_all (\<lambda>(req, res, w). rs_ID res = rq_ID req) (sv_answered t) \<and>
    mset (answered_requests t) = mset (sv_accepted t) \<and>
    filter in_order (answered_requests t) = filter in_order (sv_accepted t) \<and>
    list_all (\<lambda>req. rq_Command req = CmdClose \<longrightarrow> req = last (answered_requests t)) (sv_accepted t)"
proof -
  from serves_accounts [OF assms(2,1)] have a: "accounted t" "written t" "closing t" by simp_all
  then have "mset (answered_requests t) = mset (sv_accepted t)" using assms(3) by (simp add: accounted_def written_def)
  moreover from this have "set (answered_requests t) = set (sv_accepted t)" by (metis set_mset_mset)
  ultimately show ?thesis using a assms(3) by (auto simp: account_defs list_all_iff)
qed

text \<open>
  C25. The loop always ends. A run that has read nothing yet takes at most two steps per byte of the
  input and three more, and a run that has not closed the store can always take another step: no
  input, decoding or fault makes the helper hang or spin.
\<close>

theorem serving_ends:
  assumes "fresh_serving cn s" "(serve_step cn ^^ n) s t"
  shows "n \<le> 2 * length (sv_input s) + 3 \<and> (sv_closed t \<or> (\<exists>u. serve_step cn t u))"
proof
  from assms(1) have "remaining s = 2 * length (sv_input s) + 3" by (simp add: fresh_serving_def remaining_def)
  with steps_remaining [OF assms(2)] show "n \<le> 2 * length (sv_input s) + 3" by simp
  show "sv_closed t \<or> (\<exists>u. serve_step cn t u)"
    using assms(1) step_or_closed [of cn t] by (auto simp: fresh_serving_def)
qed

text \<open>
  C26. No more gets run at once than there are slots, one per catalog connection, and the loop
  is over with a get still in flight only when writing a response had failed before.
\<close>

theorem gets_bounded_and_awaited:
  assumes "fresh_serving cn s" "serves cn s t"
  shows "length (sv_flight t) \<le> cn_slots cn \<and>
    ((\<exists>r. sv_phase t = Finished r) \<and> write_error t = None \<longrightarrow> sv_flight t = [])"
proof
  from assms(2,1) show "length (sv_flight t) \<le> cn_slots cn"
  proof (induction rule: rtranclp_induct)
    case base
    then show ?case by (simp add: fresh_serving_def)
  next
    case (step t u)
    then show ?case using step_flight by blast
  qed
  from serves_accounts [OF assms(2,1)] show "(\<exists>r. sv_phase t = Finished r) \<and> write_error t = None \<longrightarrow> sv_flight t = []"
    by (auto simp: written_def)
qed

text \<open>
  C27. Over a whole connection no client is ever pointed at a wrong file. Start from a sound store
  and let every put that arrives whole carry the content its OutputID stands for: then whatever
  effects fail and however gets interleave, at the moment each response without an error was
  given, the path in a put's answer held that output's content, and the path in a hit held the
  content of the output the hit names.
\<close>

theorem connection_serves_content:
  assumes "layout (cn_store cn)" "\<And>x. decompress (cn_codec cn) (compress (cn_codec cn) x) = (x, None)"
    "fresh_serving cn s" "sound (cn_codec cn) C (cn_store cn) (sv_world s)" "honest cn C s" "serves cn s t"
  shows "list_all (answer_holds C) (sv_answered t)"
proof -
  from assms(3,4) have "serving_sound cn C s" by (simp add: fresh_serving_def serving_sound_def)
  from serves_serving_sound [OF assms(1,2,5) this assms(6)] show ?thesis by (simp add: serving_sound_def)
qed

section \<open>A connection\<close>

definition demo_line :: "bytes \<Rightarrow> err + request" where
  "demo_line l = (if l = ''put'' then Inr hello_put
     else if l = ''get'' then Inr (hello_put\<lparr>rq_ID := 2, rq_Command := CmdGet\<rparr>)
     else if l = ''close'' then Inr (hello_put\<lparr>rq_ID := 3, rq_Command := CmdClose\<rparr>) else Inl (Msg ''invalid character''))"

definition demo_connection :: "(nat \<Rightarrow> err option) \<Rightarrow> connection" where
  "demo_connection enc = \<lparr>cn_codec = plain_codec, cn_store = sample_store, cn_decode = demo_line, cn_end = ErrEOF,
     cn_encode = enc, cn_slots = maxConcurrency 4\<rparr>"

definition demo_serving :: "bytes \<Rightarrow> serving" where
  "demo_serving inp = \<lparr>sv_input = inp, sv_phase = Reading, sv_flight = [],
     sv_writer = \<lparr>rw_sent = [handshake], rw_calls = 1, rw_firstErr = None\<rparr>, sv_world = calm_world, sv_closed = False,
     sv_accepted = [], sv_answered = []\<rparr>"

lemma demo_fresh: "fresh_serving (demo_connection enc) (demo_serving inp)"
  by (simp add: fresh_serving_def demo_connection_def demo_serving_def maxConcurrency_def)

definition get_close :: bytes where
  "get_close = ''get'' @ CHR 10 # ''close'' @ [CHR 10]"

definition hello_body :: bytes where
  "hello_body = CHR 34 # b64_encode ''hello'' @ [CHR 34]"

definition get_put :: bytes where
  "get_put = ''get'' @ CHR 10 # ''put'' @ CHR 10 # hello_body"

lemma hello_encoded: "b64_encode ''hello'' = ''aGVsbG8=''"
  by (simp add: digits4_def join3_def b64_digit_def byte_val_def mk_byte_def char_of_def bit_numeral_rec bit_Suc_0_iff)

lemma trims_demo: "trims ''get'' ''get''" "trims ''put'' ''put''" "trims ''close'' ''close''"
  by code_simp+

lemma received_get_close:
  "readRequest demo_line get_close ErrEOF = (Inr (hello_put\<lparr>rq_ID := 2, rq_Command := CmdGet\<rparr>), ''close'' @ [CHR 10])"
  "readRequest demo_line (''close'' @ [CHR 10]) ErrEOF = (Inr (hello_put\<lparr>rq_ID := 3, rq_Command := CmdClose\<rparr>), [])"
  by (simp_all only: get_close_def readRequest_line [OF trims_demo(1)] readRequest_line [OF trims_demo(3), where rest = "[]"])
    (simp_all add: demo_line_def)

lemma received_get_put:
  "readRequest demo_line get_put ErrEOF = (Inr (hello_put\<lparr>rq_ID := 2, rq_Command := CmdGet\<rparr>), ''put'' @ CHR 10 # hello_body)"
  "readRequest demo_line (''put'' @ CHR 10 # hello_body) ErrEOF = (Inr hello_put, hello_body)"
  by (simp_all only: get_put_def readRequest_line [OF trims_demo(1)] readRequest_line [OF trims_demo(2)])
    (simp_all add: demo_line_def)


definition only_hello :: "bytes \<Rightarrow> bool" where
  "only_hello i = (case readRequest demo_line i ErrEOF of
     (Inr req, rest) \<Rightarrow> rq_Command req = CmdPut \<longrightarrow> req = hello_put \<and> rest = CHR 34 # ''aGVsbG8='' @ [CHR 34]
   | _ \<Rightarrow> True)"

lemma puts_of_get_put: "list_all only_hello (suffixes (''get'' @ CHR 10 # ''put'' @ CHR 10 # CHR 34 # ''aGVsbG8='' @ [CHR 34]))"
  by code_simp

lemma suffix_only_hello: "suffix i get_put \<Longrightarrow> only_hello i"
  using puts_of_get_put
  unfolding get_put_def hello_body_def hello_encoded list_all_iff by (metis in_set_suffixes)

lemma serves_step: "serve_step cn s t \<Longrightarrow> serves cn t u \<Longrightarrow> serves cn s u"
  by (rule converse_rtranclp_into_rtranclp)

lemma serves_one: "serve_step cn s t \<Longrightarrow> serves cn s t"
  by (rule r_into_rtranclp)

lemma received_demo: "received (demo_connection enc) s = readRequest demo_line (sv_input s) ErrEOF"
  by (simp add: received_def demo_connection_def)

lemma demo_get:
  assumes "sv_phase s = Reading" "sv_input s = inp" "sv_flight s = []"
    "readRequest demo_line inp ErrEOF = (Inr req, rest)" "rq_Command req = CmdGet"
  shows "serve_step (demo_connection enc) s ((accept req rest s)\<lparr>sv_flight := [req]\<rparr>)"
  using serve_step.accept_get [of s "demo_connection enc" req rest] assms
  by (simp add: received_demo, simp add: demo_connection_def maxConcurrency_def)

lemma demo_run:
  obtains t where "serves (demo_connection (\<lambda>_. None)) (demo_serving get_close) t" "sv_phase t = Finished None"
    "length (sv_answered t) = 2"
proof -
  let ?cn = "demo_connection (\<lambda>_. None)" and ?s = "demo_serving get_close"
  let ?g = "hello_put\<lparr>rq_ID := 2, rq_Command := CmdGet\<rparr>" and ?c = "hello_put\<lparr>rq_ID := 3, rq_Command := CmdClose\<rparr>"
  define s1 where "s1 = (accept ?g (''close'' @ [CHR 10]) ?s)\<lparr>sv_flight := [?g]\<rparr>"
  have 1: "serve_step ?cn ?s s1"
    unfolding s1_def by (rule demo_get [OF _ _ _ received_get_close(1)]) (simp_all add: demo_serving_def)
  obtain res left w where h: "handle (cn_codec ?cn) (cn_store ?cn) ?g [] (cn_end ?cn) (sv_world s1) = (Inr (res, left), w)"
    using handle_total by blast
  define s2 where "s2 = (reply ?cn ?g res w s1)\<lparr>sv_flight := [] @ []\<rparr>"
  have 2: "serve_step ?cn s1 s2"
    unfolding s2_def by (rule serve_step.finish_get [OF _ _ h]) (simp_all add: s1_def demo_serving_def)
  define s3 where "s3 = (accept ?c [] s2)\<lparr>sv_phase := Closing ?c\<rparr>"
  have 3: "serve_step ?cn s2 s3"
    unfolding s3_def
    by (rule serve_step.accept_close) (use received_get_close(2) in \<open>simp_all add: received_demo s2_def s1_def demo_serving_def\<close>)
  obtain res' left' w' where h': "handle (cn_codec ?cn) (cn_store ?cn) ?c [] (cn_end ?cn) (sv_world s3) = (Inr (res', left'), w')"
    using handle_total by blast
  define s4 where "s4 = reply ?cn ?c res' w' s3"
  have 4: "serve_step ?cn s3 (s4\<lparr>sv_phase := Finished (write_error s4)\<rparr>)"
    by (rule serve_step.answer_close [OF _ _ h' s4_def]) (simp_all add: s3_def s2_def)
  have ok: "write_error s4 = None" "length (sv_answered s4) = 2"
    by (simp_all add: s4_def s3_def s2_def s1_def serving_simps(3) demo_connection_def demo_serving_def)
  have "serves ?cn ?s (s4\<lparr>sv_phase := Finished (write_error s4)\<rparr>)"
    by (rule serves_step [OF 1 serves_step [OF 2 serves_step [OF 3 serves_one [OF 4]]]])
  with ok that show thesis by simp
qed

theorem every_request_answered_witness:
  "\<exists>t. serves (demo_connection (\<lambda>_. None)) (demo_serving get_close) t \<and> length (sv_answered t) = 2 \<and>
     mset (answered_requests t) = mset (sv_accepted t)"
proof -
  obtain t where t: "serves (demo_connection (\<lambda>_. None)) (demo_serving get_close) t" "sv_phase t = Finished None"
    "length (sv_answered t) = 2"
    by (rule demo_run)
  from every_request_answered [OF demo_fresh t(1,2)] t show ?thesis by blast
qed

theorem serving_ends_witness:
  "\<exists>t. serve_step (demo_connection (\<lambda>_. None)) (demo_serving get_close) t \<and>
     (sv_closed t \<or> (\<exists>u. serve_step (demo_connection (\<lambda>_. None)) t u)) \<and> 1 \<le> 2 * length get_close + 3"
proof -
  obtain t where t: "serve_step (demo_connection (\<lambda>_. None)) (demo_serving get_close) t"
    using demo_get [of "demo_serving get_close" get_close] received_get_close(1) by (fastforce simp: demo_serving_def)
  then have "(serve_step (demo_connection (\<lambda>_. None)) ^^ 1) (demo_serving get_close) t"
    by (simp add: relcompp_apply)
  from serving_ends [OF demo_fresh this] t show ?thesis by (auto simp: demo_serving_def)
qed

theorem gets_bounded_and_awaited_witness:
  "\<exists>t. serves (demo_connection (\<lambda>_. None)) (demo_serving get_close) t \<and> length (sv_answered t) = 2 \<and> length (sv_flight t) \<le> 4"
proof -
  obtain t where t: "serves (demo_connection (\<lambda>_. None)) (demo_serving get_close) t" "length (sv_answered t) = 2"
    by (rule demo_run)
  from gets_bounded_and_awaited [OF demo_fresh t(1)] t show ?thesis
    by (auto simp: demo_connection_def maxConcurrency_def)
qed

lemma reading_suffix: "serves cn s t \<Longrightarrow> suffix (sv_input t) (sv_input s)"
proof (induction rule: rtranclp_induct)
  case (step t u)
  from step(2) have "suffix (sv_input u) (sv_input t)"
  proof (induction rule: serve_step.induct)
    case (serve_other s req rest res rest' w t)
    from handled(2) [OF serve_other(5)] received_suffix [OF serve_other(2)] serve_other show ?case
      by (auto intro: suffix_order.trans)
  qed (auto dest: received_suffix)
  from this step(3) show ?case by (rule suffix_order.trans)
qed simp

lemma demo_honest: "honest (demo_connection enc) (\<lambda>_. ''hello'') (demo_serving get_put)"
  unfolding honest_def
proof (intro allI impI)
  fix t req rest
  assume t: "serves (demo_connection enc) (demo_serving get_put) t"
    and r: "received (demo_connection enc) t = (Inr req, rest)" "rq_Command req = CmdPut"
  from reading_suffix [OF t] have "only_hello (sv_input t)" by (intro suffix_only_hello) (simp add: demo_serving_def)
  with r have q: "req = hello_put" "rest = hello_body"
    by (simp_all add: only_hello_def hello_body_def hello_encoded received_demo del: b64_encode.simps)
  have "data = ''hello''" if "bodyReader hello_body ErrEOF (rq_BodySize hello_put) = Inr b" "copy_body b = (data, None, b')"
    for b data b'
    using that bodyReader_string [of 5 "[]" "b64_encode ''hello'' @ [CHR 34]" ErrEOF] copy_encoded [of "''hello''" "[]" ErrEOF]
    by (auto simp: hello_put_def hello_body_def)
  then show "honest_body (demo_connection enc) (\<lambda>_. ''hello'') req rest"
    unfolding q honest_body_def by (auto simp: demo_connection_def)
qed

lemma demo_get_put:
  obtains t where "serves (demo_connection enc) (demo_serving get_put) t" "sv_flight t \<noteq> []" "sv_answered t \<noteq> []"
    "sv_phase t = (case enc 1 of None \<Rightarrow> Reading | e \<Rightarrow> Finished e)" "\<not> sv_closed t"
proof -
  let ?cn = "demo_connection enc" and ?s = "demo_serving get_put"
  let ?g = "hello_put\<lparr>rq_ID := 2, rq_Command := CmdGet\<rparr>"
  define s1 where "s1 = (accept ?g (''put'' @ CHR 10 # hello_body) ?s)\<lparr>sv_flight := [?g]\<rparr>"
  have 1: "serve_step ?cn ?s s1"
    unfolding s1_def by (rule demo_get [OF _ _ _ received_get_put(1)]) (simp_all add: demo_serving_def)
  obtain res rest' w where h: "handle (cn_codec ?cn) (cn_store ?cn) hello_put hello_body (cn_end ?cn) (sv_world s1) = (Inr (res, rest'), w)"
    using handle_total by blast
  define s2 where "s2 = reply ?cn hello_put res w (accept hello_put hello_body s1)"
  have 2: "serve_step ?cn s1 (s2\<lparr>sv_input := rest', sv_phase := (case write_error s2 of None \<Rightarrow> Reading | e \<Rightarrow> Finished e)\<rparr>)"
    by (rule serve_step.serve_other [OF _ _ _ _ h s2_def])
      (use received_get_put(2) in \<open>simp_all add: received_demo s1_def demo_serving_def hello_put_def\<close>)
  have f: "write_error s2 = enc 1" "sv_flight s2 \<noteq> []" "sv_answered s2 \<noteq> []" "\<not> sv_closed s2"
    by (simp_all add: s2_def s1_def serving_simps(3) demo_connection_def demo_serving_def)
  show thesis
    by (rule that [OF serves_step [OF 1 serves_one [OF 2]]]) (simp_all add: f)
qed

theorem connection_serves_content_witness:
  "\<exists>t. serves (demo_connection (\<lambda>_. None)) (demo_serving get_put) t \<and> sv_answered t \<noteq> [] \<and>
     list_all (answer_holds (\<lambda>_. ''hello'')) (sv_answered t)"
proof -
  obtain t where t: "serves (demo_connection (\<lambda>_. None)) (demo_serving get_put) t" "sv_answered t \<noteq> []"
    by (rule demo_get_put)
  have "list_all (answer_holds (\<lambda>_. ''hello'')) (sv_answered t)"
    by (rule connection_serves_content [OF _ _ demo_fresh _ demo_honest t(1)])
      (simp_all add: demo_connection_def demo_serving_def layout_sample plain_codec_def sound_calm_world [unfolded plain_codec_def])
  with t show ?thesis by blast
qed

text \<open>
  C28. A failed write closes the store under the gets in flight. Whenever the loop serves a put and
  the answer cannot be written, because this write fails or an earlier one did, the loop is over
  with that error, whatever gets are still being answered, and the next step closes the store: the
  run directory they are materializing into is stripped while they work.
\<close>

theorem failed_write_closes_under_get:
  assumes at: "sv_phase s = Reading" "\<not> sv_closed s"
    and got: "received cn s = (Inr req, rest)" "rq_Command req = CmdPut"
    and fails: "write_error s = Some e \<or>
      write_error s = None \<and> cn_encode cn (rw_calls (sv_writer s)) = Some e"
  shows "\<exists>res rest' w t u.
    handle (cn_codec cn) (cn_store cn) req rest (cn_end cn) (sv_world s) = (Inr (res, rest'), w) \<and>
    serve_step cn s t \<and> sv_phase t = Finished (Some e) \<and> \<not> sv_closed t \<and>
    serve_step cn t u \<and> sv_closed u \<and> sv_world u = snd (close (cn_store cn) w) \<and> sv_flight u = sv_flight s"
proof -
  obtain res rest' w where h: "handle (cn_codec cn) (cn_store cn) req rest (cn_end cn) (sv_world s) = (Inr (res, rest'), w)"
    using handle_total by blast
  define r where "r = reply cn req res w (accept req rest s)"
  have err: "write_error r = Some e"
    using fails by (auto simp: r_def serving_simps rw_write_def split: option.splits)
  let ?t = "r\<lparr>sv_input := rest', sv_phase := (case write_error r of None \<Rightarrow> Reading | e \<Rightarrow> Finished e)\<rparr>"
  have step: "serve_step cn s ?t"
    by (rule serve_step.serve_other [OF at(1) got(1) _ _ h r_def]) (simp_all add: got(2))
  have t: "sv_phase ?t = Finished (Some e)" "\<not> sv_closed ?t" "sv_flight ?t = sv_flight s" "sv_world ?t = w"
    using at(2) by (simp_all add: err, simp_all add: r_def serving_simps)
  let ?u = "?t\<lparr>sv_closed := True, sv_world := snd (close (cn_store cn) (sv_world ?t))\<rparr>"
  have "serve_step cn ?t ?u" by (rule serve_step.shut [OF t(1,2)])
  moreover have "sv_closed ?u" "sv_world ?u = snd (close (cn_store cn) w)" "sv_flight ?u = sv_flight s"
    using t(3,4) by simp_all
  ultimately show ?thesis using h step t(1,2) by blast
qed

theorem failed_write_closes_under_get_witness:
  "\<exists>s u. serves (demo_connection (\<lambda>n. if n = 1 then Some (SysErr ''EPIPE'') else None)) (demo_serving get_put) s \<and>
     serves (demo_connection (\<lambda>n. if n = 1 then Some (SysErr ''EPIPE'') else None)) s u \<and>
     sv_closed u \<and> length (sv_flight u) = 1"
proof -
  let ?cn = "demo_connection (\<lambda>n. if n = 1 then Some (SysErr ''EPIPE'') else None)"
  let ?g = "hello_put\<lparr>rq_ID := 2, rq_Command := CmdGet\<rparr>"
  define s1 where "s1 = (accept ?g (''put'' @ CHR 10 # hello_body) (demo_serving get_put))\<lparr>sv_flight := [?g]\<rparr>"
  have 1: "serve_step ?cn (demo_serving get_put) s1"
    unfolding s1_def by (rule demo_get [OF _ _ _ received_get_put(1)]) (simp_all add: demo_serving_def)
  have at: "sv_phase s1 = Reading" "\<not> sv_closed s1" "sv_flight s1 = [?g]"
    by (simp_all add: s1_def serving_simps demo_serving_def)
  have got: "received ?cn s1 = (Inr hello_put, hello_body)"
    unfolding received_demo using received_get_put(2) by (simp add: s1_def serving_simps)
  have "cn_encode ?cn (rw_calls (sv_writer s1)) = Some (SysErr ''EPIPE'')" "write_error s1 = None"
    by (simp_all add: s1_def serving_simps demo_serving_def demo_connection_def)
  with failed_write_closes_under_get [OF at(1,2) got, of "SysErr ''EPIPE''"] obtain t u where
    "serve_step ?cn s1 t" "serve_step ?cn t u" "sv_closed u" "sv_flight u = sv_flight s1"
    by (auto simp: hello_put_def)
  with 1 at(3) show ?thesis by (intro exI [of _ s1] exI [of _ u]) (auto intro: serves_step serves_one)
qed

end
