(* ===== verification/Numbers.thy ===== *)
theory Numbers
  imports Go_Bytes Complex_Main
begin

text \<open>
  Numbers as text (\<open>util.go\<close>): the sizes and ages of the settings and the sizes \<open>status\<close>
  prints. Go's \<open>float64\<close> is modelled by its rational value, rounded to nearest even;
  \<open>strconv.ParseFloat\<close> and \<open>time.ParseDuration\<close> are written out. Converting a float that no
  \<open>int64\<close> holds is left to the machine by the Go specification, so it is an argument.
\<close>

section \<open>\<open>float64\<close>\<close>

datatype float64 = Fin rat | PInf | NInf | NaN

function bit_count :: "int \<Rightarrow> nat" where
  "bit_count n = (if n \<le> 0 then 0 else Suc (bit_count (n div 2)))"
  by pat_completeness auto
termination
  by (relation "measure nat") auto

declare bit_count.simps [simp del]

definition pow2 :: "int \<Rightarrow> rat" where
  "pow2 e = (if 0 \<le> e then 2 ^ nat e else 1 / 2 ^ nat (- e))"

text \<open>The exponent of the leading bit of a positive rational.\<close>

definition ilog2 :: "rat \<Rightarrow> int" where
  "ilog2 q = (case quotient_of q of (n, d) \<Rightarrow>
     let k = int (bit_count n) - int (bit_count d) in if pow2 k \<le> q then k else k - 1)"

definition round_even :: "rat \<Rightarrow> int" where
  "round_even q = (let f = \<lfloor>q\<rfloor>; r = q - of_int f in
     if r < 1 / 2 then f else if 1 / 2 < r then f + 1 else if even f then f else f + 1)"

definition f64_round :: "rat \<Rightarrow> float64" where
  "f64_round q = (if q = 0 then Fin 0
     else let e = max (ilog2 \<bar>q\<bar> - 52) (- 1074); r = of_int (round_even (\<bar>q\<bar> / pow2 e)) * pow2 e in
       if 2 ^ 1024 \<le> r then (if q < 0 then NInf else PInf) else Fin (sgn q * r))"

text \<open>Multiplication by a positive finite float.\<close>

definition f64_scale :: "float64 \<Rightarrow> rat \<Rightarrow> float64" where
  "f64_scale x m = (case x of Fin q \<Rightarrow> f64_round (q * m) | _ \<Rightarrow> x)"

definition f64_less0 :: "float64 \<Rightarrow> bool" where
  "f64_less0 x = (case x of Fin q \<Rightarrow> q < 0 | NInf \<Rightarrow> True | _ \<Rightarrow> False)"

definition trunc :: "rat \<Rightarrow> int" where
  "trunc q = (if 0 \<le> q then \<lfloor>q\<rfloor> else \<lceil>q\<rceil>)"

definition f64_to_i64 :: "(float64 \<Rightarrow> int) \<Rightarrow> float64 \<Rightarrow> int" where
  "f64_to_i64 oor x = (case x of Fin q \<Rightarrow> if in_i64 (trunc q) then trunc q else oor x | _ \<Rightarrow> oor x)"

section \<open>Digits\<close>

definition is_digit :: "byte \<Rightarrow> bool" where
  "is_digit c \<longleftrightarrow> 48 \<le> byte_val c \<and> byte_val c \<le> 57"

definition lower_char :: "byte \<Rightarrow> byte" where
  "lower_char c = (if 65 \<le> byte_val c \<and> byte_val c \<le> 90 then mk_byte (byte_val c + 32) else c)"

definition is_hex_digit :: "byte \<Rightarrow> bool" where
  "is_hex_digit c \<longleftrightarrow> is_digit c \<or> (97 \<le> byte_val (lower_char c) \<and> byte_val (lower_char c) \<le> 102)"

definition digit_val :: "byte \<Rightarrow> int" where
  "digit_val c = (if is_digit c then int (byte_val c) - 48 else int (byte_val (lower_char c)) - 87)"

definition digits_val :: "int \<Rightarrow> bytes \<Rightarrow> int" where
  "digits_val b ds = foldl (\<lambda>n c. n * b + digit_val c) 0 ds"

text \<open>\<open>%d\<close> of a number that is not negative.\<close>

function itoa :: "int \<Rightarrow> string" where
  "itoa n = (if n < 10 then [mk_byte (48 + nat n)] else itoa (n div 10) @ [mk_byte (48 + nat (n mod 10))])"
  by pat_completeness auto
termination
  by (relation "measure nat") auto

declare itoa.simps [simp del]

section \<open>\<open>strconv.ParseFloat\<close>\<close>

definition cut_sign :: "bytes \<Rightarrow> bool \<times> bytes" where
  "cut_sign s = (case s of [] \<Rightarrow> (False, s)
     | c # r \<Rightarrow> if c = CHR ''-'' then (True, r) else if c = CHR ''+'' then (False, r) else (False, s))"

definition float_special :: "bytes \<Rightarrow> float64 option" where
  "float_special s = (case cut_sign s of (neg, r) \<Rightarrow>
     if map lower_char r \<in> {''inf'', ''infinity''} then Some (if neg then NInf else PInf)
     else if map lower_char s = ''nan'' then Some NaN else None)"

definition span :: "(byte \<Rightarrow> bool) \<Rightarrow> bytes \<Rightarrow> bytes \<times> bytes" where
  "span p s = (takeWhile p s, dropWhile p s)"

text \<open>An underscore stands between two digits, or after the base prefix.\<close>

fun underscores_between :: "(byte \<Rightarrow> bool) \<Rightarrow> bool \<Rightarrow> bytes \<Rightarrow> bool" where
  "underscores_between dig after_digit [] = True"
| "underscores_between dig after_digit (c # s) =
     (if c = CHR ''_'' then after_digit \<and> (case s of d # _ \<Rightarrow> dig d | [] \<Rightarrow> False) \<and> underscores_between dig False s
      else underscores_between dig (dig c) s)"

definition cut_hex :: "bytes \<Rightarrow> bool \<times> bytes" where
  "cut_hex s = (case s of a # b # c # r \<Rightarrow> if a = CHR ''0'' \<and> lower_char b = CHR ''x'' then (True, c # r) else (False, s)
     | _ \<Rightarrow> (False, s))"

definition capped_exponent :: "bytes \<Rightarrow> int" where
  "capped_exponent ds = foldl (\<lambda>e c. if e < 10000 then e * 10 + digit_val c else e) 0 ds"

text \<open>The exponent after the mantissa: \<open>None\<close> is a syntax error.\<close>

definition read_exponent :: "bool \<Rightarrow> bytes \<Rightarrow> int option" where
  "read_exponent hex s = (case s of
     [] \<Rightarrow> if hex then None else Some 0
   | c # r \<Rightarrow>
       if lower_char c \<noteq> (if hex then CHR ''p'' else CHR ''e'') then None
       else (case cut_sign r of (neg, r') \<Rightarrow>
         (case r' of [] \<Rightarrow> None
          | d # _ \<Rightarrow> if is_digit d \<and> list_all (\<lambda>x. is_digit x \<or> x = CHR ''_'') r'
              then (let e = capped_exponent (filter is_digit r') in Some (if neg then - e else e)) else None)))"

definition ParseFloat :: "bytes \<Rightarrow> err + float64" where
  "ParseFloat s =
     (case float_special s of Some x \<Rightarrow> Inr x | None \<Rightarrow>
     (case cut_sign s of (neg, s1) \<Rightarrow>
     (case cut_hex s1 of (hex, s2) \<Rightarrow>
     let dig = (if hex then is_hex_digit else is_digit); num = (\<lambda>c. dig c \<or> c = CHR ''_'') in
     (case span num s2 of (ip, s3) \<Rightarrow>
     (case (case s3 of c # r \<Rightarrow> if c = CHR ''.'' then span num r else ([], s3) | [] \<Rightarrow> ([], s3)) of (fp, s4) \<Rightarrow>
     let is = filter dig ip; fs = filter dig fp in
     if is = [] \<and> fs = [] then Inl (Msg ''invalid syntax'')
     else (case read_exponent hex s4 of None \<Rightarrow> Inl (Msg ''invalid syntax'')
       | Some e \<Rightarrow>
           if CHR ''_'' \<in> set s1 \<and> \<not> underscores_between dig hex s2 then Inl (Msg ''invalid syntax'')
           else
             let b = (if hex then 16 else 10);
                 q = of_int (digits_val b (is @ fs)) / of_int (b ^ length fs) *
                     (if hex then pow2 e else if 0 \<le> e then 10 ^ nat e else 1 / 10 ^ nat (- e))
             in (case f64_round (if neg then - q else q) of Fin x \<Rightarrow> Inr (Fin x) | _ \<Rightarrow> Inl (Msg ''value out of range''))))))))"

section \<open>\<open>time.ParseDuration\<close>\<close>

definition two63 :: int where "two63 = 9223372036854775808"

text \<open>\<open>leadingInt\<close>: \<open>None\<close> on overflow. \<open>leadingFraction\<close>: digits that would overflow are dropped.\<close>

fun leadingInt :: "int \<Rightarrow> bytes \<Rightarrow> (int \<times> bytes) option" where
  "leadingInt x [] = Some (x, [])"
| "leadingInt x (c # s) =
     (if \<not> is_digit c then Some (x, c # s)
      else if two63 div 10 < x then None
      else let y = x * 10 + digit_val c in if two63 < y then None else leadingInt y s)"

fun leadingFraction :: "int \<Rightarrow> float64 \<Rightarrow> bool \<Rightarrow> bytes \<Rightarrow> int \<times> float64 \<times> bytes" where
  "leadingFraction x scale ovf [] = (x, scale, [])"
| "leadingFraction x scale ovf (c # s) =
     (if \<not> is_digit c then (x, scale, c # s)
      else if ovf \<or> (two63 - 1) div 10 < x then leadingFraction x scale True s
      else let y = x * 10 + digit_val c in
        if two63 < y then leadingFraction x scale True s
        else leadingFraction y (f64_scale scale 10) False s)"

definition duration_unit :: "bytes \<Rightarrow> int option" where
  "duration_unit u = map_of
     [(''ns'', 1), (''us'', 1000), (CHR 0xC2 # CHR 0xB5 # ''s'', 1000), (CHR 0xCE # CHR 0xBC # ''s'', 1000),
      (''ms'', 1000000), (''s'', 1000000000), (''m'', 60000000000), (''h'', 3600000000000)] u"

text \<open>\<open>uint64(float64(f) * (float64(unit) / scale))\<close>, less than a unit and more than nothing.\<close>

definition fraction_of :: "int \<Rightarrow> float64 \<Rightarrow> int \<Rightarrow> int" where
  "fraction_of f scale u =
     (case scale of
        Fin sc \<Rightarrow>
          (case f64_round (of_int u / sc) of
             Fin r \<Rightarrow> (case f64_scale (f64_round (of_int f)) r of Fin q \<Rightarrow> trunc q | _ \<Rightarrow> 0)
           | _ \<Rightarrow> 0)
      | _ \<Rightarrow> 0)"

definition invalid_duration :: "err + 'a" where
  "invalid_duration = Inl (Msg ''time: invalid duration'')"

lemma leadingInt_le: "leadingInt x s = Some (y, r) \<Longrightarrow> length r \<le> length s"
  by (induction x s rule: leadingInt.induct) (fastforce simp: Let_def split: if_splits)+

lemma leadingFraction_le: "leadingFraction x sc ov s = (y, sc', r) \<Longrightarrow> length r \<le> length s"
  by (induction x sc ov s rule: leadingFraction.induct) (fastforce simp: Let_def split: if_splits)+

definition is_unit_char :: "byte \<Rightarrow> bool" where
  "is_unit_char c \<longleftrightarrow> c \<noteq> CHR ''.'' \<and> \<not> is_digit c"

text \<open>One component \<open>[0-9]*(.[0-9]*)?unit\<close>: its value in nanoseconds and what follows.\<close>

definition duration_part :: "bytes \<Rightarrow> err + (int \<times> bytes)" where
  "duration_part s =
     (if \<not> (hd s = CHR ''.'' \<or> is_digit (hd s)) then invalid_duration
      else case leadingInt 0 s of None \<Rightarrow> invalid_duration
      | Some (v, s1) \<Rightarrow>
          (case (case s1 of c # r \<Rightarrow> if c = CHR ''.'' then leadingFraction 0 (Fin 1) False r else (0, Fin 1, s1)
                 | [] \<Rightarrow> (0, Fin 1, s1)) of (f, scale, s2) \<Rightarrow>
           let pre = (length s \<noteq> length s1); post = (s1 \<noteq> [] \<and> hd s1 = CHR ''.'' \<and> length (tl s1) \<noteq> length s2) in
           if \<not> pre \<and> \<not> post then invalid_duration
           else (case span is_unit_char s2 of (u, s3) \<Rightarrow>
             if u = [] then Inl (Msg ''time: missing unit in duration'')
             else (case duration_unit u of None \<Rightarrow> Inl (Msg ''time: unknown unit in duration'')
               | Some n \<Rightarrow>
                   if two63 div n < v then invalid_duration
                   else let w = v * n + (if 0 < f then fraction_of f scale n else 0) in
                     if 0 < f \<and> two63 < w then invalid_duration else Inr (w, s3)))))"

lemma duration_part_less: "duration_part s = Inr (v, r) \<Longrightarrow> s \<noteq> [] \<Longrightarrow> length r < length s"
proof -
  assume p: "duration_part s = Inr (v, r)"
  then obtain x s1 f sc s2 u where "leadingInt 0 s = Some (x, s1)"
    and s2: "(case s1 of c # r \<Rightarrow> if c = CHR ''.'' then leadingFraction 0 (Fin 1) False r else (0, Fin 1, s1)
                 | [] \<Rightarrow> (0, Fin 1, s1)) = (f, sc, s2)"
    and u: "span is_unit_char s2 = (u, r)" "u \<noteq> []"
    by (auto simp: duration_part_def Let_def invalid_duration_def split: if_splits option.splits prod.splits)
  then have "length s1 \<le> length s" by (intro leadingInt_le)
  moreover have "length s2 \<le> length s1"
    using s2 by (auto split: list.splits if_splits dest: leadingFraction_le)
  moreover have "length r < length s2"
    using u by (auto simp: span_def) (metis append_Nil length_append length_greater_0_conv less_add_same_cancel2 takeWhile_dropWhile_id)
  ultimately show ?thesis by simp
qed

text \<open>The sum is a \<open>uint64\<close>.\<close>

function duration_parts :: "int \<Rightarrow> bytes \<Rightarrow> err + int" where
  "duration_parts d s =
     (if s = [] then Inr d
      else (case duration_part s of Inl e \<Rightarrow> Inl e
      | Inr (v, r) \<Rightarrow> let d' = (d + v) mod 18446744073709551616 in if two63 < d' then invalid_duration else duration_parts d' r))"
  by pat_completeness auto
termination
  by (relation "measure (\<lambda>(d, s). length s)") (auto dest: duration_part_less)

declare duration_parts.simps [simp del]

definition ParseDuration :: "bytes \<Rightarrow> err + int" where
  "ParseDuration s =
     (case cut_sign s of (neg, r) \<Rightarrow>
        if r = ''0'' then Inr 0
        else if r = [] then invalid_duration
        else (case duration_parts 0 r of Inl e \<Rightarrow> Inl e
        | Inr d \<Rightarrow>
            if neg then Inr (i64 (- i64 d))
            else if two63 - 1 < d then invalid_duration else Inr d))"

section \<open>Sizes and ages\<close>

text \<open>
  \<open>strings.ToLower\<close> as far as a table of ASCII names can tell: besides the letters, only the
  Kelvin sign and the dotted capital I become ASCII.
\<close>

fun to_lower :: "bytes \<Rightarrow> bytes" where
  "to_lower [] = []"
| "to_lower (a # s) =
     (if has_prefix (a # s) [CHR 0xE2, CHR 0x84, CHR 0xAA] then CHR ''k'' # to_lower (drop 2 s)
      else if has_prefix (a # s) [CHR 0xC4, CHR 0xB0] then CHR ''i'' # to_lower (drop 1 s)
      else lower_char a # to_lower s)"

definition sizeUnits :: "(bytes \<times> int) list" where
  "sizeUnits =
     ([], 1) # (''b'', 1) # concat (map (\<lambda>(c, k). [([c], 2 ^ k), (c # ''b'', 2 ^ k), (c # ''ib'', 2 ^ k)])
       [(CHR ''k'', 10), (CHR ''m'', 20), (CHR ''g'', 30), (CHR ''t'', 40)])"

definition is_number_char :: "byte \<Rightarrow> bool" where
  "is_number_char c \<longleftrightarrow> c \<in> {CHR ''.'', CHR ''-'', CHR ''+''} \<or> is_digit c"

definition parseSize :: "(float64 \<Rightarrow> int) \<Rightarrow> bytes \<Rightarrow> err + int" where
  "parseSize oor str =
     (let s = trim_space str in
      if s = [] then Inl (Msg ''empty size'')
      else if s = ''0'' then Inr 0
      else (case span is_number_char s of (num, rest) \<Rightarrow>
        if num = [] then Inl (Msg ''missing number'')
        else (case ParseFloat num of Inl e \<Rightarrow> Inl e
        | Inr value \<Rightarrow>
            (case map_of sizeUnits (trim_space (to_lower rest)) of None \<Rightarrow> Inl (Msg ''unknown unit'')
             | Some multiplier \<Rightarrow>
                 if f64_less0 value then Inl (Msg ''negative size'')
                 else Inr (f64_to_i64 oor (f64_scale value (of_int multiplier)))))))"

definition day_nanos :: int where "day_nanos = 24 * 3600000000000"

definition cut_suffix :: "bytes \<Rightarrow> bytes \<Rightarrow> bytes option" where
  "cut_suffix s suf = (if length suf \<le> length s \<and> drop (length s - length suf) s = suf then Some (take (length s - length suf) s) else None)"

definition parseAge :: "(float64 \<Rightarrow> int) \<Rightarrow> bytes \<Rightarrow> err + int" where
  "parseAge oor str =
     (let s = trim_space str in
      if s = [] then Inl (Msg ''empty duration'')
      else if s = ''0'' then Inr 0
      else (case (case cut_suffix s ''d'' of
              Some rest \<Rightarrow>
                (case ParseFloat rest of Inl e \<Rightarrow> Inl (Wrap ''parse duration'' [e])
                 | Inr days \<Rightarrow> Inr (f64_to_i64 oor (f64_scale days (of_int day_nanos))))
            | None \<Rightarrow> ParseDuration s) of
          Inl e \<Rightarrow> Inl e
        | Inr d \<Rightarrow> if d < 0 then Inl (Msg ''negative duration'') else Inr d))"

section \<open>Printing sizes\<close>

text \<open>\<open>%.1f\<close>: the exact value of the float rounded to one decimal, half to even.\<close>

definition fixed1 :: "rat \<Rightarrow> string" where
  "fixed1 q = (let t = round_even (10 * \<bar>q\<bar>)
     in (if q < 0 then ''-'' else []) @ itoa (t div 10) @ CHR ''.'' # itoa (t mod 10))"

definition f64_val :: "float64 \<Rightarrow> rat" where
  "f64_val x = (case x of Fin q \<Rightarrow> q | _ \<Rightarrow> 0)"

definition f64_of_int :: "int \<Rightarrow> rat" where
  "f64_of_int n = f64_val (f64_round (of_int n))"

definition f64_quot :: "int \<Rightarrow> int \<Rightarrow> rat" where
  "f64_quot a b = f64_val (f64_round (f64_of_int a / f64_of_int b))"

text \<open>The loop \<open>for n := size / unit; n >= unit; n /= unit\<close>; \<open>div\<close> is an \<open>int64\<close>.\<close>

function size_exponent :: "int \<Rightarrow> int \<Rightarrow> nat \<Rightarrow> int \<times> nat" where
  "size_exponent n d ex = (if 1024 \<le> n then size_exponent (n div 1024) (i64 (d * 1024)) (Suc ex) else (d, ex))"
  by pat_completeness auto
termination
  by (relation "measure (\<lambda>(n, d, ex). nat n)") auto

declare size_exponent.simps [simp del]

text \<open>A negative size is negated and printed again, as \<open>int64\<close>.\<close>

partial_function (option) formatSize :: "int \<Rightarrow> string option" where
  "formatSize sz =
     (if sz < 0 then
        Option.bind (formatSize (i64 (- sz))) (\<lambda>s. Some (CHR ''-'' # s))
      else if sz < 1024 then Some (itoa sz @ ''B'')
      else (case size_exponent (sz div 1024) 1024 0 of (d, ex) \<Rightarrow>
        Some (fixed1 (f64_quot sz d) @ ''KMGTPE'' ! ex # ''iB'')))"

definition formatSavingsAmount :: "int \<Rightarrow> int \<Rightarrow> string option" where
  "formatSavingsAmount uncompressed compressed =
     (if uncompressed \<le> 0 then Some ''0B'' else formatSize (i64 (uncompressed - compressed)))"

definition formatSavingsPercent :: "int \<Rightarrow> int \<Rightarrow> string" where
  "formatSavingsPercent uncompressed compressed =
     (if uncompressed \<le> 0 then ''0.0%''
      else fixed1 (f64_val (f64_scale (f64_round (f64_of_int (i64 (uncompressed - compressed)) / f64_of_int uncompressed)) 100)) @ ''%'')"

definition formatSavings :: "int \<Rightarrow> int \<Rightarrow> string option" where
  "formatSavings uncompressed compressed =
     (case formatSavingsAmount uncompressed compressed of None \<Rightarrow> None
      | Some a \<Rightarrow> Some (a @ '' ('' @ formatSavingsPercent uncompressed compressed @ '')''))"

end
