(* ===== verification/Number_Laws.thy ===== *)
theory Number_Laws
  imports Numbers
begin

text \<open>
  What the numbers of the settings mean: floats are exact on whole numbers of 53 bits times a
  power of two, so sizes and ages in days are too; which sizes can be printed.
\<close>

section \<open>Exact floats\<close>

lemma bit_count_bounds: "0 < n \<Longrightarrow> 0 < bit_count n \<and> 2 ^ (bit_count n - 1) \<le> n \<and> n < 2 ^ bit_count n"
proof (induction n rule: bit_count.induct)
  case (1 n)
  show ?case
  proof (cases "n = 1")
    case True
    then show ?thesis by (simp add: bit_count.simps [of 1] bit_count.simps [of 0])
  next
    case False
    with 1 have "0 < bit_count (n div 2) \<and> 2 ^ (bit_count (n div 2) - 1) \<le> n div 2 \<and> n div 2 < 2 ^ bit_count (n div 2)" by simp
    moreover obtain k where "bit_count (n div 2) = Suc k" using calculation by (cases "bit_count (n div 2)") auto
    moreover have "2 * p \<le> n \<and> n < 4 * p" if "p \<le> n div 2" "n div 2 < 2 * p" for p :: int using that by presburger
    ultimately show ?thesis using 1(2) by (simp add: bit_count.simps [of n])
  qed
qed

lemma pow2_int: "0 \<le> e \<Longrightarrow> pow2 e = of_int (2 ^ nat e)"
  by (simp add: pow2_def)

lemma ilog2_int:
  assumes "0 < n"
  shows "0 \<le> ilog2 (of_int n)" "2 ^ nat (ilog2 (of_int n)) \<le> n" "n < 2 ^ Suc (nat (ilog2 (of_int n)))"
proof -
  note b = bit_count_bounds [OF assms]
  have "bit_count 1 = 1" by (simp add: bit_count.simps [of 1] bit_count.simps [of 0])
  moreover have "(of_int (2 ^ (bit_count n - 1)) :: rat) \<le> of_int n" using b by (simp only: of_int_le_iff)
  ultimately have "ilog2 (of_int n) = int (bit_count n) - 1"
    using b by (simp add: ilog2_def Let_def pow2_def nat_diff_distrib)
  with b show "0 \<le> ilog2 (of_int n)" "2 ^ nat (ilog2 (of_int n)) \<le> n" "n < 2 ^ Suc (nat (ilog2 (of_int n)))"
    by (auto simp: nat_diff_distrib)
qed

lemma round_even_int [simp]: "round_even (of_int m) = m"
  by (simp add: round_even_def)

lemma f64_round_exact:
  assumes "0 \<le> k" "k < 2 ^ 53" "j \<le> 900"
  shows "f64_round (of_int (k * 2 ^ j)) = Fin (of_int (k * 2 ^ j))"
proof (cases "k = 0")
  case True
  then show ?thesis by (simp add: f64_round_def)
next
  case False
  define n where "n = k * 2 ^ j"
  with False assms have n: "0 < n" by simp
  define L where "L = ilog2 (of_int n)"
  have L: "0 \<le> L" "2 ^ nat L \<le> n" using ilog2_int [OF n] by (simp_all add: L_def)
  define e where "e = max (L - 52) (- 1074)"
  have e: "e = L - 52" using L by (simp add: e_def)
  have "n < 2 ^ (53 + j)" using assms by (simp add: n_def power_add)
  with L(2) have "(2::int) ^ nat L < 2 ^ (53 + j)" by linarith
  then have "nat L < 53 + j" by (rule power_less_imp_less_exp [rotated]) simp
  then have ej: "e \<le> int j" using e L by linarith
  have dvd: "\<exists>m. (of_int n :: rat) / pow2 e = of_int m"
  proof (cases "0 \<le> e")
    case True
    then have "n = (k * 2 ^ (j - nat e)) * 2 ^ nat e" using ej by (simp add: n_def flip: power_add)
    then have "(of_int n :: rat) / pow2 e = of_int (k * 2 ^ (j - nat e))"
      using True by (simp add: pow2_int)
    then show ?thesis by blast
  next
    case False
    then have "(of_int n :: rat) / pow2 e = of_int (n * 2 ^ nat (- e))" by (simp add: pow2_def)
    then show ?thesis by blast
  qed
  then obtain m where m: "(of_int n :: rat) / pow2 e = of_int m" by blast
  have p0: "pow2 e \<noteq> 0" by (simp add: pow2_def)
  have same: "of_int (round_even (of_int n / pow2 e)) * pow2 e = of_int n"
    unfolding m round_even_int using m p0 by (simp add: field_simps)
  have "n < 2 ^ 1024"
    using \<open>n < 2 ^ (53 + j)\<close> power_increasing [of "53 + j" 1024 "2 :: int"] assms(3) by linarith
  then have "(of_int n :: rat) < of_int (2 ^ 1024)" by (simp only: of_int_less_iff)
  then have small: "\<not> (2 ^ 1024 \<le> (of_int n :: rat))" by simp
  have "f64_round (of_int n) = Fin (of_int n)"
    using n small same unfolding f64_round_def L_def [symmetric] abs_of_pos [OF n] e_def Let_def
    by (simp add: L_def [symmetric] e_def [symmetric])
  then show ?thesis by (simp add: n_def)
qed

section \<open>Printed digits\<close>

lemma digit_range: "c \<in> set (itoa n) \<Longrightarrow> 0 \<le> n \<Longrightarrow> is_digit c"
proof (induction n rule: itoa.induct)
  case (1 n)
  show ?case
  proof (cases "n < 10")
    case True
    with 1(2,3) show ?thesis by (simp add: itoa.simps [of n] is_digit_def)
  next
    case False
    with 1 have "c \<in> set (itoa (n div 10)) \<or> c = mk_byte (48 + nat (n mod 10))" by (auto simp: itoa.simps [of n])
    with False 1 show ?thesis by (auto simp: is_digit_def nat_less_iff)
  qed
qed

lemma itoa_nonempty [simp]: "itoa n \<noteq> []"
  by (simp add: itoa.simps [of n])

lemma digits_val_snoc: "digits_val b (s @ [c]) = digits_val b s * b + digit_val c"
  by (simp add: digits_val_def)

lemma digits_val_itoa: "0 \<le> n \<Longrightarrow> digits_val 10 (itoa n) = n"
proof (induction n rule: itoa.induct)
  case (1 n)
  have d: "digit_val (mk_byte (48 + nat m)) = m" if "0 \<le> m" "m < 10" for m
    using that nat_mono [of m 9] by (simp add: digit_val_def is_digit_def)
  show ?case
  proof (cases "n < 10")
    case True
    with 1(2) d [of n] show ?thesis by (simp add: itoa.simps [of n] digits_val_def)
  next
    case False
    then show ?thesis using 1 d [of "n mod 10"] by (simp add: itoa.simps [of n] digits_val_snoc)
  qed
qed

lemma digit_not: "is_digit c \<Longrightarrow> c \<noteq> CHR ''-'' \<and> c \<noteq> CHR ''+'' \<and> c \<noteq> CHR ''_'' \<and> c \<noteq> CHR ''.''"
  by (auto simp: is_digit_def byte_val_def)

lemma lower_digit [simp]: "is_digit c \<Longrightarrow> lower_char c = c"
  by (simp add: is_digit_def lower_char_def)

lemma itoa_digits: "0 \<le> n \<Longrightarrow> list_all is_digit (itoa n)"
  using digit_range by (simp add: list_all_iff)

lemma cut_sign_digits: "list_all is_digit s \<Longrightarrow> cut_sign s = (False, s)"
  using digit_not by (cases s) (auto simp: cut_sign_def)

lemma not_special: "list_all is_digit s \<Longrightarrow> s \<noteq> [] \<Longrightarrow> float_special s = None"
proof -
  assume d: "list_all is_digit s" "s \<noteq> []"
  then have "map lower_char s = s" by (induction s) auto
  moreover have "\<not> is_digit (CHR ''i'')" "\<not> is_digit (CHR ''n'')" by (simp_all add: is_digit_def byte_val_def)
  ultimately show ?thesis using d by (auto simp: float_special_def cut_sign_digits)
qed

lemma cut_hex_digits: "list_all is_digit s \<Longrightarrow> cut_hex s = (False, s)"
proof -
  have "\<not> is_digit (CHR ''x'')" by (simp add: is_digit_def byte_val_def)
  then show "list_all is_digit s \<Longrightarrow> cut_hex s = (False, s)" by (auto simp: cut_hex_def split: list.split)
qed

lemma span_all: "list_all p s \<Longrightarrow> span p s = (s, [])"
  by (auto simp: span_def list_all_iff takeWhile_eq_all_conv dropWhile_eq_Nil_conv)

lemma ParseFloat_digits:
  assumes d: "list_all is_digit s" "s \<noteq> []" and x: "f64_round (of_int (digits_val 10 s)) = Fin x"
  shows "ParseFloat s = Inr (Fin x)"
proof -
  have num: "span (\<lambda>c. is_digit c \<or> c = CHR ''_'') s = (s, [])"
    by (rule span_all) (use d in \<open>auto simp: list_all_iff\<close>)
  have fl: "filter is_digit s = s" using d by (simp add: list_all_iff)
  have us: "CHR ''_'' \<notin> set s" using d digit_not by (auto simp: list_all_iff)
  show ?thesis
    unfolding ParseFloat_def not_special [OF d] cut_sign_digits [OF d(1)] cut_hex_digits [OF d(1)]
    using num fl us d x cut_hex_digits [OF d(1)] by (simp add: Let_def read_exponent_def)
qed

lemma ParseFloat_itoa: "0 \<le> n \<Longrightarrow> n < 2 ^ 53 \<Longrightarrow> ParseFloat (itoa n) = Inr (Fin (of_int n))"
  using ParseFloat_digits [OF itoa_digits itoa_nonempty, of n "of_int n"] f64_round_exact [of n 0]
  by (simp add: digits_val_itoa)

section \<open>Nothing to trim\<close>

definition graphic :: "byte \<Rightarrow> bool" where
  "graphic c \<longleftrightarrow> 33 \<le> byte_val c \<and> byte_val c < 127"

lemma token_width_graphic: "list_all (\<lambda>t. t \<noteq> [] \<and> \<not> graphic (hd t)) toks \<Longrightarrow> graphic c \<Longrightarrow> token_width toks (c # s) = 0"
proof -
  assume "list_all (\<lambda>t. t \<noteq> [] \<and> \<not> graphic (hd t)) toks" "graphic c"
  then have "find (has_prefix (c # s)) toks = None"
    by (auto simp: find_None_iff list_all_iff has_prefix_def neq_Nil_conv)
  then show ?thesis by (simp add: token_width_def)
qed

lemma space_tokens_not_graphic:
  "list_all (\<lambda>t. t \<noteq> [] \<and> \<not> graphic (hd t)) space_tokens"
  "list_all (\<lambda>t. t \<noteq> [] \<and> \<not> graphic (hd t)) (map rev space_tokens)"
  by (simp_all add: space_tokens_def graphic_def byte_val_def)

lemma trim_tokens_graphic:
  "list_all (\<lambda>t. t \<noteq> [] \<and> \<not> graphic (hd t)) toks \<Longrightarrow> s \<noteq> [] \<Longrightarrow> graphic (hd s) \<Longrightarrow> trim_tokens toks s = s"
  using token_width_graphic [of toks "hd s" "tl s"] by (subst trim_tokens.simps) simp

lemma trim_space_graphic:
  assumes "s \<noteq> []" "graphic (hd s)" "graphic (last s)"
  shows "trim_space s = s"
  using assms trim_tokens_graphic [OF space_tokens_not_graphic(1), of s] trim_tokens_graphic [OF space_tokens_not_graphic(2), of "rev s"]
  by (simp add: trim_space_def trim_left_space_def trim_right_space_def hd_rev)

section \<open>Sizes and ages mean what they say\<close>

lemma graphic_digit: "is_digit c \<Longrightarrow> graphic c"
  by (simp add: is_digit_def graphic_def)

lemma span_append: "list_all p s \<Longrightarrow> (t = [] \<or> \<not> p (hd t)) \<Longrightarrow> span p (s @ t) = (s, t)"
  by (cases t) (auto simp: span_def list_all_iff takeWhile_eq_all_conv)

definition is_pow2 :: "int \<Rightarrow> bool" where
  "is_pow2 m \<longleftrightarrow> (\<exists>k\<in>set [0, 10, 20, 30, 40]. m = 2 ^ k)"

lemma is_pow2D: "is_pow2 m \<Longrightarrow> \<exists>k\<le>900. m = 2 ^ k"
proof -
  have "\<forall>k\<in>set [0, 10, 20, 30, 40::nat]. k \<le> 900" by simp
  then show "is_pow2 m \<Longrightarrow> \<exists>k\<le>900. m = 2 ^ k" unfolding is_pow2_def by blast
qed

lemmas unit_simps = lower_char_def has_prefix_def byte_val_def graphic_def mk_byte_def char_of_def bit_numeral_rec bit_Suc_0_iff

text \<open>What the table of units needs to say of a unit, checked on each row.\<close>

definition unit_ok :: "bytes \<times> int \<Rightarrow> bool" where
  "unit_ok x = (case x of (u, m) \<Rightarrow> to_lower u = u \<and> trim_space u = u \<and> map_of sizeUnits u = Some m \<and>
     (u = [] \<or> \<not> is_number_char (hd u) \<and> graphic (last u)) \<and> is_pow2 m)"

lemma units_ok: "list_all unit_ok sizeUnits"
  by (simp add: sizeUnits_def, intro conjI)
    (simp_all add: unit_ok_def is_pow2_def sizeUnits_def lower_char_def has_prefix_def byte_val_def is_number_char_def is_digit_def graphic_def
      trim_space_graphic)

lemma to_lower_graphic: "list_all graphic u \<Longrightarrow> to_lower u = map lower_char u"
  by (induction u rule: to_lower.induct) (auto simp: graphic_def byte_val_def has_prefix_def)

lemma number_char_val: "is_number_char c \<longleftrightarrow> byte_val c \<in> {43, 45, 46} \<or> 48 \<le> byte_val c \<and> byte_val c \<le> 57"
proof -
  have "byte_val (CHR ''.'') = 46" "byte_val (CHR ''-'') = 45" "byte_val (CHR ''+'') = 43" by (simp_all add: byte_val_def)
  then have "c = CHR ''.'' \<longleftrightarrow> byte_val c = 46" "c = CHR ''-'' \<longleftrightarrow> byte_val c = 45" "c = CHR ''+'' \<longleftrightarrow> byte_val c = 43"
    by (metis byte_val_inject)+
  then show ?thesis by (auto simp: is_number_char_def is_digit_def)
qed

lemma lower_number_char: "is_number_char (lower_char c) \<longleftrightarrow> is_number_char c"
  by (auto simp: number_char_val lower_char_def)

lemma parseSize_number:
  assumes "0 \<le> n" "n < 2 ^ 53" "list_all graphic u" "(to_lower u, m) \<in> set sizeUnits"
  shows "parseSize oor (itoa n @ u) = Inr (if in_i64 (n * m) then n * m else oor (Fin (of_int (n * m))))"
proof -
  from units_ok assms(4) have u: "trim_space (to_lower u) = to_lower u" "map_of sizeUnits (to_lower u) = Some m"
    and "to_lower u = [] \<or> \<not> is_number_char (hd (to_lower u))" and "is_pow2 m"
    by (auto simp: list_all_iff unit_ok_def)
  then have u4: "u = [] \<or> \<not> is_number_char (hd u) \<and> graphic (last u)"
    using assms(3) by (auto simp: to_lower_graphic [OF assms(3)] hd_map lower_number_char list_all_iff)
  obtain k where m: "m = 2 ^ k" "k \<le> 900" using is_pow2D \<open>is_pow2 m\<close> by blast
  have dig: "list_all is_digit (itoa n)" by (rule itoa_digits [OF assms(1)])
  have "graphic (hd (itoa n))" "graphic (last (itoa n))"
    using dig by (auto simp: list_all_iff graphic_digit)
  then have trim: "trim_space (itoa n @ u) = itoa n @ u"
    by (intro trim_space_graphic) (use u4 in \<open>auto simp: last_append\<close>)
  have num: "span is_number_char (itoa n @ u) = (itoa n, u)"
    by (rule span_append) (use dig u4 in \<open>auto simp: list_all_iff is_number_char_def\<close>)
  have fl: "f64_scale (Fin (of_int n)) (of_int m) = Fin (of_int (n * m))"
    using f64_round_exact [OF assms(1,2) m(2)] by (simp add: f64_scale_def m)
  have zero: "n = 0 \<and> u = []" if "itoa n @ u = ''0''"
  proof -
    from that have i: "itoa n = ''0''" by (cases "itoa n") (simp_all add: itoa_nonempty)
    then have "digits_val 10 ''0'' = n" using digits_val_itoa [OF assms(1)] by simp
    moreover have "digits_val 10 ''0'' = 0" by (simp add: digits_val_def digit_val_def is_digit_def byte_val_def)
    ultimately show ?thesis using that i by simp
  qed
  have "0 \<le> n * m" using assms(1) m by simp
  then show ?thesis
    using zero assms(1)
    by (auto simp: parseSize_def trim num ParseFloat_itoa [OF assms(1,2)] u fl f64_less0_def f64_to_i64_def trunc_def Let_def
        in_i64_def min_i64_def max_i64_def simp del: of_int_mult)
qed

lemma parseAge_days:
  assumes "0 \<le> n" "n < 2 ^ 22"
  shows "parseAge oor (itoa n @ ''d'') =
    (let d = (if n \<le> 106751 then n * day_nanos else oor (Fin (of_int (n * day_nanos))))
     in if d < 0 then Inl (Msg ''negative duration'') else Inr d)"
proof -
  have dig: "list_all is_digit (itoa n)" by (rule itoa_digits [OF assms(1)])
  have "graphic (hd (itoa n))" using dig by (auto simp: list_all_iff graphic_digit)
  then have trim: "trim_space (itoa n @ ''d'') = itoa n @ ''d''"
    by (intro trim_space_graphic) (auto simp: graphic_def byte_val_def)
  have cut: "cut_suffix (itoa n @ ''d'') ''d'' = Some (itoa n)" by (simp add: cut_suffix_def)
  have split: "n * day_nanos = (n * 1318359375) * 2 ^ 16" by (simp add: day_nanos_def)
  have "f64_round (of_int ((n * 1318359375) * 2 ^ 16)) = Fin (of_int ((n * 1318359375) * 2 ^ 16))"
    by (rule f64_round_exact) (use assms in simp_all)
  then have fl: "f64_scale (Fin (of_int n)) (of_int day_nanos) = Fin (of_int (n * day_nanos))"
    unfolding split [symmetric] by (simp add: f64_scale_def)
  have range: "in_i64 (n * day_nanos) \<longleftrightarrow> n \<le> 106751"
    using assms(1) by (auto simp: in_i64_def min_i64_def max_i64_def day_nanos_def)
  have pos: "0 \<le> n * day_nanos" using assms(1) by (simp add: day_nanos_def)
  have conv: "f64_to_i64 oor (Fin (of_int (n * day_nanos))) = (if n \<le> 106751 then n * day_nanos else oor (Fin (of_int (n * day_nanos))))"
    using pos by (simp add: f64_to_i64_def trunc_def range del: of_int_mult)
  have ne: "itoa n @ ''d'' \<noteq> ''0''" by (cases "itoa n") auto
  have "n < 2 ^ 53" using assms(2) by simp
  then show ?thesis
    using ne by (simp add: parseAge_def trim cut ParseFloat_itoa [OF assms(1)] fl conv Let_def del: of_int_mult)
qed

section \<open>Printing sizes\<close>

lemma int_le_div_iff: "0 < p \<Longrightarrow> k \<le> sz div p \<longleftrightarrow> k * p \<le> sz" for p :: int
proof
  assume p: "0 < p" and "k \<le> sz div p"
  then have "k * p \<le> sz div p * p" by (simp add: mult_right_mono)
  also have "\<dots> \<le> sz" using p pos_mod_sign [of p sz] div_mult_mod_eq [of sz p] by linarith
  finally show "k * p \<le> sz" .
next
  assume "0 < p" "k * p \<le> sz"
  then show "k \<le> sz div p" using zdiv_mono1 [of "k * p" sz p] by simp
qed

lemma size_exponent_bounds:
  assumes "1024 ^ Suc ex \<le> sz" "sz \<le> max_i64" "n = sz div 1024 ^ Suc ex"
  shows "\<exists>k. size_exponent n (1024 ^ Suc ex) ex = (1024 ^ Suc k, k) \<and> k \<le> 5 \<and> 1024 ^ Suc k \<le> sz \<and> sz < 1024 ^ Suc (Suc k)"
  using assms
proof (induction n "1024 ^ Suc ex :: int" ex rule: size_exponent.induct)
  case (1 n ex)
  have ex: "ex \<le> 5"
  proof (rule ccontr)
    assume "\<not> ex \<le> 5"
    then have "(1024::int) ^ 7 \<le> 1024 ^ Suc ex" by (intro power_increasing) auto
    with 1(2,3) show False by (simp add: max_i64_def)
  qed
  show ?case
  proof (cases "1024 \<le> n")
    case False
    then have "sz < 1024 ^ Suc (Suc ex)" using 1(4) int_le_div_iff [of "1024 ^ Suc ex" 1024 sz] by simp
    with False ex 1(2) show ?thesis by (simp add: size_exponent.simps [of n])
  next
    case True
    then have le: "1024 ^ Suc (Suc ex) \<le> sz" using 1(4) int_le_div_iff [of "1024 ^ Suc ex" 1024 sz] by simp
    then have "1024 ^ Suc (Suc ex) \<le> max_i64" using 1(3) by linarith
    moreover have "- 8796093022208 \<le> (1024::int) ^ ex" by (rule order.trans [of _ 0]) simp_all
    ultimately have "in_i64 (1024 ^ Suc ex * 1024)" by (simp add: in_i64_def min_i64_def mult.commute)
    then have i: "i64 (1024 ^ Suc ex * 1024) = 1024 ^ Suc (Suc ex)" by simp
    have "n div 1024 = sz div 1024 ^ Suc (Suc ex)"
      using 1(4) zdiv_zmult2_eq [of 1024 sz "1024 ^ Suc ex"] by (simp only: power_Suc2)
    with 1(1) [OF True i le 1(3)] i show ?thesis by (simp add: size_exponent.simps [of n] True)
  qed
qed

lemma formatSize_min: "formatSize min_i64 = None"
proof -
  have "formatSize min_i64 = Option.bind (formatSize min_i64) (\<lambda>s. Some (CHR ''-'' # s))"
    by (subst formatSize.simps) (simp add: i64_def min_i64_def)
  then show ?thesis by (cases "formatSize min_i64") auto
qed

lemma formatSize_nonneg: "0 \<le> sz \<Longrightarrow> formatSize sz \<noteq> None"
  by (subst formatSize.simps) (auto split: prod.split)

lemma formatSize_returns:
  assumes i: "in_i64 sz" and m: "sz \<noteq> min_i64"
  shows "formatSize sz \<noteq> None"
proof (cases "sz < 0")
  case True
  with i m have n: "in_i64 (- sz)" by (simp add: in_i64_def min_i64_def max_i64_def)
  obtain s where "formatSize (- sz) = Some s" using formatSize_nonneg [of "- sz"] True by auto
  with True n have "formatSize sz = Some (CHR ''-'' # s)" by (subst formatSize.simps) simp
  then show ?thesis by simp
qed (simp add: formatSize_nonneg)

section \<open>What the settings and the printed sizes mean\<close>

text \<open>
  C29. A size means what it says. A whole number of at most 53 bits followed by any unit of the
  table, in either case, parses to exactly that many bytes, in spite of the float in between, as long as an int64
  holds the product; beyond that the result is whatever the machine converts the float to.
\<close>

theorem parseSize_exact:
  assumes "0 \<le> n" "n < 2 ^ 53" "list_all graphic u" "(to_lower u, m) \<in> set sizeUnits"
  shows "parseSize oor (itoa n @ u) = Inr (if in_i64 (n * m) then n * m else oor (Fin (of_int (n * m))))"
  by (rule parseSize_number [OF assms])

theorem parseSize_exact_witness: "parseSize (\<lambda>_. 0) (itoa 20 @ ''GiB'') = Inr (20 * 2 ^ 30)"
  using parseSize_exact [of 20 "''GiB''" "2 ^ 30" "\<lambda>_. 0"] by (simp add: unit_simps sizeUnits_def in_i64_def min_i64_def max_i64_def)

text \<open>
  C30. An age in days is exact up to the 106751 days an int64 of nanoseconds holds; a longer one is
  the machine's conversion, refused when that is negative.
\<close>

theorem parseAge_exact:
  assumes "0 \<le> n" "n < 2 ^ 22"
  shows "parseAge oor (itoa n @ ''d'') =
    (let d = (if n \<le> 106751 then n * day_nanos else oor (Fin (of_int (n * day_nanos))))
     in if d < 0 then Inl (Msg ''negative duration'') else Inr d)"
  by (rule parseAge_days [OF assms])

theorem parseAge_exact_witness:
  "parseAge (\<lambda>_. min_i64) (itoa 5 @ ''d'') = Inr 432000000000000 \<and>
   parseAge (\<lambda>_. min_i64) (itoa 106752 @ ''d'') = Inl (Msg ''negative duration'')"
  using parseAge_exact [of 5 "\<lambda>_. min_i64"] parseAge_exact [of 106752 "\<lambda>_. min_i64"] by (simp add: day_nanos_def min_i64_def)

text \<open>
  C31. \<open>formatSize\<close> returns for every int64 but the least, on which it calls itself for ever; and
  when it scales, the divisor is the power of 1024 with the size in its range and never overflows,
  and its exponent names one of the six prefixes.
\<close>

theorem formatSize_total:
  "in_i64 sz \<longrightarrow> (formatSize sz = None \<longleftrightarrow> sz = min_i64) \<and>
     (1024 \<le> sz \<longrightarrow> (\<exists>k. size_exponent (sz div 1024) 1024 0 = (1024 ^ Suc k, k) \<and> k < length ''KMGTPE'' \<and>
        1024 ^ Suc k \<le> sz \<and> sz < 1024 ^ Suc (Suc k)))"
proof (intro impI conjI)
  assume i: "in_i64 sz"
  show "formatSize sz = None \<longleftrightarrow> sz = min_i64" using formatSize_min formatSize_returns [OF i] by metis
  assume "1024 \<le> sz"
  with i size_exponent_bounds [of 0 sz "sz div 1024"]
  show "\<exists>k. size_exponent (sz div 1024) 1024 0 = (1024 ^ Suc k, k) \<and> k < length ''KMGTPE'' \<and>
        1024 ^ Suc k \<le> sz \<and> sz < 1024 ^ Suc (Suc k)"
    by (auto simp: in_i64_def)
qed

theorem formatSize_total_witness: "formatSize 1536 \<noteq> None \<and> formatSize min_i64 = None"
  using formatSize_total [of 1536] formatSize_total [of min_i64] by (simp add: in_i64_def min_i64_def max_i64_def)

end
