(* ===== verification/Settings.thy ===== *)
theory Settings
  imports Store_State Number_Laws
begin

text \<open>
  From the command line, the environment and the config file to a \<open>config\<close> (\<open>config.go\<close>, and
  \<open>parseRunArgs\<close> and \<open>helpMode\<close>). What comes from outside is the record \<open>host\<close>: the
  environment, the platform's directories, reading a file and \<open>encoding/json\<close>. Go's \<open>flag\<close>
  package and \<open>path/filepath\<close> (Unix) are modelled as far as they are used.
\<close>

section \<open>Paths as strings\<close>

fun split_slash :: "string \<Rightarrow> string list" where
  "split_slash [] = [[]]"
| "split_slash (c # s) = (if c = CHR ''/'' then [] # split_slash s
     else (case split_slash s of [] \<Rightarrow> [[c]] | x # xs \<Rightarrow> (c # x) # xs))"

definition is_abs :: "string \<Rightarrow> bool" where
  "is_abs s \<longleftrightarrow> s \<noteq> [] \<and> hd s = CHR ''/''"

text \<open>\<open>filepath.Clean\<close>: the kept components, last first.\<close>

fun clean_comps :: "bool \<Rightarrow> string list \<Rightarrow> string list \<Rightarrow> string list" where
  "clean_comps rooted kept [] = rev kept"
| "clean_comps rooted kept (c # cs) =
     (if c = [] \<or> c = ''.'' then clean_comps rooted kept cs
      else if c = ''..'' then
        (if kept \<noteq> [] \<and> hd kept \<noteq> ''..'' then clean_comps rooted (tl kept) cs
         else if rooted then clean_comps rooted kept cs
         else clean_comps rooted (c # kept) cs)
      else clean_comps rooted (c # kept) cs)"

fun join_slash :: "string list \<Rightarrow> string" where
  "join_slash [] = []"
| "join_slash [c] = c"
| "join_slash (c # cs) = c @ CHR ''/'' # join_slash cs"

definition filepath_clean :: "string \<Rightarrow> string" where
  "filepath_clean s =
     (let cs = clean_comps (is_abs s) [] (split_slash s)
      in if is_abs s then CHR ''/'' # join_slash cs else if cs = [] then ''.'' else join_slash cs)"

definition filepath_join :: "string list \<Rightarrow> string" where
  "filepath_join es = (case dropWhile (\<lambda>e. e = []) es of [] \<Rightarrow> [] | es' \<Rightarrow> filepath_clean (join_slash es'))"

section \<open>The host\<close>

record fileConfig =
  fc_CacheDir :: "string option"
  fc_MaxSize :: "string option"
  fc_MaxAge :: "string option"
  fc_MaxRetainedAge :: "string option"
  fc_Verbose :: "bool option"

record host =
  hs_env :: "string \<Rightarrow> string"
  hs_userCacheDir :: "err + string"
  hs_userConfigDir :: "err + string"
  hs_getwd :: "err + path"
  hs_readFile :: "string \<Rightarrow> err + bytes"
  hs_decode :: "bytes \<Rightarrow> err + fileConfig"
  hs_convert :: "float64 \<Rightarrow> int"

definition filepath_abs :: "host \<Rightarrow> string \<Rightarrow> err + path" where
  "filepath_abs h s =
     (if is_abs s then Inr (clean_comps True [] (split_slash s))
      else (case hs_getwd h of Inl e \<Rightarrow> Inl e | Inr wd \<Rightarrow> Inr (clean_comps True [] (wd @ split_slash s))))"

section \<open>Flags\<close>

record rawFlags =
  rf_config :: string
  rf_dir :: string
  rf_maxSize :: string
  rf_maxAge :: string
  rf_maxRetainedAge :: string
  rf_v :: bool
  rf_types :: bool
  rf_cpuprofile :: string
  rf_memprofile :: string

definition parseBool :: "string \<Rightarrow> bool option" where
  "parseBool s =
     (if s \<in> set [''1'', ''t'', ''T'', ''TRUE'', ''true'', ''True''] then Some True
      else if s \<in> set [''0'', ''f'', ''F'', ''FALSE'', ''false'', ''False''] then Some False else None)"

text \<open>\<open>bindFlags\<close>: the flags by name, with what setting one does.\<close>

datatype flag_setter = StringVar "string \<Rightarrow> rawFlags \<Rightarrow> rawFlags" | BoolVar "bool \<Rightarrow> rawFlags \<Rightarrow> rawFlags"

definition bindFlags :: "(string \<times> flag_setter) list" where
  "bindFlags =
     [(''config'', StringVar (\<lambda>v r. r\<lparr>rf_config := v\<rparr>)),
      (''dir'', StringVar (\<lambda>v r. r\<lparr>rf_dir := v\<rparr>)),
      (''max-size'', StringVar (\<lambda>v r. r\<lparr>rf_maxSize := v\<rparr>)),
      (''max-age'', StringVar (\<lambda>v r. r\<lparr>rf_maxAge := v\<rparr>)),
      (''max-retained-age'', StringVar (\<lambda>v r. r\<lparr>rf_maxRetainedAge := v\<rparr>)),
      (''v'', BoolVar (\<lambda>v r. r\<lparr>rf_v := v\<rparr>)),
      (''types'', BoolVar (\<lambda>v r. r\<lparr>rf_types := v\<rparr>)),
      (''cpuprofile'', StringVar (\<lambda>v r. r\<lparr>rf_cpuprofile := v\<rparr>)),
      (''memprofile'', StringVar (\<lambda>v r. r\<lparr>rf_memprofile := v\<rparr>))]"

text \<open>\<open>name=value\<close>; the equals sign is not the first character.\<close>

definition cut_value :: "string \<Rightarrow> string \<times> string option" where
  "cut_value name =
     (let n = length (takeWhile (\<lambda>c. c \<noteq> CHR ''='') (tl name))
      in if Suc n < length name then (take (Suc n) name, Some (drop (n + 2) name)) else (name, None))"

text \<open>
  \<open>FlagSet.Parse\<close> of the standard library: the flags set, in order, and the operands. The first argument that is no
  flag, or \<open>--\<close>, ends the flags.
\<close>

fun flag_parse :: "string list \<Rightarrow> rawFlags \<Rightarrow> string list \<Rightarrow> err + rawFlags \<times> string list \<times> string list" where
  "flag_parse [] raw visited = Inr (raw, visited, [])"
| "flag_parse (s # args) raw visited =
     (if length s < 2 \<or> hd s \<noteq> CHR ''-'' then Inr (raw, visited, s # args)
      else if s = ''--'' then Inr (raw, visited, args)
      else
        let body = (if s ! 1 = CHR ''-'' then drop 2 s else drop 1 s) in
        if body = [] \<or> hd body = CHR ''-'' \<or> hd body = CHR ''='' then Inl (Msg ''bad flag syntax'')
        else (case cut_value body of (name, val) \<Rightarrow>
          (case map_of bindFlags name of
             None \<Rightarrow> Inl (if name \<in> {''help'', ''h''} then Msg ''flag: help requested'' else Msg ''flag provided but not defined'')
           | Some (BoolVar set_bool) \<Rightarrow>
               (case parseBool (case val of None \<Rightarrow> ''true'' | Some v \<Rightarrow> v) of
                  None \<Rightarrow> Inl (Msg ''invalid boolean value'')
                | Some b \<Rightarrow> flag_parse args (set_bool b raw) (name # visited))
           | Some (StringVar set_string) \<Rightarrow>
               (case (val, args) of
                  (Some v, _) \<Rightarrow> flag_parse args (set_string v raw) (name # visited)
                | (None, v # args') \<Rightarrow> flag_parse args' (set_string v raw) (name # visited)
                | (None, []) \<Rightarrow> Inl (Msg ''flag needs an argument'')))))"

section \<open>Merging\<close>

text \<open>While it is put together, the cache directory of a config is a string beside it.\<close>

type_synonym draft = "string \<times> config"

definition ordie :: "err + 'a \<Rightarrow> ('a \<Rightarrow> err + 'b) \<Rightarrow> err + 'b" where
  "ordie r f = (case r of Inl e \<Rightarrow> Inl e | Inr x \<Rightarrow> f x)"

definition wrapped :: "string \<Rightarrow> err + 'a \<Rightarrow> err + 'a" where
  "wrapped m r = (case r of Inl e \<Rightarrow> Inl (Wrap m [e]) | Inr x \<Rightarrow> Inr x)"

text \<open>\<open>if given { if field, err = parse(value); err != nil { return } }\<close>\<close>

definition override ::
  "string \<Rightarrow> (string \<Rightarrow> err + 'a) \<Rightarrow> ('a \<Rightarrow> draft \<Rightarrow> draft) \<Rightarrow> string option \<Rightarrow> draft \<Rightarrow> err + draft" where
  "override what parse upd value d =
     (case value of None \<Rightarrow> Inr d | Some s \<Rightarrow> ordie (wrapped what (parse s)) (\<lambda>x. Inr (upd x d)))"

definition with_dir :: "string \<Rightarrow> draft \<Rightarrow> draft" where
  "with_dir s d = (s, snd d)"

definition with_maxSize :: "int \<Rightarrow> draft \<Rightarrow> draft" where
  "with_maxSize n d = (fst d, (snd d)\<lparr>maxSize := n\<rparr>)"

definition with_maxAge :: "int \<Rightarrow> draft \<Rightarrow> draft" where
  "with_maxAge n d = (fst d, (snd d)\<lparr>maxAge := n\<rparr>)"

definition with_maxRetainedAge :: "int \<Rightarrow> draft \<Rightarrow> draft" where
  "with_maxRetainedAge n d = (fst d, (snd d)\<lparr>maxRetainedAge := n\<rparr>)"

definition with_verbose :: "bool \<Rightarrow> draft \<Rightarrow> draft" where
  "with_verbose b d = (fst d, (snd d)\<lparr>verbose := b\<rparr>)"

definition parse_verbose :: "string \<Rightarrow> err + bool" where
  "parse_verbose s = (case parseBool s of None \<Rightarrow> Inl (Msg ''invalid syntax'') | Some b \<Rightarrow> Inr b)"

definition defaultConfig :: "host \<Rightarrow> err + draft" where
  "defaultConfig h =
     ordie (wrapped ''find user cache dir'' (hs_userCacheDir h)) (\<lambda>userCacheDir.
     ordie (parseSize (hs_convert h) ''20GiB'') (\<lambda>sz.
     Inr (filepath_join [userCacheDir, ''gocachez''],
       \<lparr>dir = [], maxSize = sz, maxAge = defaultMaxAge, maxRetainedAge = 0, verbose = False, types = False,
        cpuProfile = [], memProfile = []\<rparr>)))"

definition defaultConfigPath :: "host \<Rightarrow> string \<times> bool" where
  "defaultConfigPath h =
     (if hs_env h ''GOCACHEZ_CONFIG'' \<noteq> [] then (hs_env h ''GOCACHEZ_CONFIG'', True)
      else (case hs_userConfigDir h of Inl _ \<Rightarrow> ([], False)
        | Inr userConfigDir \<Rightarrow> (filepath_join [userConfigDir, ''gocachez'', ''config.json''], False)))"

definition applyFileConfig :: "host \<Rightarrow> fileConfig \<Rightarrow> draft \<Rightarrow> err + draft" where
  "applyFileConfig h fc d =
     ordie (override [] Inr with_dir (fc_CacheDir fc) d) (\<lambda>d.
     ordie (override ''parse config maxSize'' (parseSize (hs_convert h)) with_maxSize (fc_MaxSize fc) d) (\<lambda>d.
     ordie (override ''parse config maxAge'' (parseAge (hs_convert h)) with_maxAge (fc_MaxAge fc) d) (\<lambda>d.
     ordie (override ''parse config maxRetainedAge'' (parseAge (hs_convert h)) with_maxRetainedAge (fc_MaxRetainedAge fc) d) (\<lambda>d.
     Inr (case fc_Verbose fc of None \<Rightarrow> d | Some b \<Rightarrow> with_verbose b d)))))"

text \<open>The decoded config file; \<open>None\<close> when an optional one is absent.\<close>

definition readConfigFile :: "host \<Rightarrow> string \<Rightarrow> bool \<Rightarrow> err + fileConfig option" where
  "readConfigFile h p required =
     (case hs_readFile h p of
        Inl e \<Rightarrow> if errors_is ErrNotExist e \<and> \<not> required then Inr None else Inl (Wrap ''read config'' [e])
      | Inr bytes \<Rightarrow> ordie (wrapped ''decode config'' (hs_decode h bytes)) (\<lambda>fc. Inr (Some fc)))"

definition applyConfigFile :: "host \<Rightarrow> string \<Rightarrow> bool \<Rightarrow> draft \<Rightarrow> err + draft" where
  "applyConfigFile h p required d =
     ordie (readConfigFile h p required) (\<lambda>fc. case fc of None \<Rightarrow> Inr d | Some fc \<Rightarrow> applyFileConfig h fc d)"

definition getenv :: "host \<Rightarrow> string \<Rightarrow> string option" where
  "getenv h name = (if hs_env h name = [] then None else Some (hs_env h name))"

definition applyEnv :: "host \<Rightarrow> draft \<Rightarrow> err + draft" where
  "applyEnv h d =
     ordie (override [] Inr with_dir (getenv h ''GOCACHEZ_DIR'') d) (\<lambda>d.
     ordie (override ''parse GOCACHEZ_MAX_SIZE'' (parseSize (hs_convert h)) with_maxSize (getenv h ''GOCACHEZ_MAX_SIZE'') d) (\<lambda>d.
     ordie (override ''parse GOCACHEZ_MAX_AGE'' (parseAge (hs_convert h)) with_maxAge (getenv h ''GOCACHEZ_MAX_AGE'') d) (\<lambda>d.
     ordie (override ''parse GOCACHEZ_MAX_RETAINED_AGE'' (parseAge (hs_convert h)) with_maxRetainedAge
              (getenv h ''GOCACHEZ_MAX_RETAINED_AGE'') d) (\<lambda>d.
     override ''parse GOCACHEZ_VERBOSE'' parse_verbose with_verbose (getenv h ''GOCACHEZ_VERBOSE'') d))))"

definition given :: "string list \<Rightarrow> string \<Rightarrow> 'a \<Rightarrow> 'a option" where
  "given visited name v = (if name \<in> set visited then Some v else None)"

definition applyFlags :: "host \<Rightarrow> rawFlags \<Rightarrow> string list \<Rightarrow> draft \<Rightarrow> err + draft" where
  "applyFlags h raw visited d =
     ordie (override [] Inr with_dir (given visited ''dir'' (rf_dir raw)) d) (\<lambda>d.
     ordie (override ''parse -max-size'' (parseSize (hs_convert h)) with_maxSize (given visited ''max-size'' (rf_maxSize raw)) d) (\<lambda>d.
     ordie (override ''parse -max-age'' (parseAge (hs_convert h)) with_maxAge (given visited ''max-age'' (rf_maxAge raw)) d) (\<lambda>d.
     ordie (override ''parse -max-retained-age'' (parseAge (hs_convert h)) with_maxRetainedAge
              (given visited ''max-retained-age'' (rf_maxRetainedAge raw)) d) (\<lambda>d.
     Inr (case given visited ''v'' (rf_v raw) of None \<Rightarrow> d | Some b \<Rightarrow> with_verbose b d)))))"

text \<open>A bad argument is told apart from a bad value or config.\<close>

datatype runMode = ModeProtocol | ModeClean | ModePrune | ModeStatus

datatype cli_error = ArgError err | UsageError runMode err | OtherError err

definition ortell :: "(err \<Rightarrow> cli_error) \<Rightarrow> err + 'a \<Rightarrow> ('a \<Rightarrow> cli_error + 'b) \<Rightarrow> cli_error + 'b" where
  "ortell k r f = (case r of Inl e \<Rightarrow> Inl (k e) | Inr x \<Rightarrow> f x)"

definition no_flags :: "string \<Rightarrow> rawFlags" where
  "no_flags configPath = \<lparr>rf_config = configPath, rf_dir = [], rf_maxSize = [], rf_maxAge = [], rf_maxRetainedAge = [],
     rf_v = False, rf_types = False, rf_cpuprofile = [], rf_memprofile = []\<rparr>"

definition parseFlagOperands :: "host \<Rightarrow> string list \<Rightarrow> cli_error + config \<times> string list" where
  "parseFlagOperands h args =
     ortell OtherError (defaultConfig h) (\<lambda>(dirName, c).
     (case defaultConfigPath h of (configPath, configRequired) \<Rightarrow>
     ortell ArgError (flag_parse args (no_flags configPath) []) (\<lambda>(raw, visited, operands).
     let c = c\<lparr>types := rf_types raw, cpuProfile := rf_cpuprofile raw, memProfile := rf_memprofile raw\<rparr> in
     ortell OtherError (if rf_config raw = [] then Inr (dirName, c)
         else applyConfigFile h (rf_config raw) (configRequired \<or> ''config'' \<in> set visited) (dirName, c)) (\<lambda>d.
     ortell OtherError (applyEnv h d) (\<lambda>d.
     ortell OtherError (applyFlags h raw visited d) (\<lambda>(dirName, c).
     ortell OtherError (wrapped ''resolve cache dir'' (filepath_abs h dirName)) (\<lambda>abs.
     Inr (c\<lparr>dir := abs\<rparr>, operands))))))))"

definition parseFlags :: "host \<Rightarrow> string list \<Rightarrow> cli_error + config" where
  "parseFlags h args =
     (case parseFlagOperands h args of Inl e \<Rightarrow> Inl e
      | Inr (c, operands) \<Rightarrow> if operands \<noteq> [] then Inl (ArgError (Msg ''unexpected argument'')) else Inr c)"

section \<open>Commands\<close>

definition runMode_of :: "string \<Rightarrow> runMode option" where
  "runMode_of arg = map_of [(''clean'', ModeClean), (''prune'', ModePrune), (''status'', ModeStatus)] arg"

definition isRunMode :: "string \<Rightarrow> bool" where
  "isRunMode arg \<longleftrightarrow> runMode_of arg \<noteq> None"

definition parseRunArgs :: "host \<Rightarrow> string list \<Rightarrow> cli_error + config \<times> runMode" where
  "parseRunArgs h args =
     (case (case args of a # rest \<Rightarrow> (case runMode_of a of Some m \<Rightarrow> (m, rest) | None \<Rightarrow> (ModeProtocol, args))
            | [] \<Rightarrow> (ModeProtocol, args)) of (mode, rest) \<Rightarrow>
        (case parseFlags h rest of
           Inl (ArgError e) \<Rightarrow> Inl (UsageError mode e)
         | Inl e \<Rightarrow> Inl e
         | Inr c \<Rightarrow> Inr (c, mode)))"

definition helpMode :: "string list \<Rightarrow> runMode option" where
  "helpMode args =
     (if list_ex (\<lambda>a. a \<in> {''-h'', ''--help'', ''-help''}) args
      then Some (case find isRunMode args of Some a \<Rightarrow> the (runMode_of a) | None \<Rightarrow> ModeProtocol) else None)"

text \<open>What \<open>run\<close> goes on to do, before any of it happens; profiling is left out.\<close>

datatype run_action =
  WriteHelp runMode | Refuse cli_error | CleanCache config | PruneCache config | WriteStatus config | ServeProtocol config

definition dispatch :: "host \<Rightarrow> bool \<Rightarrow> string list \<Rightarrow> run_action" where
  "dispatch h stdoutIsTerminal args =
     (case helpMode args of Some m \<Rightarrow> WriteHelp m | None \<Rightarrow>
     (case parseRunArgs h args of Inl e \<Rightarrow> Refuse e
      | Inr (c, mode) \<Rightarrow>
          (case mode of
             ModeClean \<Rightarrow> CleanCache c
           | ModePrune \<Rightarrow> PruneCache c
           | ModeStatus \<Rightarrow> WriteStatus c
           | ModeProtocol \<Rightarrow> if stdoutIsTerminal then WriteHelp ModeProtocol else ServeProtocol c)))"

text \<open>\<open>main\<close>: the usage shown with an error, if any, and the exit status.\<close>

definition main_error :: "cli_error \<Rightarrow> runMode option \<times> nat" where
  "main_error e = (case e of UsageError m _ \<Rightarrow> (Some m, 2) | _ \<Rightarrow> (None, 1))"

end
