(* ===== verification/Setting_Laws.thy ===== *)
theory Setting_Laws
  imports Settings
begin

text \<open>
  Which source a setting is taken from, the range settings have, and that a flag sets the setting
  it is named for, however it is written.
\<close>

section \<open>Where a setting comes from\<close>

definition chosen :: "'a option list \<Rightarrow> 'a \<Rightarrow> 'a" where
  "chosen sources def = (case find (\<lambda>x. x \<noteq> None) sources of Some (Some x) \<Rightarrow> x | _ \<Rightarrow> def)"

lemma chosen_simps [simp]:
  "chosen [] def = def" "chosen (Some x # xs) def = x" "chosen (None # xs) def = chosen xs def"
  by (simp_all add: chosen_def)

text \<open>The config file that applies: none without a name, or when an optional one is absent.\<close>

definition config_file :: "host \<Rightarrow> rawFlags \<Rightarrow> string list \<Rightarrow> err + fileConfig option" where
  "config_file h raw visited =
     (if rf_config raw = [] then Inr None
      else readConfigFile h (rf_config raw) (snd (defaultConfigPath h) \<or> ''config'' \<in> set visited))"

definition from_file :: "fileConfig option \<Rightarrow> (fileConfig \<Rightarrow> 'a option) \<Rightarrow> 'a option" where
  "from_file fc field = (case fc of None \<Rightarrow> None | Some f \<Rightarrow> field f)"

lemma ordie_Inr: "ordie r f = Inr y \<longleftrightarrow> (\<exists>x. r = Inr x \<and> f x = Inr y)"
  by (simp add: ordie_def split: sum.split)

lemma ortell_Inr: "ortell k r f = Inr y \<longleftrightarrow> (\<exists>x. r = Inr x \<and> f x = Inr y)"
  by (simp add: ortell_def split: sum.split)

lemma wrapped_Inr: "wrapped m r = Inr y \<longleftrightarrow> r = Inr y"
  by (simp add: wrapped_def split: sum.split)

lemma override_Inr:
  "override what parse upd v d = Inr d' \<longleftrightarrow> (case v of None \<Rightarrow> d' = d | Some s \<Rightarrow> \<exists>x. parse s = Inr x \<and> d' = upd x d)"
  by (auto simp: override_def ordie_Inr wrapped_Inr split: option.split)

lemmas settled = ordie_Inr ortell_Inr wrapped_Inr override_Inr

named_theorems draft_simps

lemma draft_fields [draft_simps]:
  "fst (with_dir s d) = s" "snd (with_dir s d) = snd d"
  "fst (with_maxSize n d) = fst d" "snd (with_maxSize n d) = (snd d)\<lparr>maxSize := n\<rparr>"
  "fst (with_maxAge n d) = fst d" "snd (with_maxAge n d) = (snd d)\<lparr>maxAge := n\<rparr>"
  "fst (with_maxRetainedAge n d) = fst d" "snd (with_maxRetainedAge n d) = (snd d)\<lparr>maxRetainedAge := n\<rparr>"
  "fst (with_verbose b d) = fst d" "snd (with_verbose b d) = (snd d)\<lparr>verbose := b\<rparr>"
  by (simp_all add: with_dir_def with_maxSize_def with_maxAge_def with_maxRetainedAge_def with_verbose_def)

definition set_by :: "(string \<Rightarrow> err + 'a) \<Rightarrow> string option \<Rightarrow> 'a \<Rightarrow> 'a \<Rightarrow> bool" where
  "set_by parse v before after \<longleftrightarrow> (case v of None \<Rightarrow> after = before | Some s \<Rightarrow> parse s = Inr after)"

text \<open>What no layer changes: these come from the flags alone.\<close>

definition flags_only :: "draft \<Rightarrow> bool \<times> string \<times> string" where
  "flags_only d = (types (snd d), cpuProfile (snd d), memProfile (snd d))"

text \<open>What one layer does to a draft, given what it says of each setting.\<close>

definition layered ::
  "host \<Rightarrow> string option \<Rightarrow> string option \<Rightarrow> string option \<Rightarrow> string option \<Rightarrow> bool option \<Rightarrow> draft \<Rightarrow> draft \<Rightarrow> bool" where
  "layered h dirName sz age ret verb d d' \<longleftrightarrow>
     fst d' = chosen [dirName] (fst d) \<and> set_by (parseSize (hs_convert h)) sz (maxSize (snd d)) (maxSize (snd d')) \<and>
     set_by (parseAge (hs_convert h)) age (maxAge (snd d)) (maxAge (snd d')) \<and>
     set_by (parseAge (hs_convert h)) ret (maxRetainedAge (snd d)) (maxRetainedAge (snd d')) \<and>
     verbose (snd d') = chosen [verb] (verbose (snd d)) \<and> flags_only d' = flags_only d"

lemma override_steps:
  "override m Inr with_dir v d = Inr d' \<Longrightarrow> fst d' = chosen [v] (fst d) \<and> snd d' = snd d \<and> flags_only d' = flags_only d"
  "override m parse with_maxSize v d = Inr d' \<Longrightarrow> fst d' = fst d \<and> set_by parse v (maxSize (snd d)) (maxSize (snd d')) \<and>
     maxAge (snd d') = maxAge (snd d) \<and> maxRetainedAge (snd d') = maxRetainedAge (snd d) \<and> verbose (snd d') = verbose (snd d) \<and>
     flags_only d' = flags_only d"
  "override m parse with_maxAge v d = Inr d' \<Longrightarrow> fst d' = fst d \<and> set_by parse v (maxAge (snd d)) (maxAge (snd d')) \<and>
     maxSize (snd d') = maxSize (snd d) \<and> maxRetainedAge (snd d') = maxRetainedAge (snd d) \<and> verbose (snd d') = verbose (snd d) \<and>
     flags_only d' = flags_only d"
  "override m parse with_maxRetainedAge v d = Inr d' \<Longrightarrow> fst d' = fst d \<and>
     set_by parse v (maxRetainedAge (snd d)) (maxRetainedAge (snd d')) \<and>
     maxSize (snd d') = maxSize (snd d) \<and> maxAge (snd d') = maxAge (snd d) \<and> verbose (snd d') = verbose (snd d) \<and>
     flags_only d' = flags_only d"
  by (cases v; auto simp: override_Inr draft_simps set_by_def flags_only_def)+

lemma layer:
  assumes "override m1 Inr with_dir v1 d0 = Inr d1" "override m2 (parseSize (hs_convert h)) with_maxSize v2 d1 = Inr d2"
    "override m3 (parseAge (hs_convert h)) with_maxAge v3 d2 = Inr d3"
    "override m4 (parseAge (hs_convert h)) with_maxRetainedAge v4 d3 = Inr d4"
    "d5 = (case v5 of None \<Rightarrow> d4 | Some b \<Rightarrow> with_verbose b d4)"
  shows "layered h v1 v2 v3 v4 v5 d0 d5"
proof -
  have v: "fst d5 = fst d4" "maxSize (snd d5) = maxSize (snd d4)" "maxAge (snd d5) = maxAge (snd d4)"
    "maxRetainedAge (snd d5) = maxRetainedAge (snd d4)" "verbose (snd d5) = chosen [v5] (verbose (snd d4))" "flags_only d5 = flags_only d4"
    using assms(5) by (cases v5; simp add: draft_simps flags_only_def)+
  show ?thesis
    unfolding layered_def v
    using override_steps(1) [OF assms(1)] override_steps(2) [OF assms(2)] override_steps(3) [OF assms(3)] override_steps(4) [OF assms(4)]
    by simp
qed

lemma layered_file:
  "applyFileConfig h fc d = Inr d' \<Longrightarrow>
   layered h (fc_CacheDir fc) (fc_MaxSize fc) (fc_MaxAge fc) (fc_MaxRetainedAge fc) (fc_Verbose fc) d d'"
  unfolding applyFileConfig_def ordie_Inr by (elim exE conjE, rule layer, assumption+, simp)

lemma layered_env:
  "applyEnv h d = Inr d' \<Longrightarrow> layered h (getenv h ''GOCACHEZ_DIR'') (getenv h ''GOCACHEZ_MAX_SIZE'') (getenv h ''GOCACHEZ_MAX_AGE'')
     (getenv h ''GOCACHEZ_MAX_RETAINED_AGE'') (Option.bind (getenv h ''GOCACHEZ_VERBOSE'') parseBool) d d'"
  unfolding applyEnv_def ordie_Inr
  by (elim exE conjE, rule layer, assumption+)
    (auto simp: override_Inr parse_verbose_def split: option.splits)

lemma layered_flags:
  "applyFlags h raw visited d = Inr d' \<Longrightarrow>
   layered h (given visited ''dir'' (rf_dir raw)) (given visited ''max-size'' (rf_maxSize raw))
     (given visited ''max-age'' (rf_maxAge raw)) (given visited ''max-retained-age'' (rf_maxRetainedAge raw))
     (given visited ''v'' (rf_v raw)) d d'"
  unfolding applyFlags_def ordie_Inr by (elim exE conjE, rule layer, assumption+, simp)

lemma layered_none: "layered h None None None None None d d"
  by (simp add: layered_def set_by_def)

lemma layered_chain:
  assumes "layered h a1 a2 a3 a4 a5 d0 d1" "layered h b1 b2 b3 b4 b5 d1 d2" "layered h c1 c2 c3 c4 c5 d2 d3"
    and "parseSize (hs_convert h) s0 = Inr (maxSize (snd d0))" "parseAge (hs_convert h) t0 = Inr (maxAge (snd d0))"
      "parseAge (hs_convert h) u0 = Inr (maxRetainedAge (snd d0))"
  shows "fst d3 = chosen [c1, b1, a1] (fst d0)"
    "parseSize (hs_convert h) (chosen [c2, b2, a2] s0) = Inr (maxSize (snd d3))"
    "parseAge (hs_convert h) (chosen [c3, b3, a3] t0) = Inr (maxAge (snd d3))"
    "parseAge (hs_convert h) (chosen [c4, b4, a4] u0) = Inr (maxRetainedAge (snd d3))"
    "verbose (snd d3) = chosen [c5, b5, a5] (verbose (snd d0))" "flags_only d3 = flags_only d0"
proof -
  show "flags_only d3 = flags_only d0" using assms(1-3) by (simp add: layered_def)
  show "fst d3 = chosen [c1, b1, a1] (fst d0)" using assms(1-3) by (cases a1; cases b1; cases c1) (simp_all add: layered_def set_by_def)
  show "parseSize (hs_convert h) (chosen [c2, b2, a2] s0) = Inr (maxSize (snd d3))"
    using assms(1-4) by (cases a2; cases b2; cases c2) (simp_all add: layered_def set_by_def)
  show "parseAge (hs_convert h) (chosen [c3, b3, a3] t0) = Inr (maxAge (snd d3))"
    using assms(1-3,5) by (cases a3; cases b3; cases c3) (simp_all add: layered_def set_by_def)
  show "parseAge (hs_convert h) (chosen [c4, b4, a4] u0) = Inr (maxRetainedAge (snd d3))"
    using assms(1-3,6) by (cases a4; cases b4; cases c4) (simp_all add: layered_def set_by_def)
  show "verbose (snd d3) = chosen [c5, b5, a5] (verbose (snd d0))"
    using assms(1-3) by (cases a5; cases b5; cases c5) (simp_all add: layered_def set_by_def)
qed

lemma default_ages: "parseAge conv ''5d'' = Inr defaultMaxAge" "parseAge conv ''0'' = Inr 0"
proof -
  have "itoa 5 = ''5''" by (simp add: itoa.simps mk_byte_def char_of_def bit_numeral_rec bit_Suc_0_iff)
  with parseAge_days [of 5 conv] show "parseAge conv ''5d'' = Inr defaultMaxAge"
    by (simp add: day_nanos_def defaultMaxAge_def)
  have "trim_space ''0'' = ''0''" by (rule trim_space_graphic) (simp_all add: graphic_def byte_val_def)
  then show "parseAge conv ''0'' = Inr 0" by (simp add: parseAge_def Let_def)
qed

lemma parse_settled:
  assumes "parseFlagOperands h args = Inr (c, operands)"
  shows "\<exists>raw visited fc cache.
    flag_parse args (no_flags (fst (defaultConfigPath h))) [] = Inr (raw, visited, operands) \<and>
    config_file h raw visited = Inr fc \<and> hs_userCacheDir h = Inr cache \<and>
    filepath_abs h (chosen [given visited ''dir'' (rf_dir raw), getenv h ''GOCACHEZ_DIR'', from_file fc fc_CacheDir]
      (filepath_join [cache, ''gocachez''])) = Inr (dir c) \<and>
    parseSize (hs_convert h) (chosen [given visited ''max-size'' (rf_maxSize raw), getenv h ''GOCACHEZ_MAX_SIZE'',
      from_file fc fc_MaxSize] ''20GiB'') = Inr (maxSize c) \<and>
    parseAge (hs_convert h) (chosen [given visited ''max-age'' (rf_maxAge raw), getenv h ''GOCACHEZ_MAX_AGE'',
      from_file fc fc_MaxAge] ''5d'') = Inr (maxAge c) \<and>
    parseAge (hs_convert h) (chosen [given visited ''max-retained-age'' (rf_maxRetainedAge raw),
      getenv h ''GOCACHEZ_MAX_RETAINED_AGE'', from_file fc fc_MaxRetainedAge] ''0'') = Inr (maxRetainedAge c) \<and>
    verbose c = chosen [given visited ''v'' (rf_v raw), Option.bind (getenv h ''GOCACHEZ_VERBOSE'') parseBool,
      from_file fc fc_Verbose] False \<and> types c = rf_types raw \<and> cpuProfile c = rf_cpuprofile raw \<and> memProfile c = rf_memprofile raw"
proof -
  obtain d0 where d0: "defaultConfig h = Inr d0" by (use assms in \<open>auto simp: parseFlagOperands_def ortell_Inr\<close>)
  obtain dirName c0 where dc: "d0 = (dirName, c0)" by fastforce
  obtain p required where p: "defaultConfigPath h = (p, required)" by fastforce
  note parse = assms [unfolded parseFlagOperands_def d0 dc p prod.case ortell_Inr Let_def, simplified]
  obtain raw visited where raw: "flag_parse args (no_flags p) [] = Inr (raw, visited, operands)"
    using parse by (auto simp: ortell_Inr split: prod.splits)
  let ?c = "c0\<lparr>types := rf_types raw, cpuProfile := rf_cpuprofile raw, memProfile := rf_memprofile raw\<rparr>"
  obtain d1 d2 d3 where
    d1: "(if rf_config raw = [] then Inr (dirName, ?c)
        else applyConfigFile h (rf_config raw) (required \<or> ''config'' \<in> set visited) (dirName, ?c)) = Inr d1"
    and d2: "applyEnv h d1 = Inr d2" and d3: "applyFlags h raw visited d2 = Inr d3"
    and abs: "filepath_abs h (fst d3) = Inr (dir c)" and c: "c = (snd d3)\<lparr>dir := dir c\<rparr>"
    using parse raw by (auto simp: ortell_Inr wrapped_Inr split: prod.splits)
  have applied: "\<exists>fc. config_file h raw visited = Inr fc \<and> layered h (from_file fc fc_CacheDir) (from_file fc fc_MaxSize)
      (from_file fc fc_MaxAge) (from_file fc fc_MaxRetainedAge) (from_file fc fc_Verbose) (dirName, ?c) d1"
  proof (cases "rf_config raw = []")
    case True
    with d1 show ?thesis by (auto simp: config_file_def from_file_def layered_none)
  next
    case False
    with d1 obtain fc where fc: "config_file h raw visited = Inr fc"
      and d1: "(case fc of None \<Rightarrow> Inr (dirName, ?c) | Some fc \<Rightarrow> applyFileConfig h fc (dirName, ?c)) = Inr d1"
      by (auto simp: applyConfigFile_def ordie_Inr config_file_def p)
    then show ?thesis by (cases fc) (auto simp: from_file_def layered_none dest: layered_file)
  qed
  then obtain fc where fc: "config_file h raw visited = Inr fc" and l: "layered h (from_file fc fc_CacheDir) (from_file fc fc_MaxSize)
      (from_file fc fc_MaxAge) (from_file fc fc_MaxRetainedAge) (from_file fc fc_Verbose) (dirName, ?c) d1" by blast
  obtain cache where cache: "hs_userCacheDir h = Inr cache" "dirName = filepath_join [cache, ''gocachez'']"
    and sz: "parseSize (hs_convert h) ''20GiB'' = Inr (maxSize c0)"
    and c0: "maxAge c0 = defaultMaxAge" "maxRetainedAge c0 = 0" "verbose c0 = False"
    using d0 by (auto simp: dc defaultConfig_def ordie_Inr wrapped_Inr)
  note all = layered_chain [OF l layered_env [OF d2] layered_flags [OF d3], of "''20GiB''" "''5d''" "''0''"]
  from all abs c fc cache sz c0 raw p default_ages show ?thesis
    by (intro exI [of _ raw] exI [of _ visited] exI [of _ fc] exI [of _ cache]) (cases c, simp add: flags_only_def)
qed

text \<open>
  C32. Settings take their value from the most specific place that gives one: the flag, then the
  environment, then the config file, then the default. Whenever parsing succeeds, each setting of
  the resulting config is the parse of exactly that text.
\<close>

theorem settings_precedence:
  assumes "parseFlagOperands h args = Inr (c, operands)"
  shows "\<exists>raw visited fc cache.
    flag_parse args (no_flags (fst (defaultConfigPath h))) [] = Inr (raw, visited, operands) \<and>
    config_file h raw visited = Inr fc \<and> hs_userCacheDir h = Inr cache \<and>
    filepath_abs h (chosen [given visited ''dir'' (rf_dir raw), getenv h ''GOCACHEZ_DIR'', from_file fc fc_CacheDir]
      (filepath_join [cache, ''gocachez''])) = Inr (dir c) \<and>
    parseSize (hs_convert h) (chosen [given visited ''max-size'' (rf_maxSize raw), getenv h ''GOCACHEZ_MAX_SIZE'',
      from_file fc fc_MaxSize] ''20GiB'') = Inr (maxSize c) \<and>
    parseAge (hs_convert h) (chosen [given visited ''max-age'' (rf_maxAge raw), getenv h ''GOCACHEZ_MAX_AGE'',
      from_file fc fc_MaxAge] ''5d'') = Inr (maxAge c) \<and>
    parseAge (hs_convert h) (chosen [given visited ''max-retained-age'' (rf_maxRetainedAge raw),
      getenv h ''GOCACHEZ_MAX_RETAINED_AGE'', from_file fc fc_MaxRetainedAge] ''0'') = Inr (maxRetainedAge c) \<and>
    verbose c = chosen [given visited ''v'' (rf_v raw), Option.bind (getenv h ''GOCACHEZ_VERBOSE'') parseBool,
      from_file fc fc_Verbose] False \<and> types c = rf_types raw"
  using parse_settled [OF assms] by blast

definition demo_host :: host where
  "demo_host = \<lparr>hs_env = (\<lambda>n. if n = ''GOCACHEZ_MAX_AGE'' then ''5d'' else []),
     hs_userCacheDir = Inr ''/home/u/.cache'', hs_userConfigDir = Inl (Msg ''no config dir''), hs_getwd = Inr [''home'', ''u''],
     hs_readFile = (\<lambda>_. Inl ErrNotExist), hs_decode = (\<lambda>_. Inl (Msg ''unexpected end of JSON input'')),
     hs_convert = (\<lambda>_. min_i64)\<rparr>"

lemma parse_sizes: "parseSize conv ''20GiB'' = Inr (20 * 2 ^ 30)" "parseSize conv ''7k'' = Inr (7 * 2 ^ 10)"
proof -
  have i: "itoa 7 = ''7''" "itoa 2 = ''2''" "itoa 20 = ''20''"
    by (simp_all add: itoa.simps unit_simps)
  show "parseSize conv ''20GiB'' = Inr (20 * 2 ^ 30)"
    using parseSize_number [of 20 "''GiB''" "2 ^ 30" conv] i by (simp add: unit_simps sizeUnits_def in_i64_def min_i64_def max_i64_def)
  show "parseSize conv ''7k'' = Inr (7 * 2 ^ 10)"
    using parseSize_number [of 7 "''k''" "2 ^ 10" conv] i by (simp add: unit_simps sizeUnits_def in_i64_def min_i64_def max_i64_def)
qed

lemma demo_parse:
  obtains c where "parseFlagOperands demo_host [''-max-size'', ''7k'', ''-v'', ''x''] = Inr (c, [''x''])"
proof -
  have "\<exists>c. parseFlagOperands demo_host [''-max-size'', ''7k'', ''-v'', ''x''] = Inr (c, [''x''])"
    by (simp add: parseFlagOperands_def ortell_def defaultConfig_def ordie_def wrapped_def demo_host_def parse_sizes defaultConfigPath_def
        no_flags_def bindFlags_def cut_value_def parseBool_def applyEnv_def applyFlags_def override_def getenv_def given_def
        default_ages filepath_abs_def filepath_join_def filepath_clean_def is_abs_def Let_def with_maxAge_def with_maxSize_def
        with_verbose_def)
  then show thesis using that by blast
qed

theorem settings_precedence_witness:
  "\<exists>c. parseFlagOperands demo_host [''-max-size'', ''7k'', ''-v'', ''x''] = Inr (c, [''x'']) \<and> maxSize c = 7168 \<and>
     maxAge c = defaultMaxAge \<and> verbose c"
proof -
  obtain c where c: "parseFlagOperands demo_host [''-max-size'', ''7k'', ''-v'', ''x''] = Inr (c, [''x''])"
    by (rule demo_parse)
  from settings_precedence [OF c] have "maxSize c = 7168 \<and> maxAge c = defaultMaxAge \<and> verbose c"
    by (auto simp: demo_host_def getenv_def given_def defaultConfigPath_def no_flags_def bindFlags_def cut_value_def parseBool_def
        config_file_def from_file_def parse_sizes default_ages)
  with c show ?thesis by blast
qed

section \<open>The range of the settings\<close>

lemma f64_to_i64_range: "(\<And>x. in_i64 (conv x)) \<Longrightarrow> in_i64 (f64_to_i64 conv y)"
  by (auto simp: f64_to_i64_def split: float64.split)

lemma parseSize_range: "(\<And>x. in_i64 (conv x)) \<Longrightarrow> parseSize conv s = Inr n \<Longrightarrow> in_i64 n"
  by (auto simp: parseSize_def Let_def f64_to_i64_range split: if_splits prod.splits sum.splits option.splits)
    (simp add: in_i64_def min_i64_def max_i64_def)

lemma ParseDuration_range: "ParseDuration s = Inr d \<Longrightarrow> d \<le> max_i64"
  by (auto simp: ParseDuration_def invalid_duration_def two63_def max_i64_def split: if_splits prod.splits sum.splits)
    (use in_i64_i64 in \<open>fastforce simp: in_i64_def max_i64_def\<close>)

lemma parseAge_range: "(\<And>x. in_i64 (conv x)) \<Longrightarrow> parseAge conv s = Inr d \<Longrightarrow> 0 \<le> d \<and> in_i64 d"
  by (auto simp: parseAge_def Let_def f64_to_i64_range split: if_splits sum.splits option.splits dest!: ParseDuration_range)
    (auto simp: in_i64_def min_i64_def max_i64_def)

text \<open>
  C33. The settings are well typed. On a machine that converts floats to int64 values, whatever the
  command line, environment and config file say, parsing either fails or gives a size and ages
  that an int64 holds, and no age, in particular none that retained files are expired by, is
  negative.
\<close>

theorem settings_in_range:
  assumes "parseFlagOperands h args = Inr (c, operands)" "\<And>x. in_i64 (hs_convert h x)"
  shows "in_i64 (maxSize c) \<and> in_i64 (maxAge c) \<and> in_i64 (maxRetainedAge c) \<and> 0 \<le> maxAge c \<and> 0 \<le> maxRetainedAge c \<and>
    0 \<le> retainedAge c"
proof -
  from parse_settled [OF assms(1)] obtain s t u where
    p: "parseSize (hs_convert h) s = Inr (maxSize c)" "parseAge (hs_convert h) t = Inr (maxAge c)"
    "parseAge (hs_convert h) u = Inr (maxRetainedAge c)"
    by blast
  from parseSize_range [OF assms(2) p(1)] parseAge_range [OF assms(2) p(2)] parseAge_range [OF assms(2) p(3)]
  show ?thesis by (simp add: retainedAge_def)
qed

theorem settings_in_range_witness:
  "\<exists>c. parseFlagOperands demo_host [''-max-size'', ''7k'', ''-v'', ''x''] = Inr (c, [''x'']) \<and> 0 \<le> retainedAge c \<and> in_i64 (maxSize c)"
proof -
  obtain c where c: "parseFlagOperands demo_host [''-max-size'', ''7k'', ''-v'', ''x''] = Inr (c, [''x''])"
    by (rule demo_parse)
  have "in_i64 (hs_convert demo_host x)" for x by (simp add: demo_host_def in_i64_def min_i64_def max_i64_def)
  with settings_in_range [OF c] c show ?thesis by blast
qed

section \<open>Spelling flags\<close>

text \<open>
  A flag as it can be written, with one dash or two: its value in the next argument, joined by an
  equals sign, or, for a switch, left to be true.
\<close>

datatype spelling = Apart bool | Joined bool | Bare bool

fun spell :: "spelling \<times> string \<times> string \<Rightarrow> string list" where
  "spell (Apart long, n, v) = [(if long then ''--'' else ''-'') @ n, v]"
| "spell (Joined long, n, v) = [(if long then ''--'' else ''-'') @ n @ CHR ''='' # v]"
| "spell (Bare long, n, v) = [(if long then ''--'' else ''-'') @ n]"

definition text_flags :: "string list" where
  "text_flags = [''config'', ''dir'', ''max-size'', ''max-age'', ''max-retained-age'', ''cpuprofile'', ''memprofile'']"

definition switches :: "string list" where
  "switches = [''v'', ''types'']"

fun well_spelled :: "spelling \<times> string \<times> string \<Rightarrow> bool" where
  "well_spelled (Apart _, n, v) = (n \<in> set text_flags)"
| "well_spelled (Joined _, n, v) = (n \<in> set text_flags \<or> n \<in> set switches \<and> parseBool v \<noteq> None)"
| "well_spelled (Bare _, n, v) = (n \<in> set switches \<and> v = ''true'')"

text \<open>The value a flag has in the end: the last one given.\<close>

definition last_given :: "(spelling \<times> string \<times> string) list \<Rightarrow> string \<Rightarrow> string option" where
  "last_given fs = map_of (rev (map snd fs))"

fun set_named :: "string \<times> string \<Rightarrow> rawFlags \<Rightarrow> rawFlags" where
  "set_named (n, v) raw =
     (case map_of bindFlags n of
        None \<Rightarrow> raw
      | Some (StringVar g) \<Rightarrow> g v raw
      | Some (BoolVar g) \<Rightarrow> (case parseBool v of None \<Rightarrow> raw | Some b \<Rightarrow> g b raw))"

definition flag_name :: "string \<Rightarrow> bool" where
  "flag_name n \<longleftrightarrow> n \<noteq> [] \<and> hd n \<noteq> CHR ''-'' \<and> CHR ''='' \<notin> set n"

lemma well_spelled_name: "well_spelled (sp, n, v) \<Longrightarrow> flag_name n"
  by (cases sp) (auto simp: text_flags_def switches_def flag_name_def)

lemma bound_text: "n \<in> set text_flags \<Longrightarrow> \<exists>g. map_of bindFlags n = Some (StringVar g)"
  by (auto simp: text_flags_def bindFlags_def)

lemma bound_switch: "n \<in> set switches \<Longrightarrow> \<exists>g. map_of bindFlags n = Some (BoolVar g)"
  by (auto simp: switches_def bindFlags_def)

lemma cut_value_plain: "flag_name n \<Longrightarrow> cut_value n = (n, None)"
proof -
  assume n: "flag_name n"
  then obtain c cs where cs: "n = c # cs" by (auto simp: flag_name_def neq_Nil_conv)
  with n have "\<forall>x\<in>set cs. x \<noteq> CHR ''=''" by (auto simp: flag_name_def)
  then have "length (takeWhile (\<lambda>c. c \<noteq> CHR ''='') cs) = length cs" by (simp only: takeWhile_eq_all_conv [THEN iffD2])
  with cs show ?thesis by (simp add: cut_value_def Let_def)
qed

lemma cut_value_joined: "flag_name n \<Longrightarrow> cut_value (n @ CHR ''='' # v) = (n, Some v)"
proof -
  assume n: "flag_name n"
  then obtain c cs where cs: "n = c # cs" by (auto simp: flag_name_def neq_Nil_conv)
  with n have "takeWhile (\<lambda>c. c \<noteq> CHR ''='') (cs @ CHR ''='' # v) = cs"
    by (subst takeWhile_append2) (auto simp: flag_name_def)
  with cs show ?thesis by (simp add: cut_value_def Let_def)
qed

lemma flag_parse_spelled:
  assumes "well_spelled (sp, n, v)"
  shows "flag_parse (spell (sp, n, v) @ args) raw visited = flag_parse args (set_named (n, v) raw) (n # visited)"
proof -
  have n: "flag_name n" by (rule well_spelled_name [OF assms])
  then obtain c cs where cs: "n = c # cs" "c \<noteq> CHR ''-''" "c \<noteq> CHR ''=''" by (auto simp: flag_name_def neq_Nil_conv)
  note cut = cut_value_plain [OF n] cut_value_joined [OF n, of v]
  note step = flag_parse.simps(2) [where raw = raw and visited = visited]
  have true: "parseBool ''true'' = Some True" by (simp add: parseBool_def)
  show ?thesis
  proof (cases sp)
    case (Apart long)
    with assms bound_text obtain g where "map_of bindFlags n = Some (StringVar g)" by auto
    with Apart show ?thesis
      using step [of "''--'' @ n" "v # args"] step [of "''-'' @ n" "v # args"] cut cs
      by (cases long) (simp_all del: flag_parse.simps add: Let_def)
  next
    case (Joined long)
    note st = step [of "''--'' @ n @ CHR ''='' # v" args] step [of "''-'' @ n @ CHR ''='' # v" args]
    from Joined assms consider (str) "n \<in> set text_flags" | (bool) b where "n \<in> set switches" "parseBool v = Some b" by auto
    then show ?thesis
    proof cases
      case str
      with bound_text obtain g where "map_of bindFlags n = Some (StringVar g)" by blast
      with Joined show ?thesis using st cut cs by (cases long) (simp_all del: flag_parse.simps add: Let_def)
    next
      case bool
      with bound_switch obtain g where "map_of bindFlags n = Some (BoolVar g)" by blast
      with bool Joined show ?thesis using st cut cs by (cases long) (simp_all del: flag_parse.simps add: Let_def)
    qed
  next
    case (Bare long)
    with assms bound_switch obtain g where "map_of bindFlags n = Some (BoolVar g)" by auto
    with Bare assms true show ?thesis
      using step [of "''--'' @ n" args] step [of "''-'' @ n" args] cut cs
      by (cases long) (simp_all del: flag_parse.simps add: Let_def)
  qed
qed

lemma flag_parse_spellings:
  assumes "list_all well_spelled fs" "operands = [] \<or> hd operands = [] \<or> hd (hd operands) \<noteq> CHR ''-''"
  shows "flag_parse (concat (map spell fs) @ operands) raw visited =
    Inr (fold set_named (map snd fs) raw, rev (map (fst \<circ> snd) fs) @ visited, operands)"
  using assms(1)
proof (induction fs arbitrary: raw visited)
  case Nil
  show ?case using assms(2) by (cases operands) auto
next
  case (Cons f fs)
  obtain sp n v where f: "f = (sp, n, v)" by (metis prod_cases3)
  with Cons.prems have t: "well_spelled (sp, n, v)" "list_all well_spelled fs" by simp_all
  show ?case
    using Cons.IH [OF t(2)] flag_parse_spelled [OF t(1), of "concat (map spell fs) @ operands"] by (simp add: f)
qed

text \<open>What the flags bound by \<open>bindFlags\<close> set: each its own field.\<close>

lemma set_named_text:
  "rf_config (set_named (n, v) raw) = (if n = ''config'' then v else rf_config raw)"
  "rf_dir (set_named (n, v) raw) = (if n = ''dir'' then v else rf_dir raw)"
  "rf_maxSize (set_named (n, v) raw) = (if n = ''max-size'' then v else rf_maxSize raw)"
  "rf_maxAge (set_named (n, v) raw) = (if n = ''max-age'' then v else rf_maxAge raw)"
  "rf_maxRetainedAge (set_named (n, v) raw) = (if n = ''max-retained-age'' then v else rf_maxRetainedAge raw)"
  "rf_cpuprofile (set_named (n, v) raw) = (if n = ''cpuprofile'' then v else rf_cpuprofile raw)"
  "rf_memprofile (set_named (n, v) raw) = (if n = ''memprofile'' then v else rf_memprofile raw)"
  by (simp_all add: bindFlags_def split: option.split)

lemma set_named_switch:
  "rf_v (set_named (n, v) raw) = (if n = ''v'' then (case parseBool v of None \<Rightarrow> rf_v raw | Some b \<Rightarrow> b) else rf_v raw)"
  "rf_types (set_named (n, v) raw) = (if n = ''types'' then (case parseBool v of None \<Rightarrow> rf_types raw | Some b \<Rightarrow> b) else rf_types raw)"
  by (simp_all add: bindFlags_def split: option.split)

lemma last_wins:
  assumes "\<And>n v raw. field (set_named (n, v) raw) = (if n = name then v else field raw)"
  shows "field (fold set_named xs raw) = (case map_of (rev xs) name of None \<Rightarrow> field raw | Some s \<Rightarrow> s)"
proof (induction xs rule: rev_induct)
  case (snoc x xs)
  then show ?case by (cases x) (simp add: assms del: set_named.simps)
qed simp

lemmas last_text = set_named_text [THEN last_wins]

lemma last_switch_wins:
  assumes "\<And>n v raw. field (set_named (n, v) raw) =
      (if n = name then (case parseBool v of None \<Rightarrow> field raw | Some b \<Rightarrow> b) else field raw)"
    and "list_all (\<lambda>(n, v). n = name \<longrightarrow> parseBool v \<noteq> None) xs"
  shows "case map_of (rev xs) name of None \<Rightarrow> field (fold set_named xs raw) = field raw
    | Some s \<Rightarrow> parseBool s = Some (field (fold set_named xs raw))"
  using assms(2)
proof (induction xs rule: rev_induct)
  case (snoc x xs)
  then have "case map_of (rev xs) name of None \<Rightarrow> field (fold set_named xs raw) = field raw
    | Some s \<Rightarrow> parseBool s = Some (field (fold set_named xs raw))" by simp
  with snoc.prems show ?case
    by (cases x) (auto simp: assms(1) simp del: set_named.simps split: option.split)
qed simp

lemma last_given_named:
  assumes "visited = rev (map (fst \<circ> snd) fs)"
  shows "given visited n (case last_given fs n of None \<Rightarrow> x | Some s \<Rightarrow> s) = last_given fs n"
    "last_given fs n = Some s \<Longrightarrow> n \<in> set visited" "last_given fs n = None \<Longrightarrow> given visited n y = None"
    "last_given fs n = Some s \<Longrightarrow> given visited n y = Some y"
proof -
  have "n \<in> set visited \<longleftrightarrow> last_given fs n \<noteq> None"
    unfolding assms last_given_def map_of_eq_None_iff by force
  then show "given visited n (case last_given fs n of None \<Rightarrow> x | Some s \<Rightarrow> s) = last_given fs n"
    "last_given fs n = Some s \<Longrightarrow> n \<in> set visited" "last_given fs n = None \<Longrightarrow> given visited n y = None"
    "last_given fs n = Some s \<Longrightarrow> given visited n y = Some y"
    by (auto simp: given_def split: option.split)
qed

lemma switch_given:
  assumes "list_all well_spelled fs" "name \<in> set switches"
  shows "list_all (\<lambda>(n, v). n = name \<longrightarrow> parseBool v \<noteq> None) (map snd fs)"
proof -
  have "parseBool v \<noteq> None" if "(sp, name, v) \<in> set fs" for sp v
  proof -
    from that assms(1) have "well_spelled (sp, name, v)" by (auto simp: list_all_iff)
    moreover have "name \<notin> set text_flags" "parseBool ''true'' = Some True"
      using assms(2) by (auto simp: text_flags_def switches_def parseBool_def)
    ultimately show ?thesis by (cases sp) simp_all
  qed
  then have "list_all (\<lambda>(sp, n, v). n = name \<longrightarrow> parseBool v \<noteq> None) fs" by (auto simp: list_all_iff)
  then show ?thesis by (simp add: list.pred_map comp_def case_prod_unfold)
qed

text \<open>
  C34. A flag sets the setting it is named for, however it is written. Take any list of the
  program's flags, each with one dash or two, its value joined by an equals sign or in the next
  argument, a switch with a value or without, and after them the operands. When the command line
  is accepted, exactly the operands are left; the directory, the size budget, the two ages and the
  verbosity are those the last flag of that name spells, whatever the environment and the config
  file say; the profiles and \<open>-types\<close> are what the flags say or off; and a config file named by a
  flag was read.
\<close>

theorem flags_set_settings:
  assumes "list_all well_spelled fs" "operands = [] \<or> hd operands = [] \<or> hd (hd operands) \<noteq> CHR ''-''"
    "parseFlagOperands h (concat (map spell fs) @ operands) = Inr (c, rest)"
  shows "rest = operands \<and>
    (\<forall>s. last_given fs ''dir'' = Some s \<longrightarrow> filepath_abs h s = Inr (dir c)) \<and>
    (\<forall>s. last_given fs ''max-size'' = Some s \<longrightarrow> parseSize (hs_convert h) s = Inr (maxSize c)) \<and>
    (\<forall>s. last_given fs ''max-age'' = Some s \<longrightarrow> parseAge (hs_convert h) s = Inr (maxAge c)) \<and>
    (\<forall>s. last_given fs ''max-retained-age'' = Some s \<longrightarrow> parseAge (hs_convert h) s = Inr (maxRetainedAge c)) \<and>
    (\<forall>s. last_given fs ''v'' = Some s \<longrightarrow> parseBool s = Some (verbose c)) \<and>
    (case last_given fs ''types'' of None \<Rightarrow> \<not> types c | Some s \<Rightarrow> parseBool s = Some (types c)) \<and>
    cpuProfile c = (case last_given fs ''cpuprofile'' of None \<Rightarrow> [] | Some s \<Rightarrow> s) \<and>
    memProfile c = (case last_given fs ''memprofile'' of None \<Rightarrow> [] | Some s \<Rightarrow> s) \<and>
    (\<forall>p. last_given fs ''config'' = Some p \<and> p \<noteq> [] \<longrightarrow>
      (\<exists>content fc. hs_readFile h p = Inr content \<and> hs_decode h content = Inr fc))"
proof -
  define visited where "visited = rev (map (fst \<circ> snd) fs)"
  define raw where "raw = fold set_named (map snd fs) (no_flags (fst (defaultConfigPath h)))"
  from parse_settled [OF assms(3)] obtain fc cache where
    rest: "rest = operands" and fc: "config_file h raw visited = Inr fc"
    and "filepath_abs h (chosen [given visited ''dir'' (rf_dir raw), getenv h ''GOCACHEZ_DIR'', from_file fc fc_CacheDir]
      (filepath_join [cache, ''gocachez''])) = Inr (dir c)"
    "parseSize (hs_convert h) (chosen [given visited ''max-size'' (rf_maxSize raw), getenv h ''GOCACHEZ_MAX_SIZE'',
      from_file fc fc_MaxSize] ''20GiB'') = Inr (maxSize c)"
    "parseAge (hs_convert h) (chosen [given visited ''max-age'' (rf_maxAge raw), getenv h ''GOCACHEZ_MAX_AGE'',
      from_file fc fc_MaxAge] ''5d'') = Inr (maxAge c)"
    "parseAge (hs_convert h) (chosen [given visited ''max-retained-age'' (rf_maxRetainedAge raw),
      getenv h ''GOCACHEZ_MAX_RETAINED_AGE'', from_file fc fc_MaxRetainedAge] ''0'') = Inr (maxRetainedAge c)"
    "verbose c = chosen [given visited ''v'' (rf_v raw), Option.bind (getenv h ''GOCACHEZ_VERBOSE'') parseBool,
      from_file fc fc_Verbose] False"
    and off: "types c = rf_types raw" "cpuProfile c = rf_cpuprofile raw" "memProfile c = rf_memprofile raw"
    unfolding flag_parse_spellings [OF assms(1,2)] by (auto simp: visited_def raw_def)
  note layers = this(3-7)
  note named = last_given_named [OF visited_def]
  note texts = last_text [of "map snd fs" "no_flags (fst (defaultConfigPath h))", folded last_given_def raw_def]
  note bools = set_named_switch [THEN last_switch_wins, of "map snd fs" "no_flags (fst (defaultConfigPath h))", folded last_given_def raw_def]
  have v: "parseBool s = Some (rf_v raw)" if "last_given fs ''v'' = Some s" for s
    using bools(1) [OF switch_given [OF assms(1)]] that by (simp add: switches_def)
  have t: "case last_given fs ''types'' of None \<Rightarrow> \<not> rf_types raw | Some s \<Rightarrow> parseBool s = Some (rf_types raw)"
    using bools(2) [OF switch_given [OF assms(1)]] by (simp add: switches_def no_flags_def cong: option.case_cong)
  have conf: "\<exists>content fc. hs_readFile h p = Inr content \<and> hs_decode h content = Inr fc"
    if "last_given fs ''config'' = Some p" "p \<noteq> []" for p
    using fc that texts(1) named(2) [OF that(1)]
    by (auto simp: config_file_def readConfigFile_def ordie_Inr wrapped_Inr split: sum.splits if_splits)
  note settings = layers(1-4) [unfolded texts named(1)]
  show ?thesis
  proof (intro conjI allI impI)
    show "rest = operands" by (rule rest)
    show "filepath_abs h s = Inr (dir c)" if "last_given fs ''dir'' = Some s" for s
      using settings(1) that by simp
    show "parseSize (hs_convert h) s = Inr (maxSize c)" if "last_given fs ''max-size'' = Some s" for s
      using settings(2) that by simp
    show "parseAge (hs_convert h) s = Inr (maxAge c)" if "last_given fs ''max-age'' = Some s" for s
      using settings(3) that by simp
    show "parseAge (hs_convert h) s = Inr (maxRetainedAge c)" if "last_given fs ''max-retained-age'' = Some s" for s
      using settings(4) that by simp
    show "parseBool s = Some (verbose c)" if "last_given fs ''v'' = Some s" for s
    proof -
      have "given visited ''v'' (rf_v raw) = Some (rf_v raw)" by (rule named(4) [OF that])
      with layers(5) v [OF that] show ?thesis by simp
    qed
    show "case last_given fs ''types'' of None \<Rightarrow> \<not> types c | Some s \<Rightarrow> parseBool s = Some (types c)"
      unfolding off(1) by (rule t)
    show "cpuProfile c = (case last_given fs ''cpuprofile'' of None \<Rightarrow> [] | Some s \<Rightarrow> s)"
      "memProfile c = (case last_given fs ''memprofile'' of None \<Rightarrow> [] | Some s \<Rightarrow> s)"
      unfolding off(2,3) texts by (simp_all only: no_flags_def rawFlags.select_convs)
    show "\<exists>content fc. hs_readFile h p = Inr content \<and> hs_decode h content = Inr fc"
      if "last_given fs ''config'' = Some p \<and> p \<noteq> []" for p
      using that conf by blast
  qed
qed

text \<open>A long age joined, a size apart, the same switch twice.\<close>

definition demo_flags :: "(spelling \<times> string \<times> string) list" where
  "demo_flags = [(Joined True, ''max-retained-age'', ''3d''), (Apart False, ''max-size'', ''7k''), (Bare False, ''v'', ''true''),
     (Joined False, ''dir'', ''/x''), (Joined True, ''v'', ''0'')]"

lemma demo_flags_spelled:
  "concat (map spell demo_flags) @ [''x''] = [''--max-retained-age=3d'', ''-max-size'', ''7k'', ''-v'', ''-dir=/x'', ''--v=0'', ''x'']"
  by (simp add: demo_flags_def)

lemma parse_three_days: "parseAge conv ''3d'' = Inr (3 * day_nanos)"
proof -
  have "itoa 3 = ''3''" by (simp add: itoa.simps unit_simps)
  with parseAge_days [of 3 conv] show ?thesis by (simp add: day_nanos_def)
qed

theorem flags_set_settings_witness:
  "\<exists>c. parseFlagOperands demo_host [''--max-retained-age=3d'', ''-max-size'', ''7k'', ''-v'', ''-dir=/x'', ''--v=0'', ''x''] = Inr (c, [''x'']) \<and>
     maxRetainedAge c = 3 * day_nanos \<and> maxSize c = 7168 \<and> \<not> verbose c \<and> dir c = [''x''] \<and> \<not> types c \<and> cpuProfile c = []"
proof -
  let ?args = "[''--max-retained-age=3d'', ''-max-size'', ''7k'', ''-v'', ''-dir=/x'', ''--v=0'', ''x'']"
  have "\<exists>c. parseFlagOperands demo_host ?args = Inr (c, [''x''])"
    by (simp add: parseFlagOperands_def ortell_def defaultConfig_def ordie_def wrapped_def demo_host_def parse_sizes defaultConfigPath_def
        no_flags_def bindFlags_def cut_value_def parseBool_def applyEnv_def applyFlags_def override_def getenv_def given_def
        default_ages parse_three_days filepath_abs_def filepath_join_def filepath_clean_def is_abs_def Let_def with_maxAge_def with_maxSize_def
        with_verbose_def with_dir_def with_maxRetainedAge_def)
  then obtain c where c: "parseFlagOperands demo_host ?args = Inr (c, [''x''])" by blast
  have wf: "list_all well_spelled demo_flags"
    by (simp add: demo_flags_def text_flags_def switches_def parseBool_def)
  have given: "last_given demo_flags ''max-retained-age'' = Some ''3d''" "last_given demo_flags ''max-size'' = Some ''7k''"
    "last_given demo_flags ''v'' = Some ''0''" "last_given demo_flags ''dir'' = Some ''/x''" "last_given demo_flags ''types'' = None"
    "last_given demo_flags ''cpuprofile'' = None"
    by (simp_all add: demo_flags_def last_given_def)
  have "filepath_abs demo_host ''/x'' = Inr [''x'']" by (simp add: filepath_abs_def is_abs_def)
  with flags_set_settings [OF wf, of "[''x'']", unfolded demo_flags_spelled, OF _ c] given
  have "maxRetainedAge c = 3 * day_nanos \<and> maxSize c = 7168 \<and> \<not> verbose c \<and> dir c = [''x''] \<and> \<not> types c \<and> cpuProfile c = []"
    by (simp add: parse_three_days parse_sizes parseBool_def)
  with c show ?thesis by blast
qed

end
