(* ===== verification/Breakdown.thy ===== *)
theory Breakdown
  imports Builds Blob_Type Orphans "HOL-Library.AList" "HOL-Library.Product_Lexorder" "HOL-Library.List_Lexorder" "HOL-Library.Char_ord"
begin

text \<open>
  What the cache holds by type: classifying blobs (\<open>blob_type.go\<close>) and retained files
  (\<open>status.go\<close>), and the rows they are counted into. The workers that decompress blobs hand in
  their results in any order: the order of arrival is a parameter, a permutation.
\<close>

section \<open>Counting by kind\<close>

text \<open>\<open>status := byKind[kind]; if status == nil { ... }\<close>, then counting into it.\<close>

definition tally_add :: "('k \<Rightarrow> 's) \<Rightarrow> ('x \<Rightarrow> 's \<Rightarrow> 's) \<Rightarrow> 'k \<Rightarrow> 'x \<Rightarrow> ('k \<times> 's) list \<Rightarrow> ('k \<times> 's) list" where
  "tally_add init add k x m = AList.update k (add x (case map_of m k of None \<Rightarrow> init k | Some s \<Rightarrow> s)) m"

record blobTypeStatus =
  bs_kind :: blobTypeKind
  bs_count :: int
  bs_size :: int
  bs_compressedSize :: int

definition no_blobs :: "blobTypeKind \<Rightarrow> blobTypeStatus" where
  "no_blobs k = \<lparr>bs_kind = k, bs_count = 0, bs_size = 0, bs_compressedSize = 0\<rparr>"

definition count_blob :: "catalogOutput \<Rightarrow> blobTypeStatus \<Rightarrow> blobTypeStatus" where
  "count_blob out s = s\<lparr>bs_count := i64 (bs_count s + 1), bs_size := i64 (bs_size s + co_size out),
     bs_compressedSize := i64 (bs_compressedSize s + co_compressedSize out)\<rparr>"

definition addBlobType ::
  "blobTypeKind \<Rightarrow> catalogOutput \<Rightarrow> (blobTypeKind \<times> blobTypeStatus) list \<Rightarrow> (blobTypeKind \<times> blobTypeStatus) list" where
  "addBlobType = tally_add no_blobs count_blob"

record retainedTypeStatus =
  rt_kind :: retainedTypeKind
  rt_count :: int
  rt_size :: int

definition no_retained :: "retainedTypeKind \<Rightarrow> retainedTypeStatus" where
  "no_retained k = \<lparr>rt_kind = k, rt_count = 0, rt_size = 0\<rparr>"

definition count_retained :: "int \<Rightarrow> retainedTypeStatus \<Rightarrow> retainedTypeStatus" where
  "count_retained sz s = s\<lparr>rt_count := i64 (rt_count s + 1), rt_size := i64 (rt_size s + sz)\<rparr>"

definition addRetainedType ::
  "retainedTypeKind \<Rightarrow> int \<Rightarrow> (retainedTypeKind \<times> retainedTypeStatus) list \<Rightarrow> (retainedTypeKind \<times> retainedTypeStatus) list" where
  "addRetainedType = tally_add no_retained count_retained"

fun retained_label :: "retainedTypeKind \<Rightarrow> string" where
  "retained_label retainedTypeExportArchive = ''Export archives''"
| "retained_label retainedTypeGeneratedCgoSource = ''Generated cgo sources''"
| "retained_label retainedTypeGeneratedTestmain = ''Generated test mains''"
| "retained_label _ = ''Other retained files''"

text \<open>Largest first, equal sizes by label.\<close>

definition blob_order :: "blobTypeStatus \<Rightarrow> int \<times> string" where
  "blob_order s = (- bs_size s, blob_label (bs_kind s))"

definition retained_order :: "retainedTypeStatus \<Rightarrow> int \<times> string" where
  "retained_order s = (- rt_size s, retained_label (rt_kind s))"

section \<open>Blobs\<close>

text \<open>\<open>io.ReadAll\<close> of the first 64 KiB: an error after them is not seen.\<close>

definition kind_of_stream :: "bytes \<times> err option \<Rightarrow> blobTypeKind" where
  "kind_of_stream r = (case r of (data, e) \<Rightarrow>
     if blobTypePrefixLimit \<le> length data then classifyBlobData (take blobTypePrefixLimit data)
     else (case e of None \<Rightarrow> classifyBlobData data | Some _ \<Rightarrow> blobTypeUnreadable))"

definition classifyCompressedBlob :: "codec \<Rightarrow> path \<Rightarrow> blobTypeKind io" where
  "classifyCompressedBlob cd p =
     bindE (tryE (os_open p)) (\<lambda>opened.
     case opened of
       Inl _ \<Rightarrow> returnE blobTypeUnreadable
     | Inr i \<Rightarrow>
         finallyE
           (bindE (tryE (file_read i)) (\<lambda>r.
            returnE (case r of Inl _ \<Rightarrow> blobTypeUnreadable | Inr z \<Rightarrow> kind_of_stream (decompress cd z))))
           (file_close i))"

text \<open>The loop over the results. What is not unreadable is persisted, a batch at a time.\<close>

fun classify_results ::
  "codec \<Rightarrow> path \<Rightarrow> path \<Rightarrow> catalogOutput list \<Rightarrow> (blobTypeKind \<times> blobTypeStatus) list \<Rightarrow> (bytes \<times> int) list \<Rightarrow>
    (blobTypeKind \<times> blobTypeStatus) list io" where
  "classify_results cd dbFile blobRoot [] byKind classified =
     bindE (persistClassifications dbFile blobClassifier classified) (\<lambda>_. returnE byKind)"
| "classify_results cd dbFile blobRoot (out # outs) byKind classified =
     bindE (classifyCompressedBlob cd (blobPath blobRoot (co_outputID out))) (\<lambda>kind.
     let byKind' = addBlobType kind out byKind;
         classified' = (if kind \<noteq> blobTypeUnreadable then AList.update (co_outputID out) (blob_code kind) classified else classified)
     in if classificationBatch \<le> length classified'
        then bindE (persistClassifications dbFile blobClassifier classified') (\<lambda>_. classify_results cd dbFile blobRoot outs byKind' [])
        else classify_results cd dbFile blobRoot outs byKind' classified')"

definition cached_blobs :: "catalogOutput list \<Rightarrow> (blobTypeKind \<times> blobTypeStatus) list" where
  "cached_blobs outs = fold (\<lambda>out. case co_blobType out of Some n \<Rightarrow> addBlobType (blob_of_code n) out | None \<Rightarrow> id) outs []"

definition pending_blobs :: "catalogOutput list \<Rightarrow> catalogOutput list" where
  "pending_blobs outs = filter (\<lambda>out. co_blobType out = None) outs"

definition classifyBlobTypes ::
  "codec \<Rightarrow> (catalogOutput list \<Rightarrow> catalogOutput list) \<Rightarrow> path \<Rightarrow> path \<Rightarrow> catalogOutput list \<Rightarrow>
    (blobTypeKind \<times> blobTypeStatus) list io" where
  "classifyBlobTypes cd arrive dbFile blobRoot outs =
     (if pending_blobs outs = [] then returnE (cached_blobs outs)
      else classify_results cd dbFile blobRoot (arrive (pending_blobs outs)) (cached_blobs outs) [])"

definition blobTypeStatuses ::
  "codec \<Rightarrow> (catalogOutput list \<Rightarrow> catalogOutput list) \<Rightarrow> path \<Rightarrow> path \<Rightarrow> catalogOutput list \<Rightarrow> blobTypeStatus list io" where
  "blobTypeStatuses cd arrive dbFile blobRoot outs =
     bindE (classifyBlobTypes cd arrive dbFile blobRoot outs) (\<lambda>byKind. returnE (sort_key blob_order (map snd byKind)))"

section \<open>Retained files\<close>

definition retainedFileKind :: "path \<Rightarrow> retainedTypeKind io" where
  "retainedFileKind p =
     (if file_ext (last p) = ''.a'' then returnE retainedTypeExportArchive
      else if file_ext (last p) = ''.go'' then
        bindE (tryE (os_read_file p)) (\<lambda>r. returnE (case r of
            Inl _ \<Rightarrow> retainedTypeOther
          | Inr data \<Rightarrow> (case retainedGeneratedSourceKind data of Some k \<Rightarrow> k | None \<Rightarrow> retainedTypeOther)))
      else returnE retainedTypeOther)"

record retained_walk =
  rw_files :: int
  rw_size :: int
  rw_byKind :: "(retainedTypeKind \<times> retainedTypeStatus) list"
  rw_classified :: "(bytes \<times> int) list"

definition cached_retained :: "catalogOutput list \<Rightarrow> bytes \<Rightarrow> retainedTypeKind option" where
  "cached_retained outs h =
     map_option retained_of_code
       (map_of (rev (concat (map (\<lambda>out. case co_retainedType out of None \<Rightarrow> [] | Some n \<Rightarrow> [(co_outputID out, n)]) outs))) h)"

text \<open>\<open>visit\<close>. A file that has gone since the directory was read is skipped.\<close>

definition visit_retained :: "bool \<Rightarrow> (bytes \<Rightarrow> retainedTypeKind option) \<Rightarrow> path \<Rightarrow> retained_walk \<Rightarrow> retained_walk io" where
  "visit_retained withTypes cached p s =
     bindE (tryE (os_stat p)) (\<lambda>r.
     case r of
       Inl e \<Rightarrow> if errors_is ErrNotExist e then returnE s else failE (Wrap ''stat retained file'' [e])
     | Inr info \<Rightarrow>
         let s1 = s\<lparr>rw_files := i64 (rw_files s + 1), rw_size := i64 (rw_size s + fi_size info)\<rparr>; outputID = file_stem (last p) in
         if \<not> withTypes then returnE s1
         else
           bindE (case cached outputID of Some k \<Rightarrow> returnE (k, False)
             | None \<Rightarrow> bindE (retainedFileKind p) (\<lambda>k. returnE (k, file_ext (last p) = ''.go''))) (\<lambda>(kind, fresh).
           returnE (s1\<lparr>rw_byKind := addRetainedType kind (fi_size info) (rw_byKind s1),
             rw_classified := (if fresh then AList.update outputID (retained_code kind) (rw_classified s1) else rw_classified s1)\<rparr>)))"

fun visit_all :: "bool \<Rightarrow> (bytes \<Rightarrow> retainedTypeKind option) \<Rightarrow> path list \<Rightarrow> retained_walk \<Rightarrow> retained_walk io" where
  "visit_all withTypes cached [] s = returnE s"
| "visit_all withTypes cached (p # ps) s = bindE (visit_retained withTypes cached p s) (visit_all withTypes cached ps)"

definition readRetainedStatus ::
  "path \<Rightarrow> path \<Rightarrow> catalogOutput list \<Rightarrow> bool \<Rightarrow> (int \<times> int \<times> retainedTypeStatus list) io" where
  "readRetainedStatus dbFile root outs withTypes =
     bindE (walk_existing root) (\<lambda>visited.
     bindE (visit_all withTypes (cached_retained outs) (map fst (filter (\<lambda>(p, n). n \<noteq> DirN) visited))
              \<lparr>rw_files = 0, rw_size = 0, rw_byKind = [], rw_classified = []\<rparr>) (\<lambda>s.
     bindE (persistClassifications dbFile retainedClassifier (rw_classified s)) (\<lambda>_.
     returnE (rw_files s, rw_size s, sort_key retained_order (map snd (rw_byKind s))))))"

end
