(* ===== verification/Status.thy ===== *)
theory Status
  imports Breakdown Runs Numbers
begin

text \<open>
  Reading what \<open>status\<close> reports (\<open>readStatus\<close> and below in \<open>status.go\<close>). It takes no lifecycle
  lock and tolerates files that disappear meanwhile.
\<close>

section \<open>The catalog\<close>

record catalogStatus =
  cs_entries :: int
  cs_outputs :: int
  cs_size :: int
  cs_compressedSize :: int
  cs_runs :: int
  cs_oldestAccessedAt :: "int option"

definition no_catalog :: catalogStatus where
  "no_catalog = \<lparr>cs_entries = 0, cs_outputs = 0, cs_size = 0, cs_compressedSize = 0, cs_runs = 0, cs_oldestAccessedAt = None\<rparr>"

definition sql_min :: "int list \<Rightarrow> int option" where
  "sql_min xs = (if xs = [] then None else Some (Min (set xs)))"

definition readCatalogStatus :: "path \<Rightarrow> bool \<Rightarrow> (bool \<times> catalogStatus \<times> catalogOutput list) io" where
  "readCatalogStatus dbFile withTypes =
     bindE (regularFile dbFile) (\<lambda>present.
     if \<not> present then returnE (False, no_catalog, [])
     else
       bindE (tryE (openExistingDB dbFile)) (\<lambda>opened.
       case opened of
         Inl e \<Rightarrow> if errors_is ErrNotExist e then returnE (False, no_catalog, []) else failE e
       | Inr _ \<Rightarrow>
           bindE (wrapE ''count catalog entries'' (sql_read (\<lambda>d. int (length (entries d))))) (\<lambda>n.
           bindE (wrapE ''find oldest catalog access'' (sql_read (\<lambda>d. sql_min (map out_accessed (outputs d))))) (\<lambda>oldest.
           bindE (wrapE ''total catalog outputs'' q_outputStats) (\<lambda>(outs, sz, compressed).
           bindE (if withTypes then wrapE ''list catalog outputs'' q_listOutputs else returnE []) (\<lambda>listed.
           bindE (wrapE ''count catalog runs'' q_countRuns) (\<lambda>active.
           returnE (True, \<lparr>cs_entries = n, cs_outputs = outs, cs_size = sz, cs_compressedSize = compressed, cs_runs = active,
             cs_oldestAccessedAt = map_option millisTime oldest\<rparr>, listed))))))))"

section \<open>Stamps and live runs\<close>

text \<open>How long ago a pass completed; \<open>None\<close> is a stamp that was not found.\<close>

definition stampAge :: "path \<Rightarrow> int option io" where
  "stampAge p =
     bindE (tryE (os_stat p)) (\<lambda>r.
     case r of Inl _ \<Rightarrow> returnE None
     | Inr info \<Rightarrow> bindE time_now (\<lambda>now. returnE (Some (time_sub now (fi_mtime info)))))"

fun count_live :: "path list \<Rightarrow> int \<times> int \<Rightarrow> (int \<times> int) io" where
  "count_live [] n = returnE n"
| "count_live (rdir # rdirs) n =
     (let lock = rdir @ [runLockName] in
     bindE (tryE (flock_try False lock)) (\<lambda>r.
     case r of
       Inl e \<Rightarrow>
         bindE (ignoreE (flock_close lock)) (\<lambda>_.
         if errors_is ErrNotExist e then count_live rdirs n else failE (Wrap ''try lock live run'' [e]))
     | Inr False \<Rightarrow> bindE (ignoreE (flock_close lock)) (\<lambda>_. count_live rdirs (fst n + 1, snd n))
     | Inr True \<Rightarrow>
         bindE (recoverE (flock_unlock lock) (\<lambda>e. bindE (ignoreE (flock_close lock)) (\<lambda>_. failE (Wrap ''unlock live run'' [e])))) (\<lambda>_.
         bindE (wrapE ''close live run lock'' (flock_close lock)) (\<lambda>_. count_live rdirs (fst n, snd n + 1)))))"

definition readLiveStatus :: "path \<Rightarrow> (int \<times> int) io" where
  "readLiveStatus runsRoot = bindE (liveRunDirs runsRoot) (\<lambda>rdirs. count_live rdirs (0, 0))"

section \<open>The whole status\<close>

record cacheStatus =
  st_cacheDir :: path
  st_maxSize :: int
  st_maxAge :: int
  st_maxRetainedAge :: int
  st_verbose :: bool
  st_types :: bool
  st_versionDir :: path
  st_catalogExists :: bool
  st_catalog :: catalogStatus
  st_blobFiles :: int
  st_blobTypes :: "blobTypeStatus list"
  st_retainedFiles :: int
  st_retainedSize :: int
  st_retainedTypes :: "retainedTypeStatus list"
  st_activeLiveRuns :: int
  st_inactiveLiveRuns :: int
  st_lastScan :: "int option"
  st_lastSweep :: "int option"
  st_lastRetained :: "int option"

definition bare_status :: "config \<Rightarrow> cacheStatus" where
  "bare_status c = \<lparr>st_cacheDir = dir c, st_maxSize = maxSize c, st_maxAge = maxAge c, st_maxRetainedAge = retainedAge c,
     st_verbose = verbose c, st_types = types c, st_versionDir = cacheVersionDir c, st_catalogExists = False,
     st_catalog = no_catalog, st_blobFiles = 0, st_blobTypes = [], st_retainedFiles = 0, st_retainedSize = 0,
     st_retainedTypes = [], st_activeLiveRuns = 0, st_inactiveLiveRuns = 0, st_lastScan = None, st_lastSweep = None,
     st_lastRetained = None\<rparr>"

definition readStatus :: "codec \<Rightarrow> (catalogOutput list \<Rightarrow> catalogOutput list) \<Rightarrow> config \<Rightarrow> cacheStatus io" where
  "readStatus cd arrive c =
     (case cachePaths c of (vdir, blobRoot, runsRoot, _) \<Rightarrow>
     bindE (tryE (os_stat vdir)) (\<lambda>there.
     case there of
       Inl e \<Rightarrow> if errors_is ErrNotExist e then returnE (bare_status c) else failE (Wrap ''stat cache version dir'' [e])
     | Inr _ \<Rightarrow>
         bindE (readCatalogStatus (dbPath vdir) (types c)) (\<lambda>(present, catalog, outs).
         bindE (if types c then blobTypeStatuses cd arrive (dbPath vdir) blobRoot outs else returnE []) (\<lambda>blobTypes.
         bindE (readRetainedStatus (dbPath vdir) (retainedRoot vdir) outs (types c)) (\<lambda>(files, sz, retainedTypes).
         bindE (stampAge (pruneStampPath vdir)) (\<lambda>scanned.
         bindE (stampAge (sweepStampPath vdir)) (\<lambda>swept.
         bindE (stampAge (retainedStampPath vdir)) (\<lambda>trimmed.
         bindE (readLiveStatus runsRoot) (\<lambda>(active, inactive).
         returnE ((bare_status c)\<lparr>st_catalogExists := present, st_catalog := catalog, st_blobFiles := cs_outputs catalog,
           st_blobTypes := blobTypes, st_retainedFiles := files, st_retainedSize := sz, st_retainedTypes := retainedTypes,
           st_activeLiveRuns := active, st_inactiveLiveRuns := inactive, st_lastScan := scanned, st_lastSweep := swept,
           st_lastRetained := trimmed\<rparr>))))))))))"

definition readBlobTypeStatus :: "codec \<Rightarrow> (catalogOutput list \<Rightarrow> catalogOutput list) \<Rightarrow> path \<Rightarrow> path \<Rightarrow> blobTypeStatus list io" where
  "readBlobTypeStatus cd arrive dbFile blobRoot =
     bindE (readCatalogStatus dbFile True) (\<lambda>(_, _, outs). blobTypeStatuses cd arrive dbFile blobRoot outs)"

end
