(* ===== verification/Report.thy ===== *)
theory Report
  imports Status Settings
begin

text \<open>
  Printing the status (\<open>status.go\<close>): the cells, the tables and \<open>writeStatus\<close>. The writer is
  \<open>sink\<close>: what it has taken so far, and an arbitrary plan of failing writes, each taking some of
  its bytes. A cell is an option where \<open>formatSize\<close> may not return.
\<close>

section \<open>Cells\<close>

definition formatBytes :: "int \<Rightarrow> string option" where
  "formatBytes sz = formatSize sz"

definition formatInt :: "int \<Rightarrow> string" where
  "formatInt n = (if n < 0 then CHR ''-'' # itoa (- n) else itoa n)"

definition formatBool :: "bool \<Rightarrow> string" where
  "formatBool b = (if b then ''true'' else ''false'')"

definition formatFileCount :: "int \<Rightarrow> string" where
  "formatFileCount n = (if n = 1 then ''1 file'' else formatInt n @ '' files'')"

definition formatStorageSize :: "int \<Rightarrow> int \<Rightarrow> string option" where
  "formatStorageSize sz n = Option.bind (formatBytes sz) (\<lambda>s. Some (s @ '' ('' @ formatFileCount n @ '')''))"

definition formatLiveRuns :: "int \<Rightarrow> int \<Rightarrow> string" where
  "formatLiveRuns active inactive = formatInt active @ '' active, '' @ formatInt inactive @ '' inactive''"

definition formatMaxUsage :: "int \<Rightarrow> int \<Rightarrow> string option" where
  "formatMaxUsage sz limit =
     (if limit \<le> 0 then Some ''disabled''
      else
        let percent = f64_val (f64_scale (f64_round (f64_of_int sz / f64_of_int limit)) 100); remaining = i64 (limit - sz) in
        Option.bind (formatBytes sz) (\<lambda>used.
        Option.bind (formatBytes limit) (\<lambda>all.
        Option.bind (formatBytes remaining) (\<lambda>left.
        Some (used @ '' / '' @ all @ '' ('' @ fixed1 percent @ ''%, '' @ left @ '' remaining)'')))))"

definition minute :: int where "minute = 60000000000"
definition hour :: int where "hour = 3600000000000"

text \<open>Go's \<open>/\<close> and \<open>%\<close> of a duration that is not negative.\<close>

definition two_units :: "int \<Rightarrow> int \<Rightarrow> string \<Rightarrow> int \<Rightarrow> string \<Rightarrow> string" where
  "two_units d big bigName small smallName =
     (let n = d div big; m = (d mod big) div small in
      if m = 0 then formatInt n @ bigName else formatInt n @ bigName @ '' '' @ formatInt m @ smallName)"

definition formatAge :: "int \<Rightarrow> string" where
  "formatAge t =
     (let d = (if t < 0 then 0 else t) in
      if d < minute then ''<1m''
      else if d < hour then formatInt (d div minute) @ ''m''
      else if d < 24 * hour then two_units d hour ''h'' minute ''m''
      else if d < 365 * 24 * hour then two_units d (24 * hour) ''d'' hour ''h''
      else two_units d (365 * 24 * hour) ''y'' (24 * hour) ''d'')"

definition formatStamp :: "int option \<Rightarrow> string" where
  "formatStamp st = (case st of None \<Rightarrow> ''never'' | Some d \<Rightarrow> formatAge d @ '' ago'')"

definition formatMaxAge :: "int \<Rightarrow> string" where
  "formatMaxAge d = (if d \<le> 0 then ''disabled'' else formatAge d)"

definition formatOldestAccess :: "catalogStatus \<Rightarrow> int \<Rightarrow> string" where
  "formatOldestAccess s now =
     (case cs_oldestAccessedAt s of None \<Rightarrow> ''n/a'' | Some t \<Rightarrow> formatAge (time_sub now t))"

text \<open>\<open>%*s\<close>\<close>

definition pad_left :: "nat \<Rightarrow> string \<Rightarrow> string" where
  "pad_left n s = replicate (n - length s) (CHR '' '') @ s"

definition formatAlignedSavings :: "int \<Rightarrow> int \<Rightarrow> nat \<Rightarrow> nat \<Rightarrow> string option" where
  "formatAlignedSavings uncompressed compressed amountWidth percentWidth =
     Option.bind (formatSavingsAmount uncompressed compressed) (\<lambda>amount.
     Some (pad_left amountWidth amount @ '' ('' @ pad_left percentWidth (formatSavingsPercent uncompressed compressed) @ '')''))"

fun savings_widths :: "blobTypeStatus list \<Rightarrow> nat \<times> nat \<Rightarrow> (nat \<times> nat) option" where
  "savings_widths [] ws = Some ws"
| "savings_widths (s # ss) (amountWidth, percentWidth) =
     Option.bind (formatSavingsAmount (bs_size s) (bs_compressedSize s)) (\<lambda>amount.
     savings_widths ss (max amountWidth (length amount),
       max percentWidth (length (formatSavingsPercent (bs_size s) (bs_compressedSize s)))))"

definition savingsWidths :: "blobTypeStatus list \<Rightarrow> (nat \<times> nat) option" where
  "savingsWidths ss = savings_widths ss (length ''0B'', length ''0.0%'')"

section \<open>Tables\<close>

record sink =
  sk_text :: bytes
  sk_writes :: nat
  sk_fault :: "nat \<Rightarrow> (nat \<times> err) option"

type_synonym writer = "sink \<Rightarrow> (err + unit) \<times> sink"

definition sink_write :: "string \<Rightarrow> writer" where
  "sink_write s k =
     (let k' = k\<lparr>sk_writes := Suc (sk_writes k)\<rparr> in
      case sk_fault k (sk_writes k) of
        None \<Rightarrow> (Inr (), k'\<lparr>sk_text := sk_text k @ s\<rparr>)
      | Some (n, e) \<Rightarrow> (Inl e, k'\<lparr>sk_text := sk_text k @ take n s\<rparr>))"

text \<open>\<open>if _, err := fmt.Fprint(w, s); err != nil { return fmt.Errorf("write status: %w", err) }\<close>\<close>

definition fprint :: "string \<Rightarrow> writer" where
  "fprint s k = (case sink_write s k of (Inl e, k') \<Rightarrow> (Inl (Wrap ''write status'' [e]), k') | (Inr u, k') \<Rightarrow> (Inr u, k'))"

definition seqW :: "writer \<Rightarrow> writer \<Rightarrow> writer" where
  "seqW m n k = (case m k of (Inl e, k') \<Rightarrow> (Inl e, k') | (Inr _, k') \<Rightarrow> n k')"

definition skipW :: writer where
  "skipW k = (Inr (), k)"

text \<open>\<open>strings.Repeat(" ", n)\<close> panics on a negative count.\<close>

definition fprint_blanks :: "int \<Rightarrow> writer" where
  "fprint_blanks n k = (if n < 0 then (Inl (Panic ''strings: negative Repeat count''), k)
     else fprint (replicate (nat n) (CHR '' '')) k)"

fun widen :: "nat list \<Rightarrow> string list \<Rightarrow> nat list" where
  "widen ws [] = ws"
| "widen [] (c # cs) = max 0 (length c) # widen [] cs"
| "widen (v # vs) (c # cs) = max v (length c) # widen vs cs"

definition tableWidths :: "string list list \<Rightarrow> nat list" where
  "tableWidths rows = foldl widen [] rows"

text \<open>\<open>row[:last+1]\<close>: empty cells at the end are not printed.\<close>

definition printed_cells :: "string list \<Rightarrow> string list" where
  "printed_cells row = (case row of [] \<Rightarrow> [] | c # cs \<Rightarrow> c # rev (dropWhile (\<lambda>x. x = []) (rev cs)))"

definition write_cell :: "bool \<Rightarrow> nat list \<Rightarrow> nat \<Rightarrow> nat \<Rightarrow> string \<Rightarrow> writer" where
  "write_cell right widths lastCell i cell =
     (let padding = int (widths ! i) - int (length cell) in
      seqW (if 0 < i then fprint ''  '' else skipW)
     (seqW (if right \<and> 0 < i then fprint_blanks padding else skipW)
     (seqW (fprint cell)
           (if i < lastCell \<and> (\<not> right \<or> i = 0) then fprint_blanks padding else skipW))))"

fun write_cells :: "bool \<Rightarrow> nat list \<Rightarrow> nat \<Rightarrow> nat \<Rightarrow> string list \<Rightarrow> writer" where
  "write_cells right widths lastCell i [] = skipW"
| "write_cells right widths lastCell i (c # cs) =
     seqW (write_cell right widths lastCell i c) (write_cells right widths lastCell (Suc i) cs)"

fun write_rows :: "bool \<Rightarrow> nat list \<Rightarrow> string list list \<Rightarrow> writer" where
  "write_rows right widths [] = skipW"
| "write_rows right widths (row # rows) =
     seqW (fprint ''  '')
    (seqW (let cells = printed_cells row in write_cells right widths (length cells - 1) 0 cells)
    (seqW (fprint ''\<newline>'') (write_rows right widths rows)))"

definition writeTableAligned :: "string \<Rightarrow> string list list \<Rightarrow> bool \<Rightarrow> writer" where
  "writeTableAligned title rows right =
     seqW (fprint (title @ '':\<newline>''))
    (seqW (write_rows right (tableWidths rows) rows) (fprint ''\<newline>''))"

definition writeTable :: "string \<Rightarrow> string list list \<Rightarrow> writer" where
  "writeTable title rows = writeTableAligned title rows False"

definition writeRightAlignedTable :: "string \<Rightarrow> string list list \<Rightarrow> writer" where
  "writeRightAlignedTable title rows = writeTableAligned title rows True"

section \<open>The report\<close>

text \<open>A row is a list of cells; a table is printed once all its cells are there.\<close>

definition table_rows :: "string option list list \<Rightarrow> string list list option" where
  "table_rows rows = those (map those rows)"

definition path_text :: "path \<Rightarrow> string" where
  "path_text p = CHR ''/'' # join_slash p"

definition blob_type_rows :: "blobTypeStatus list \<Rightarrow> string list list option" where
  "blob_type_rows ss =
     (let header = map Some [''Type'', ''Files'', ''Original'', ''Stored'', ''Savings''] in
      if ss = [] then
        table_rows [header, [Some ''None'', Some ''0'', formatBytes 0, formatBytes 0, formatAlignedSavings 0 0 2 4]]
      else
        Option.bind (savingsWidths ss) (\<lambda>(amountWidth, percentWidth).
        table_rows (header # map (\<lambda>s.
          [Some (blob_label (bs_kind s)), Some (formatInt (bs_count s)), formatBytes (bs_size s),
           formatBytes (bs_compressedSize s),
           formatAlignedSavings (bs_size s) (bs_compressedSize s) amountWidth percentWidth]) ss)))"

definition writeBlobTypeStatus :: "blobTypeStatus list \<Rightarrow> writer option" where
  "writeBlobTypeStatus ss = map_option (writeRightAlignedTable ''Compressed blob contents'') (blob_type_rows ss)"

definition retained_type_rows :: "retainedTypeStatus list \<Rightarrow> string list list option" where
  "retained_type_rows ss =
     (let header = map Some [''Type'', ''Files'', ''Size''] in
      table_rows (header #
        (if ss = [] then [[Some ''None'', Some ''0'', formatBytes 0]]
         else map (\<lambda>s. [Some (retained_label (rt_kind s)), Some (formatInt (rt_count s)), formatBytes (rt_size s)]) ss)))"

definition writeRetainedTypeStatus :: "retainedTypeStatus list \<Rightarrow> writer option" where
  "writeRetainedTypeStatus ss = map_option (writeRightAlignedTable ''Retained go-list files'') (retained_type_rows ss)"

definition configuration_rows :: "cacheStatus \<Rightarrow> string list list option" where
  "configuration_rows s = table_rows
     [[Some ''Cache directory'', Some (path_text (st_cacheDir s))],
      [Some ''Version directory'', Some (path_text (st_versionDir s))],
      [Some ''Max size'', formatBytes (st_maxSize s)],
      [Some ''Max age'', Some (formatMaxAge (st_maxAge s))],
      [Some ''Max retained age'', Some (formatMaxAge (st_maxRetainedAge s))],
      [Some ''Verbose'', Some (formatBool (st_verbose s))]]"

definition summary_rows :: "cacheStatus \<Rightarrow> int \<Rightarrow> string list list option" where
  "summary_rows s now = table_rows
     [[Some ''State'', Some (if st_catalogExists s then ''present'' else ''missing'')],
      [Some ''Cached actions'', Some (formatInt (cs_entries (st_catalog s)))],
      [Some ''Cached outputs'', Some (formatInt (cs_outputs (st_catalog s)))],
      [Some ''Oldest cached blob'', Some (formatOldestAccess (st_catalog s) now)],
      [Some ''Live runs'', Some (formatLiveRuns (st_activeLiveRuns s) (st_inactiveLiveRuns s))],
      [Some ''Last scan'', Some (formatStamp (st_lastScan s))],
      [Some ''Last sweep'', Some (formatStamp (st_lastSweep s))],
      [Some ''Last retained trim'', Some (formatStamp (st_lastRetained s))]]"

definition storage_rows :: "cacheStatus \<Rightarrow> string list list option" where
  "storage_rows s =
     (let c = st_catalog s; stored = i64 (cs_compressedSize c + st_retainedSize s) in table_rows
     [[Some ''Original output size'', formatBytes (cs_size c)],
      [Some ''Compressed cache blobs'', formatStorageSize (cs_compressedSize c) (st_blobFiles s)],
      [Some ''Blob max usage'', formatMaxUsage (cs_compressedSize c) (st_maxSize s)],
      [Some ''Retained go-list files'', formatStorageSize (st_retainedSize s) (st_retainedFiles s)],
      [Some ''Total stored'', formatBytes stored],
      [Some ''Blob-only savings'', formatSavings (cs_size c) (cs_compressedSize c)],
      [Some ''Overall savings'', formatSavings (cs_size c) stored]])"

text \<open>
  Printing a status that was read; the clock is read once, for the age of the oldest blob.
  \<open>None\<close> is a report that never returns.
\<close>

definition print_table :: "string \<Rightarrow> string list list option \<Rightarrow> writer option" where
  "print_table title rows = map_option (writeTable title) rows"

text \<open>The rows of a table are put together only when the tables before it are written.\<close>

definition seqO :: "((err + unit) \<times> sink) option \<Rightarrow> writer option \<Rightarrow> ((err + unit) \<times> sink) option" where
  "seqO r m = Option.bind r (\<lambda>(e, k). case e of Inl x \<Rightarrow> Some (Inl x, k) | Inr _ \<Rightarrow> map_option (\<lambda>f. f k) m)"

definition report_tables :: "cacheStatus \<Rightarrow> int \<Rightarrow> writer option list" where
  "report_tables s now =
     [print_table ''Configuration'' (configuration_rows s), print_table ''Summary'' (summary_rows s now),
      print_table ''Storage'' (storage_rows s)] @
     (if st_types s then [writeBlobTypeStatus (st_blobTypes s), writeRetainedTypeStatus (st_retainedTypes s)] else [])"

definition print_status :: "cacheStatus \<Rightarrow> int \<Rightarrow> sink \<Rightarrow> ((err + unit) \<times> sink) option" where
  "print_status s now k = foldl seqO (Some (Inr (), k)) (report_tables s now)"

definition writeStatus ::
  "codec \<Rightarrow> (catalogOutput list \<Rightarrow> catalogOutput list) \<Rightarrow> config \<Rightarrow> sink \<Rightarrow> world \<Rightarrow> ((err + unit) \<times> sink) option \<times> world" where
  "writeStatus cd arrive c k w =
     (case readStatus cd arrive c w of
        (Inl e, w') \<Rightarrow> (Some (Inl e, k), w')
      | (Inr s, w') \<Rightarrow> (print_status s (clock w' (ticks w')) k, w'\<lparr>ticks := Suc (ticks w')\<rparr>))"

end
