(* ===== verification/Report_Laws.thy ===== *)
theory Report_Laws
  imports Report Closing
begin

text \<open>
  What the report looks like: what a writer made of prints does on any sink, and the columns of
  a table.
\<close>

section \<open>Printing\<close>

text \<open>On every sink \<open>m\<close> writes the text \<open>t\<close>, or a prefix of it and the error of the write that failed.\<close>

definition prints :: "writer \<Rightarrow> string \<Rightarrow> bool" where
  "prints m t \<longleftrightarrow> (\<forall>k r k'. m k = (r, k') \<longrightarrow>
     (\<exists>p. sk_text k' = sk_text k @ p \<and> prefix p t \<and>
       (case r of Inr _ \<Rightarrow> p = t | Inl e \<Rightarrow> \<exists>x. e = Wrap ''write status'' [x])) \<and>
     sk_fault k' = sk_fault k \<and> ((\<forall>n. sk_fault k n = None) \<longrightarrow> r = Inr ()))"

lemma prints_good:
  assumes "prints m t" "\<forall>n. sk_fault k n = None"
  shows "\<exists>k'. m k = (Inr (), k') \<and> sk_text k' = sk_text k @ t \<and> sk_fault k' = sk_fault k"
proof -
  obtain r k' where run: "m k = (r, k')" by (cases "m k")
  with assms have "r = Inr ()" unfolding prints_def by blast
  then show ?thesis using assms(1) run unfolding prints_def by fastforce
qed

lemma prints_fprint: "prints (fprint s) s"
  by (auto simp: prints_def fprint_def sink_write_def Let_def take_is_prefix split: option.splits prod.splits)

lemma prints_skipW: "prints skipW []"
  by (auto simp: prints_def skipW_def)

lemma prints_seqW:
  assumes m: "prints m s" and n: "prints n t"
  shows "prints (seqW m n) (s @ t)"
  unfolding prints_def
proof (intro allI impI)
  fix k r k' assume run: "seqW m n k = (r, k')"
  obtain r1 k1 where k1: "m k = (r1, k1)" by (cases "m k")
  obtain p where p: "sk_text k1 = sk_text k @ p" "prefix p s" "sk_fault k1 = sk_fault k"
      "(\<forall>n. sk_fault k n = None) \<longrightarrow> r1 = Inr ()"
      "case r1 of Inr _ \<Rightarrow> p = s | Inl e \<Rightarrow> \<exists>x. e = Wrap ''write status'' [x]"
    using m k1 unfolding prints_def by blast
  show "(\<exists>p. sk_text k' = sk_text k @ p \<and> prefix p (s @ t) \<and>
       (case r of Inr _ \<Rightarrow> p = s @ t | Inl e \<Rightarrow> \<exists>x. e = Wrap ''write status'' [x])) \<and>
     sk_fault k' = sk_fault k \<and> ((\<forall>n. sk_fault k n = None) \<longrightarrow> r = Inr ())"
  proof (cases r1)
    case (Inl e)
    then have "r = Inl e" "k' = k1" using run k1 by (auto simp: seqW_def)
    then show ?thesis using p Inl by (auto simp: prefix_prefix)
  next
    case (Inr u)
    then have run2: "n k1 = (r, k')" using run k1 by (simp add: seqW_def)
    obtain q where q: "sk_text k' = sk_text k1 @ q" "prefix q t" "sk_fault k' = sk_fault k1"
        "(\<forall>n. sk_fault k1 n = None) \<longrightarrow> r = Inr ()"
        "case r of Inr _ \<Rightarrow> q = t | Inl e \<Rightarrow> \<exists>x. e = Wrap ''write status'' [x]"
      using n run2 unfolding prints_def by blast
    have "sk_text k' = sk_text k @ (s @ q)" "prefix (s @ q) (s @ t)" using p q Inr by auto
    then show ?thesis using p q Inr by (cases r) auto
  qed
qed

lemma prints_if: "(b \<Longrightarrow> prints m s) \<Longrightarrow> (\<not> b \<Longrightarrow> prints n t) \<Longrightarrow> prints (if b then m else n) (if b then s else t)"
  by simp

abbreviation blanks :: "nat \<Rightarrow> string" where
  "blanks n \<equiv> replicate n (CHR '' '')"

lemma prints_blanks: "0 \<le> n \<Longrightarrow> prints (fprint_blanks n) (blanks (nat n))"
  using prints_fprint [of "blanks (nat n)"] by (simp add: fprint_blanks_def prints_def)

section \<open>Tables\<close>

lemma widen_ge:
  "length ws \<le> length (widen ws row) \<and> length row \<le> length (widen ws row) \<and>
   (\<forall>i < length ws. ws ! i \<le> widen ws row ! i) \<and> (\<forall>i < length row. length (row ! i) \<le> widen ws row ! i)"
proof (induction ws row rule: widen.induct)
  case (2 c cs) then show ?case by (auto simp: nth_Cons split: nat.splits)
next
  case (3 v vs c cs) then show ?case by (auto simp: nth_Cons split: nat.splits)
qed simp

lemma foldl_widen_ge:
  "length ws \<le> length (foldl widen ws rows) \<and> (\<forall>i < length ws. ws ! i \<le> foldl widen ws rows ! i)"
proof (induction rows arbitrary: ws)
  case (Cons row rows)
  have a: "length ws \<le> length (widen ws row)" "\<And>i. i < length ws \<Longrightarrow> ws ! i \<le> widen ws row ! i"
    using widen_ge [of ws row] by auto
  have b: "length (widen ws row) \<le> length (foldl widen (widen ws row) rows)"
    "\<And>i. i < length (widen ws row) \<Longrightarrow> widen ws row ! i \<le> foldl widen (widen ws row) rows ! i"
    using Cons [of "widen ws row"] by auto
  show ?case using a b by (auto intro: le_trans order_less_le_trans)
qed simp

lemma widths_fit_from:
  "row \<in> set rows \<Longrightarrow> i < length row \<Longrightarrow>
    i < length (foldl widen ws rows) \<and> length (row ! i) \<le> foldl widen ws rows ! i"
proof (induction rows arbitrary: ws)
  case (Cons r rows)
  show ?case
  proof (cases "row = r")
    case True
    have a: "length r \<le> length (widen ws r)" "length (r ! i) \<le> widen ws r ! i"
      using widen_ge [of ws r] Cons.prems True by auto
    have "i < length (widen ws r)" using a Cons.prems True by simp
    then show ?thesis using foldl_widen_ge [of "widen ws r" rows] a True by (auto intro: le_trans)
  next
    case False
    then show ?thesis using Cons.IH [of "widen ws r"] Cons.prems by simp
  qed
qed simp

lemma widths_fit: "row \<in> set rows \<Longrightarrow> i < length row \<Longrightarrow> length (row ! i) \<le> tableWidths rows ! i"
  by (simp add: tableWidths_def widths_fit_from)

text \<open>What is left of a row is its front.\<close>

lemma printed_cells_take: "printed_cells row = take (length (printed_cells row)) row"
proof (cases row)
  case (Cons c cs)
  have "rev cs = takeWhile (\<lambda>x. x = []) (rev cs) @ dropWhile (\<lambda>x. x = []) (rev cs)" by simp
  then have "cs = rev (dropWhile (\<lambda>x. x = []) (rev cs)) @ rev (takeWhile (\<lambda>x. x = []) (rev cs))"
    by (metis rev_append rev_rev_ident)
  then show ?thesis using Cons by (metis append_eq_conv_conj length_Cons list.case(2) printed_cells_def take_Suc_Cons)
qed (simp add: printed_cells_def)

lemma printed_cells_nth: "i < length (printed_cells row) \<Longrightarrow> printed_cells row ! i = row ! i \<and> i < length row"
  by (metis length_take min_less_iff_conj nth_take printed_cells_take)

definition cell_text :: "bool \<Rightarrow> nat list \<Rightarrow> nat \<Rightarrow> nat \<Rightarrow> string \<Rightarrow> string" where
  "cell_text right ws lastCell i c =
     (if 0 < i then ''  '' else []) @ (if right \<and> 0 < i then blanks (ws ! i - length c) else []) @ c @
     (if i < lastCell \<and> (\<not> right \<or> i = 0) then blanks (ws ! i - length c) else [])"

fun cells_text :: "bool \<Rightarrow> nat list \<Rightarrow> nat \<Rightarrow> nat \<Rightarrow> string list \<Rightarrow> string" where
  "cells_text right ws lastCell i [] = []"
| "cells_text right ws lastCell i (c # cs) = cell_text right ws lastCell i c @ cells_text right ws lastCell (Suc i) cs"

definition row_text :: "bool \<Rightarrow> nat list \<Rightarrow> string list \<Rightarrow> string" where
  "row_text right ws row = (let cells = printed_cells row in ''  '' @ cells_text right ws (length cells - 1) 0 cells)"

definition table_text :: "string \<Rightarrow> string list list \<Rightarrow> bool \<Rightarrow> string" where
  "table_text title rows right =
     title @ '':\<newline>'' @ concat (map (\<lambda>row. row_text right (tableWidths rows) row @ ''\<newline>'') rows) @ ''\<newline>''"

lemma prints_cell:
  assumes "length c \<le> ws ! i"
  shows "prints (write_cell right ws lastCell i c) (cell_text right ws lastCell i c)"
proof -
  have pad: "nat (int (ws ! i) - int (length c)) = ws ! i - length c" by simp
  show ?thesis
    unfolding write_cell_def cell_text_def Let_def pad [symmetric]
    using assms by (intro prints_seqW prints_if prints_fprint prints_skipW prints_blanks) auto
qed

lemma prints_cells:
  "(\<And>j. j < length cs \<Longrightarrow> length (cs ! j) \<le> ws ! (i + j)) \<Longrightarrow>
    prints (write_cells right ws lastCell i cs) (cells_text right ws lastCell i cs)"
proof (induction cs arbitrary: i)
  case (Cons c cs)
  have "prints (write_cells right ws lastCell (Suc i) cs) (cells_text right ws lastCell (Suc i) cs)"
    using Cons.prems [of "Suc _"] by (intro Cons.IH) auto
  then show ?case using Cons.prems [of 0] by (simp add: prints_seqW prints_cell)
qed (simp add: prints_skipW)

lemma prints_rows:
  "(\<And>row i. row \<in> set rows \<Longrightarrow> i < length row \<Longrightarrow> length (row ! i) \<le> ws ! i) \<Longrightarrow>
    prints (write_rows right ws rows) (concat (map (\<lambda>row. row_text right ws row @ ''\<newline>'') rows))"
proof (induction rows)
  case (Cons row rows)
  let ?cells = "printed_cells row"
  have cells: "prints (write_cells right ws (length ?cells - 1) 0 ?cells) (cells_text right ws (length ?cells - 1) 0 ?cells)"
    using Cons.prems printed_cells_nth by (intro prints_cells) auto
  have rows: "prints (write_rows right ws rows) (concat (map (\<lambda>row. row_text right ws row @ ''\<newline>'') rows))"
    using Cons by simp
  have "prints (write_rows right ws (row # rows))
    (''  '' @ cells_text right ws (length ?cells - 1) 0 ?cells @ ''\<newline>'' @ concat (map (\<lambda>row. row_text right ws row @ ''\<newline>'') rows))"
    unfolding write_rows.simps Let_def by (intro prints_seqW prints_fprint cells rows)
  then show ?case by (simp add: row_text_def Let_def)
qed (simp add: prints_skipW)

lemma prints_table: "prints (writeTableAligned title rows right) (table_text title rows right)"
proof -
  have "prints (write_rows right (tableWidths rows) rows)
      (concat (map (\<lambda>row. row_text right (tableWidths rows) row @ ''\<newline>'') rows))"
    using widths_fit by (intro prints_rows) auto
  from prints_seqW [OF prints_fprint [of "title @ '':\<newline>''"] prints_seqW [OF this prints_fprint [of "''\<newline>''"]]]
  show ?thesis by (simp add: writeTableAligned_def table_text_def)
qed

text \<open>Where the cells of a line stand.\<close>

lemma cells_text_split:
  "i < length cs \<Longrightarrow> \<exists>before after. cells_text right ws lastCell i0 cs = before @ cell_text right ws lastCell (i0 + i) (cs ! i) @ after \<and>
    length before = (\<Sum>k<i. length (cell_text right ws lastCell (i0 + k) (cs ! k)))"
proof (induction cs arbitrary: i i0)
  case (Cons c cs)
  show ?case
  proof (cases i)
    case 0
    then show ?thesis by (intro exI [of _ "[]"] exI [of _ "cells_text right ws lastCell (Suc i0) cs"]) simp
  next
    case (Suc j)
    obtain before after where b: "cells_text right ws lastCell (Suc i0) cs =
          before @ cell_text right ws lastCell (Suc i0 + j) (cs ! j) @ after"
        "length before = (\<Sum>k<j. length (cell_text right ws lastCell (Suc i0 + k) (cs ! k)))"
      using Cons.IH [of j "Suc i0"] Cons.prems Suc by auto
    show ?thesis
      by (intro exI [of _ "cell_text right ws lastCell i0 c @ before"] exI [of _ after])
        (simp add: Suc b sum.lessThan_Suc_shift del: sum.lessThan_Suc)
  qed
qed simp

definition column_start :: "nat list \<Rightarrow> nat \<Rightarrow> nat" where
  "column_start ws i = 2 + (\<Sum>k<i. ws ! k + 2)"

lemma column_start_Suc: "column_start ws (Suc i) = column_start ws i + ws ! i + 2"
  by (simp add: column_start_def)

definition cell_at :: "bool \<Rightarrow> nat list \<Rightarrow> string \<Rightarrow> nat \<Rightarrow> nat \<Rightarrow> string" where
  "cell_at right ws line i n =
     take n (drop (column_start ws i + (if right \<and> 0 < i then ws ! i - n else 0)) line)"

lemma length_cell_text:
  "length c \<le> ws ! i \<Longrightarrow> i < lastCell \<Longrightarrow> length (cell_text right ws lastCell i c) = (if 0 < i then 2 else 0) + ws ! i"
  by (cases "i = 0") (auto simp: cell_text_def)

lemma sum_cells:
  "(\<And>k. k < i \<Longrightarrow> f k = (if 0 < k then 2 else 0) + ws ! k) \<Longrightarrow>
    (\<Sum>k<i. f k) + (if 0 < i then 2 else 0) + 2 = column_start ws i" for f :: "nat \<Rightarrow> nat"
proof (induction i)
  case (Suc i)
  have "(\<Sum>k<i. f k) + (if 0 < i then 2 else 0) + 2 = column_start ws i" using Suc by simp
  then show ?case using Suc.prems [of i] by (simp add: column_start_Suc)
qed (simp add: column_start_def)

lemma take_drop_middle: "length xs = n \<Longrightarrow> take (length c) (drop n (xs @ c @ ys)) = c"
  by simp

lemma row_aligned:
  assumes fit: "\<And>i. i < length row \<Longrightarrow> length (row ! i) \<le> ws ! i" and i: "i < length (printed_cells row)"
  shows "cell_at right ws (row_text right ws row) i (length (row ! i)) = row ! i"
proof -
  let ?cells = "printed_cells row" and ?last = "length (printed_cells row) - 1" and ?c = "row ! i"
  obtain before after where split: "cells_text right ws ?last 0 ?cells = before @ cell_text right ws ?last i (?cells ! i) @ after"
      "length before = (\<Sum>k<i. length (cell_text right ws ?last k (?cells ! k)))"
    using cells_text_split [OF i, of right ws ?last 0] by auto
  have c: "?cells ! i = ?c" using printed_cells_nth [OF i] by simp
  have start: "length before + (if 0 < i then 2 else 0) + 2 = column_start ws i"
    unfolding split(2)
  proof (rule sum_cells)
    fix k assume k: "k < i"
    then have "length (?cells ! k) \<le> ws ! k" using printed_cells_nth [of k row] fit [of k] i by simp
    then show "length (cell_text right ws ?last k (?cells ! k)) = (if 0 < k then 2 else 0) + ws ! k"
      using k i by (intro length_cell_text) auto
  qed
  have line: "row_text right ws row = (''  '' @ before @ (if 0 < i then ''  '' else []) @
      (if right \<and> 0 < i then blanks (ws ! i - length ?c) else [])) @ ?c @
      ((if i < ?last \<and> (\<not> right \<or> i = 0) then blanks (ws ! i - length ?c) else []) @ after)"
    by (simp only: row_text_def Let_def split c cell_text_def append_assoc)
  have "length (''  '' @ before @ (if 0 < i then ''  '' else []) @
      (if right \<and> 0 < i then blanks (ws ! i - length ?c) else [])) =
      column_start ws i + (if right \<and> 0 < i then ws ! i - length ?c else 0)"
    using start by auto
  then show ?thesis unfolding cell_at_def line by (rule take_drop_middle)
qed

text \<open>
  C38. A table printed to a writer that takes everything is its title and one line per row, and
  every cell stands in its column: a column starts at the same place in every line, or ends there
  when it is aligned to the right. No cell is cut, and the padding is never negative (which would
  be a panic).
\<close>

theorem table_aligned:
  assumes works: "\<forall>n. sk_fault k n = None"
  shows "\<exists>lines k'. writeTableAligned title rows right k = (Inr (), k') \<and>
    sk_text k' = sk_text k @ title @ '':\<newline>'' @ concat (map (\<lambda>line. line @ ''\<newline>'') lines) @ ''\<newline>'' \<and>
    list_all2 (\<lambda>row line. list_all (\<lambda>i. cell_at right (tableWidths rows) line i (length (row ! i)) = row ! i)
       [0..<length (printed_cells row)]) rows lines"
proof -
  obtain k' where "writeTableAligned title rows right k = (Inr (), k')" "sk_text k' = sk_text k @ table_text title rows right"
    using prints_good [OF prints_table works] by blast
  moreover have "list_all2 (\<lambda>row line. list_all (\<lambda>i. cell_at right (tableWidths rows) line i (length (row ! i)) = row ! i)
       [0..<length (printed_cells row)]) rows (map (row_text right (tableWidths rows)) rows)"
    by (auto simp: list_all2_map2 list_all_iff list_all2_same intro!: row_aligned widths_fit)
  ultimately show ?thesis
    by (intro exI [of _ "map (row_text right (tableWidths rows)) rows"] exI [of _ k']) (simp add: table_text_def comp_def)
qed

theorem table_aligned_witness:
  "\<exists>lines k'. writeTableAligned ''T'' [[''Type'', ''Files''], [''None'', ''0'']] True \<lparr>sk_text = [], sk_writes = 0, sk_fault = \<lambda>_. None\<rparr> =
      (Inr (), k') \<and> sk_text k' = ''T:\<newline>'' @ concat (map (\<lambda>line. line @ ''\<newline>'') lines) @ ''\<newline>'' \<and> length lines = 2"
proof -
  have "\<forall>n. sk_fault \<lparr>sk_text = [], sk_writes = 0, sk_fault = \<lambda>_. None\<rparr> n = None" by simp
  from table_aligned [OF this, of "''T''" "[[''Type'', ''Files''], [''None'', ''0'']]" True]
  obtain lines k' where t: "writeTableAligned ''T'' [[''Type'', ''Files''], [''None'', ''0'']] True
        \<lparr>sk_text = [], sk_writes = 0, sk_fault = \<lambda>_. None\<rparr> = (Inr (), k')"
      "sk_text k' = ''T:\<newline>'' @ concat (map (\<lambda>line. line @ ''\<newline>'') lines) @ ''\<newline>''"
      "length lines = length [[''Type'', ''Files''], [''None'', ''0'']]"
    by (auto dest!: list_all2_lengthD)
  show ?thesis using t by (intro exI [of _ lines] exI [of _ k']) simp
qed

section \<open>The whole report\<close>

text \<open>The outcome of printing to \<open>k\<close>, seen against the full text.\<close>

definition outcome :: "sink \<Rightarrow> string \<Rightarrow> ((err + unit) \<times> sink) option \<Rightarrow> bool" where
  "outcome k t res \<longleftrightarrow> (\<exists>r k' p. res = Some (r, k') \<and> sk_text k' = sk_text k @ p \<and> prefix p t \<and>
     (case r of Inr _ \<Rightarrow> p = t | Inl e \<Rightarrow> \<exists>x. e = Wrap ''write status'' [x]) \<and>
     sk_fault k' = sk_fault k \<and> ((\<forall>n. sk_fault k n = None) \<longrightarrow> r = Inr ()))"

lemma outcome_seqO:
  assumes res: "outcome k s res" and m: "prints m t"
  shows "outcome k (s @ t) (seqO res (Some m))"
proof -
  obtain r k1 p where r: "res = Some (r, k1)" "sk_text k1 = sk_text k @ p" "prefix p s" "sk_fault k1 = sk_fault k"
      "case r of Inr _ \<Rightarrow> p = s | Inl e \<Rightarrow> \<exists>x. e = Wrap ''write status'' [x]" "(\<forall>n. sk_fault k n = None) \<longrightarrow> r = Inr ()"
    using res unfolding outcome_def by blast
  show ?thesis
  proof (cases r)
    case (Inl e)
    then have "seqO res (Some m) = Some (Inl e, k1)" using r by (simp add: seqO_def)
    with r Inl show ?thesis by (auto simp: outcome_def prefix_prefix)
  next
    case (Inr u)
    obtain r2 k2 where run: "m k1 = (r2, k2)" by (cases "m k1")
    then have eq: "seqO res (Some m) = Some (r2, k2)" using r Inr by (simp add: seqO_def)
    obtain q where q: "sk_text k2 = sk_text k1 @ q" "prefix q t" "sk_fault k2 = sk_fault k1"
        "case r2 of Inr _ \<Rightarrow> q = t | Inl e \<Rightarrow> \<exists>x. e = Wrap ''write status'' [x]" "(\<forall>n. sk_fault k1 n = None) \<longrightarrow> r2 = Inr ()"
      using m run unfolding prints_def by blast
    have "sk_text k2 = sk_text k @ (s @ q)" "prefix (s @ q) (s @ t)" using q r Inr by auto
    then show ?thesis unfolding outcome_def eq using q r Inr by (intro exI [of _ r2] exI [of _ k2] exI [of _ "s @ q"]) (auto split: sum.split)
  qed
qed

definition prints_if_any :: "writer option \<Rightarrow> bool" where
  "prints_if_any m \<longleftrightarrow> (\<forall>x. m = Some x \<longrightarrow> (\<exists>t. prints x t))"

lemma outcome_foldl:
  "list_all prints_if_any ms \<Longrightarrow> None \<notin> set ms \<Longrightarrow>
    \<exists>t. \<forall>k res. outcome k s res \<longrightarrow> outcome k (s @ t) (foldl seqO res ms)"
proof (induction ms arbitrary: s)
  case Nil show ?case by (intro exI [of _ "[]"]) simp
next
  case (Cons m ms)
  then obtain x t where x: "m = Some x" "prints x t" unfolding prints_if_any_def by (cases m) auto
  obtain t' where "\<forall>k res. outcome k (s @ t) res \<longrightarrow> outcome k ((s @ t) @ t') (foldl seqO res ms)"
    using Cons.IH [of "s @ t"] Cons.prems by auto
  with x outcome_seqO have "\<forall>k res. outcome k s res \<longrightarrow> outcome k (s @ (t @ t')) (foldl seqO res (m # ms))" by simp
  then show ?case by blast
qed

lemma seqO_simps [simp]: "seqO None m = None" "seqO (Some (Inr u, k)) m = map_option (\<lambda>f. f k) m"
  by (simp_all add: seqO_def)

lemma foldl_seqO_None: "foldl seqO None ms = None"
  by (induction ms) auto

lemma foldl_seqO_stuck:
  "list_all prints_if_any ms \<Longrightarrow> None \<in> set ms \<Longrightarrow> \<forall>n. sk_fault k n = None \<Longrightarrow> foldl seqO (Some (Inr (), k)) ms = None"
proof (induction ms arbitrary: k)
  case (Cons m ms)
  show ?case
  proof (cases m)
    case None
    then show ?thesis by (simp add: foldl_seqO_None)
  next
    case (Some x)
    then obtain t where "prints x t" using Cons.prems unfolding prints_if_any_def by auto
    then obtain k' where "x k = (Inr (), k')" "sk_fault k' = sk_fault k" using prints_good Cons.prems(3) by blast
    then show ?thesis using Cons Some by simp
  qed
qed simp

lemma report_prints: "list_all prints_if_any (report_tables s now)"
  using prints_table
  by (auto simp: report_tables_def prints_if_any_def print_table_def writeBlobTypeStatus_def writeRetainedTypeStatus_def
      writeTable_def writeRightAlignedTable_def)

lemma print_status_outcome:
  assumes "None \<notin> set (report_tables s now)"
  shows "\<exists>t. \<forall>k. outcome k t (print_status s now k)"
proof -
  obtain t where "\<forall>k res. outcome k [] res \<longrightarrow> outcome k ([] @ t) (foldl seqO res (report_tables s now))"
    using outcome_foldl [OF report_prints assms] by blast
  moreover have "outcome k [] (Some (Inr (), k))" for k by (simp add: outcome_def)
  ultimately show ?thesis unfolding print_status_def by auto
qed

text \<open>Sizes that are not negative, and do not wrap when they are added up, can be printed.\<close>

definition printable :: "cacheStatus \<Rightarrow> bool" where
  "printable s \<longleftrightarrow> in_i64 (st_maxSize s) \<and> 0 \<le> st_maxSize s \<and>
     in_i64 (cs_size (st_catalog s)) \<and> 0 \<le> cs_size (st_catalog s) \<and>
     0 \<le> cs_compressedSize (st_catalog s) \<and> 0 \<le> st_retainedSize s \<and>
     in_i64 (cs_compressedSize (st_catalog s) + st_retainedSize s) \<and>
     list_all (\<lambda>b. in_i64 (bs_size b) \<and> 0 \<le> bs_size b \<and> in_i64 (bs_compressedSize b) \<and> 0 \<le> bs_compressedSize b) (st_blobTypes s) \<and>
     list_all (\<lambda>r. 0 \<le> rt_size r) (st_retainedTypes s)"

lemma those_None: "those xs = None \<longleftrightarrow> None \<in> set xs"
  by (induction xs) (auto split: option.splits)

lemma table_rows_returns: "(\<exists>t. table_rows rows = Some t) \<longleftrightarrow> list_all (list_all (\<lambda>x. \<exists>y. x = Some y)) rows"
proof -
  have "table_rows rows = None \<longleftrightarrow> (\<exists>row \<in> set rows. None = those row)"
    by (auto simp: table_rows_def those_None image_iff)
  also have "\<dots> \<longleftrightarrow> (\<exists>row \<in> set rows. None \<in> set row)" by (simp add: eq_commute [of None] those_None)
  finally show ?thesis by (auto simp: list_all_iff)
qed

lemma formatSize_some [simp]: "0 \<le> sz \<Longrightarrow> \<exists>y. formatSize sz = Some y"
  using formatSize_nonneg by blast

lemma bind_some [simp]: "(\<exists>y. Option.bind m f = Some y) \<longleftrightarrow> (\<exists>x. m = Some x \<and> (\<exists>y. f x = Some y))"
  by (cases m) auto

lemma formatSize_difference: "in_i64 a \<Longrightarrow> 0 \<le> a \<Longrightarrow> in_i64 b \<Longrightarrow> 0 \<le> b \<Longrightarrow> formatSize (i64 (a - b)) \<noteq> None"
  by (subst i64_in_range, simp add: in_i64_def min_i64_def max_i64_def, rule formatSize_returns)
    (auto simp: in_i64_def min_i64_def max_i64_def)

lemma formatSavingsAmount_returns:
  "in_i64 a \<Longrightarrow> 0 \<le> a \<Longrightarrow> in_i64 b \<Longrightarrow> 0 \<le> b \<Longrightarrow> formatSavingsAmount a b \<noteq> None"
  using formatSize_difference by (simp add: formatSavingsAmount_def)

lemma savings_widths_returns:
  "list_all (\<lambda>b. formatSavingsAmount (bs_size b) (bs_compressedSize b) \<noteq> None) ss \<Longrightarrow> savings_widths ss ws \<noteq> None"
proof (induction ss arbitrary: ws)
  case (Cons s ss)
  then show ?case by (cases ws) auto
qed simp

lemma blob_type_rows_returns:
  assumes "list_all (\<lambda>b. in_i64 (bs_size b) \<and> 0 \<le> bs_size b \<and> in_i64 (bs_compressedSize b) \<and> 0 \<le> bs_compressedSize b) ss"
  shows "\<exists>t. blob_type_rows ss = Some t"
proof -
  have amounts: "\<exists>y. formatSavingsAmount (bs_size s) (bs_compressedSize s) = Some y" "0 \<le> bs_size s" "0 \<le> bs_compressedSize s"
    if "s \<in> set ss" for s
    using that assms formatSavingsAmount_returns by (auto simp: list_all_iff)
  obtain a p where ws: "savingsWidths ss = Some (a, p)"
    unfolding savingsWidths_def using savings_widths_returns [of ss] amounts(1) by (force simp: list_all_iff)
  have rows: "list_all (list_all (\<lambda>x. \<exists>y. x = Some y)) (map (\<lambda>s. [Some (blob_label (bs_kind s)), Some (formatInt (bs_count s)),
      formatBytes (bs_size s), formatBytes (bs_compressedSize s), formatAlignedSavings (bs_size s) (bs_compressedSize s) a p]) ss)"
    using amounts by (auto simp: list_all_iff formatBytes_def formatAlignedSavings_def)
  show ?thesis
  proof (cases "ss = []")
    case True
    then show ?thesis
      by (simp add: blob_type_rows_def table_rows_returns formatBytes_def formatAlignedSavings_def formatSavingsAmount_def)
  next
    case False
    then show ?thesis using rows ws by (simp add: blob_type_rows_def Let_def table_rows_returns)
  qed
qed

lemma retained_type_rows_returns: "list_all (\<lambda>r. 0 \<le> rt_size r) ss \<Longrightarrow> \<exists>t. retained_type_rows ss = Some t"
  by (simp add: retained_type_rows_def Let_def table_rows_returns formatBytes_def list_all_iff)

lemma storage_rows_returns:
  assumes p: "printable s"
  shows "\<exists>t. storage_rows s = Some t"
proof -
  have range: "in_i64 (cs_compressedSize (st_catalog s))" "in_i64 (st_retainedSize s)"
    using p by (auto simp: printable_def in_i64_def min_i64_def)
  have "\<exists>y. formatSize (i64 (st_maxSize s - cs_compressedSize (st_catalog s))) = Some y"
      "\<exists>y. formatSavingsAmount (cs_size (st_catalog s)) (cs_compressedSize (st_catalog s)) = Some y"
      "\<exists>y. formatSavingsAmount (cs_size (st_catalog s)) (cs_compressedSize (st_catalog s) + st_retainedSize s) = Some y"
    using p range formatSize_difference formatSavingsAmount_returns unfolding printable_def by auto
  with p show ?thesis
    by (auto simp: storage_rows_def Let_def table_rows_returns formatStorageSize_def formatMaxUsage_def formatSavings_def
        formatBytes_def printable_def)
qed

lemma tables_return:
  assumes p: "printable s"
  shows "None \<notin> set (report_tables s now)"
proof -
  have conf: "\<exists>t. configuration_rows s = Some t" "\<exists>t. summary_rows s now = Some t"
    using p by (auto simp: configuration_rows_def summary_rows_def table_rows_returns formatBytes_def printable_def)
  obtain b where "blob_type_rows (st_blobTypes s) = Some b" using p blob_type_rows_returns unfolding printable_def by blast
  moreover obtain r where "retained_type_rows (st_retainedTypes s) = Some r"
    using p retained_type_rows_returns unfolding printable_def by blast
  ultimately show ?thesis using conf storage_rows_returns [OF p]
    by (auto simp: report_tables_def print_table_def writeBlobTypeStatus_def writeRetainedTypeStatus_def)
qed

text \<open>
  C40. A status whose sizes are not negative and whose total fits an int64 is always printed: the
  report returns, and to a working output it succeeds.
\<close>

theorem report_returns:
  assumes "printable s"
  shows "\<exists>r k'. print_status s now k = Some (r, k') \<and> ((\<forall>n. sk_fault k n = None) \<longrightarrow> r = Inr ())"
  using print_status_outcome [OF tables_return [OF assms]] unfolding outcome_def by blast

text \<open>
  C39. A status that cannot be written in full ends with the error of the failing write, and what was
  written until then is the beginning of the report a working output gets; if every write succeeds it
  is that report. Reading the status is not affected.
\<close>

theorem report_is_prefix:
  assumes works: "writeStatus cd arrive c (k\<lparr>sk_fault := \<lambda>_. None\<rparr>) w = (Some (r0, k0), w0)"
  shows "\<exists>r k'. writeStatus cd arrive c k w = (Some (r, k'), w0) \<and> prefix (sk_text k') (sk_text k0) \<and>
    (case r of Inr _ \<Rightarrow> r0 = Inr () \<and> sk_text k' = sk_text k0
     | Inl e \<Rightarrow> r0 = Inl e \<and> k' = k \<or> r0 = Inr () \<and> (\<exists>x. e = Wrap ''write status'' [x]))"
proof (cases "readStatus cd arrive c w")
  case (Pair read w1)
  show ?thesis
  proof (cases read)
    case (Inl e)
    then show ?thesis using works Pair by (auto simp: writeStatus_def)
  next
    case (Inr s)
    let ?now = "clock w1 (ticks w1)" and ?good = "k\<lparr>sk_fault := \<lambda>_. None\<rparr>"
    have good: "print_status s ?now ?good = Some (r0, k0)" "w0 = w1\<lparr>ticks := Suc (ticks w1)\<rparr>"
      using works Pair Inr by (auto simp: writeStatus_def)
    then have "None \<notin> set (report_tables s ?now)"
      using foldl_seqO_stuck [OF report_prints, of s ?now ?good] unfolding print_status_def by auto
    then obtain t where t: "\<And>k. outcome k t (print_status s ?now k)" using print_status_outcome by blast
    have "r0 = Inr ()" "sk_text k0 = sk_text k @ t" using t [of ?good] unfolding good by (auto simp: outcome_def)
    moreover obtain r k' p where "print_status s ?now k = Some (r, k')" "sk_text k' = sk_text k @ p" "prefix p t"
        "case r of Inr _ \<Rightarrow> p = t | Inl e \<Rightarrow> \<exists>x. e = Wrap ''write status'' [x]"
      using t [of k] unfolding outcome_def by blast
    ultimately show ?thesis using Pair Inr good(2) by (auto simp: writeStatus_def split: sum.splits)
  qed
qed

abbreviation "empty_sink \<equiv> \<lparr>sk_text = [], sk_writes = 0, sk_fault = \<lambda>_. None\<rparr>"

lemma bare_status_printable:
  "in_i64 (maxSize c) \<Longrightarrow> 0 \<le> maxSize c \<Longrightarrow> printable (bare_status c)"
  by (simp add: printable_def bare_status_def no_catalog_def in_i64_def min_i64_def max_i64_def)

theorem report_returns_witness:
  "\<exists>r k'. print_status (bare_status demo_config) 0 empty_sink = Some (r, k')"
  using report_returns [OF bare_status_printable, of demo_config 0 empty_sink] by (auto simp: demo_config_def in_i64_def max_i64_def min_i64_def)

theorem report_is_prefix_witness:
  "\<exists>r k'. writeStatus plain_codec id demo_config (empty_sink\<lparr>sk_fault := (\<lambda>n. if n = 3 then Some (1, SysErr ''EPIPE'') else None)\<rparr>) calm_world =
      (Some (r, k'), calm_world\<lparr>ticks := 2\<rparr>)"
proof -
  let ?bad = "empty_sink\<lparr>sk_fault := (\<lambda>n. if n = 3 then Some (1, SysErr ''EPIPE'') else None)\<rparr>"
  have read: "readStatus plain_codec id demo_config calm_world = (Inr (bare_status demo_config), calm_world\<lparr>ticks := 1\<rparr>)"
    by (simp add: readStatus_def cachePaths_def Let_def demo_config_def cacheVersionDir_def bindE_def tryE_def os_stat_def sys_def
        effect_def node_at_def)
  have "printable (bare_status demo_config)" by (simp add: bare_status_printable demo_config_def in_i64_def max_i64_def min_i64_def)
  then obtain r k' where "print_status (bare_status demo_config) 0 (?bad\<lparr>sk_fault := \<lambda>_. None\<rparr>) = Some (r, k')"
    using print_status_outcome [OF tables_return] unfolding outcome_def by blast
  with read have "writeStatus plain_codec id demo_config (?bad\<lparr>sk_fault := \<lambda>_. None\<rparr>) calm_world = (Some (r, k'), calm_world\<lparr>ticks := 2\<rparr>)"
    by (simp add: writeStatus_def)
  from report_is_prefix [OF this] show ?thesis by blast
qed

end
