(* ===== verification/Status_Laws.thy ===== *)
theory Status_Laws
  imports Status Triples Closing
begin

text \<open>
  Reading the status changes nothing but the cached classifications: no file, no lock file, no
  row of the catalog.
\<close>

section \<open>Reading\<close>

text \<open>What others can see: the files, the catalog and the store's memory.\<close>

definition visible :: "world \<Rightarrow> ((path \<times> node) list \<times> (nat \<Rightarrow> inode) \<times> nat) \<times> tables \<times> store_mem" where
  "visible w = (file_side w, db w, mem w)"

lemma visible_simps [simp]: "visible (w\<lparr>ticks := n\<rparr>) = visible w" "visible (w\<lparr>held := h\<rparr>) = visible w"
  by (simp_all add: visible_def file_side_def)

lemma frame_visible_sysI: "(\<And>w. visible (snd (f w)) = visible w) \<Longrightarrow> frame visible (sys f)"
  by (auto simp: frame_def sys_def effect_def Let_def split: option.splits)

lemma visible_reads [simp]:
  "frame visible (os_stat p)" "frame visible (os_open p)" "frame visible (file_read i)" "frame visible (file_close i)"
  "frame visible (os_read_dir p)" "frame visible (walk_dir p)" "frame visible (flock_unlock p)" "frame visible (flock_close p)"
  unfolding os_stat_def os_open_def file_read_def file_close_def os_read_dir_def walk_dir_def flock_unlock_def flock_close_def
  by (rule frame_visible_sysI; auto split: option.splits node.splits simp: Let_def)+

text \<open>A lock that is opened read-only does not create its file.\<close>

lemma visible_flock_try [simp]: "frame visible (flock_try False p)"
  unfolding flock_try_def by (rule frame_visible_sysI) (auto simp: bindE_def lock_file_def)

lemma visible_sql_read [simp]: "frame visible (sql_read g)" "frame visible begin_tx" "frame visible time_now"
  by (auto simp: frame_def sql_read_def sql_def effect_def Let_def time_now_def begin_tx_def visible_def file_side_def split: option.splits)

lemma visible_outputStats [simp]: "frame visible q_outputStats"
  by (auto simp: frame_def q_outputStats_def sql_def effect_def Let_def visible_def file_side_def split: option.splits prod.splits)

text \<open>An invariant of what is visible, through the readers.\<close>

abbreviation seen :: "(((path \<times> node) list \<times> (nat \<Rightarrow> inode) \<times> nat) \<times> tables \<times> store_mem \<Rightarrow> bool) \<Rightarrow> world \<Rightarrow> bool" where
  "seen J \<equiv> \<lambda>w. J (visible w)"

lemma keeps_seen: "frame visible m \<Longrightarrow> keeps (seen J) m"
  by (rule keeps_frame)

lemmas keeps_reads = visible_reads [THEN keeps_seen] visible_flock_try [THEN keeps_seen] visible_sql_read [THEN keeps_seen]
  visible_outputStats [THEN keeps_seen]

lemma keeps_os_read_file: "keeps (seen J) (os_read_file p)"
  unfolding os_read_file_def by (intro keeps_bindE keeps_reads)

lemma keeps_regularFile: "keeps (seen J) (regularFile p)"
  unfolding regularFile_def by (intro keeps_bindE keeps_tryE keeps_reads keeps_pure)

lemma keeps_openExistingDB: "keeps (seen J) (openExistingDB p)"
  unfolding openExistingDB_def by (intro keeps_bindE keeps_wrapE keeps_if keeps_reads keeps_pure)

lemma keeps_readCatalogStatus: "keeps (seen J) (readCatalogStatus p withTypes)"
  unfolding readCatalogStatus_def q_listOutputs_def q_countRuns_def
  by (intro keeps_bindE keeps_regularFile keeps_if keeps_tryE keeps_openExistingDB keeps_case_sum keeps_case_prod keeps_wrapE
      keeps_reads keeps_pure)

lemma keeps_stampAge: "keeps (seen J) (stampAge p)"
  unfolding stampAge_def by (intro keeps_bindE keeps_tryE keeps_case_sum keeps_reads keeps_pure)

lemma keeps_foldr: "(\<And>x m. x \<in> set xs \<Longrightarrow> keeps I m \<Longrightarrow> keeps I (f x m)) \<Longrightarrow> keeps I m \<Longrightarrow> keeps I (foldr f xs m)"
  by (induction xs) auto

lemma keeps_liveRunDirs: "keeps (seen J) (liveRunDirs p)"
  unfolding liveRunDirs_def Let_def
  by (intro keeps_bindE keeps_tryE keeps_case_sum keeps_case_prod keeps_if keeps_foldr keeps_reads keeps_pure)

lemma keeps_count_live: "keeps (seen J) (count_live rdirs n)"
proof (induction rdirs n rule: count_live.induct)
  case (2 rdir rdirs n)
  show ?case unfolding count_live.simps Let_def
    by (intro keeps_bindE keeps_tryE keeps_reads) (auto split: sum.splits bool.splits intro!: keeps_intros keeps_reads 2)
qed (unfold count_live.simps, rule keeps_pure)

lemma keeps_readLiveStatus: "keeps (seen J) (readLiveStatus p)"
  unfolding readLiveStatus_def by (intro keeps_bindE keeps_liveRunDirs keeps_count_live)

lemma keeps_walk_existing: "keeps (seen J) (walk_existing p)"
  unfolding walk_existing_def by (intro keeps_recoverE keeps_if keeps_reads keeps_pure)

lemma keeps_retainedFileKind: "keeps (seen J) (retainedFileKind p)"
  unfolding retainedFileKind_def by (intro keeps_if keeps_bindE keeps_tryE keeps_os_read_file keeps_pure)

lemma keeps_visit: "keeps (seen J) (visit_retained withTypes cached p s)"
  unfolding visit_retained_def Let_def
  by (intro keeps_bindE keeps_tryE keeps_case_sum keeps_case_option keeps_case_prod keeps_if keeps_retainedFileKind keeps_reads keeps_pure)

lemma keeps_visit_all: "keeps (seen J) (visit_all withTypes cached ps s)"
  by (induction ps arbitrary: s) (auto intro!: keeps_bindE keeps_visit keeps_pure)

lemma keeps_classifyCompressedBlob: "keeps (seen J) (classifyCompressedBlob cd p)"
  unfolding classifyCompressedBlob_def
  by (intro keeps_bindE keeps_tryE keeps_case_sum keeps_finallyE keeps_reads keeps_pure)

text \<open>Without types nothing is classified.\<close>

lemma visit_all_untyped: "yields (visit_all False cached ps s) (\<lambda>s'. rw_classified s' = rw_classified s)"
proof (induction ps arbitrary: s)
  case (Cons p ps)
  have step: "yields (visit_retained False cached p s) (\<lambda>s'. rw_classified s' = rw_classified s)"
    unfolding visit_retained_def Let_def by (auto simp: yields_def bindE_eq_Inr tryE_eq split: sum.split_asm if_split_asm)
  show ?case unfolding yields_def visit_all.simps bindE_eq_Inr
    using step Cons.IH unfolding yields_def by metis
qed (simp add: yields_def)

lemma persist_nothing: "persistClassifications p cl [] = returnE ()"
  by (rule ext) (simp add: persistClassifications_def writeClassifications_def ignoreE_eq)

section \<open>Caching\<close>

lemma keeps_classify_results:
  assumes "\<And>xs. keeps (seen J) (persistClassifications p blobClassifier xs)"
  shows "keeps (seen J) (classify_results cd p base outs byKind classified)"
proof (induction outs arbitrary: byKind classified)
  case Nil
  show ?case unfolding classify_results.simps by (intro keeps_bindE assms keeps_pure)
next
  case (Cons out outs)
  show ?case unfolding classify_results.simps Let_def
    by (intro keeps_bindE keeps_classifyCompressedBlob keeps_if assms Cons)
qed

lemma keeps_readStatus:
  assumes persist: "\<And>cl xs. types c \<Longrightarrow> cl \<in> {blobClassifier, retainedClassifier} \<Longrightarrow>
      keeps (seen J) (persistClassifications (dbPath (cacheVersionDir c)) cl xs)"
  shows "keeps (seen J) (readStatus cd arrive c)"
proof -
  have blobs: "keeps (seen J) (if types c then blobTypeStatuses cd arrive (dbPath (cacheVersionDir c)) base outs else returnE [])" for base outs
    unfolding blobTypeStatuses_def classifyBlobTypes_def
    by (intro keeps_if keeps_bindE keeps_classify_results persist keeps_pure) auto
  have retained: "keeps (seen J) (readRetainedStatus (dbPath (cacheVersionDir c)) base outs (types c))" for base outs
  proof (cases "types c")
    case True
    show ?thesis unfolding readRetainedStatus_def
      by (intro keeps_bindE keeps_walk_existing keeps_visit_all persist keeps_pure True) simp
  next
    case False
    then have untyped: "types c = False" by simp
    show ?thesis unfolding readRetainedStatus_def untyped
      by (intro keeps_bindE [OF keeps_walk_existing] keeps_bind_yields [OF visit_all_untyped keeps_visit_all])
        (simp add: persist_nothing keeps_def bindE_def)
  qed
  show ?thesis
    unfolding readStatus_def cachePaths_def Let_def prod.case
    by (intro keeps_bindE keeps_tryE keeps_case_sum keeps_case_prod keeps_if keeps_readCatalogStatus blobs retained keeps_stampAge
        keeps_readLiveStatus keeps_reads keeps_pure)
qed

text \<open>The catalog without its cached classifications.\<close>

definition unclassified :: "tables \<Rightarrow> tables" where
  "unclassified d = d\<lparr>outputs := map (\<lambda>r. r\<lparr>out_blob_type := None, out_blob_version := None, out_retained_type := None,
     out_retained_version := None\<rparr>) (outputs d)\<rparr>"

lemma unclassified_updates:
  "cl \<in> {blobClassifier, retainedClassifier} \<Longrightarrow> unclassified (cl kind key d) = unclassified d"
  by (auto simp: unclassified_def blobClassifier_def retainedClassifier_def sql_update_blob_type_def sql_update_retained_type_def map_where_def)

definition undisturbed :: "world \<Rightarrow> path \<Rightarrow> world \<Rightarrow> bool" where
  "undisturbed w0 p w \<longleftrightarrow> file_side w = file_side w0 \<and> mem w = mem w0 \<and> unclassified (db w) = unclassified (db w0) \<and>
     node_at w p \<noteq> None \<and> user_version (db w) = cacheSchemaVersion"

lemma keeps_bind_ensures:
  "ensures I m (\<lambda>x w. A x \<and> I w) I \<Longrightarrow> (\<And>x. A x \<Longrightarrow> keeps I (f x)) \<Longrightarrow> keeps I (bindE m f)"
  by (auto simp: keeps_def ensures_def bindE_def split: prod.splits sum.splits) fastforce+

lemma user_version_unclassified: "user_version (unclassified d) = user_version d"
  by (simp add: unclassified_def)

lemma undisturbed_db:
  assumes u: "undisturbed w0 p w" and d: "unclassified d = unclassified (db w0)"
  shows "undisturbed w0 p (w\<lparr>db := d\<rparr>)"
proof -
  have "user_version d = user_version (db w)" using u d user_version_unclassified unfolding undisturbed_def by metis
  then show ?thesis using u d by (simp add: undisturbed_def)
qed

lemma undisturbed_ticks [simp]: "undisturbed w0 p (w\<lparr>ticks := n\<rparr>) = undisturbed w0 p w"
  by (simp add: undisturbed_def)

lemma keeps_commitClassifications: 
  assumes cl: "cl \<in> {blobClassifier, retainedClassifier}"
  shows "keeps (undisturbed w0 p) (commitClassifications cl batch)"
proof -
  have starts: "ensures (undisturbed w0 p) (wrapE m begin_tx) (\<lambda>tx w. unclassified tx = unclassified (db w0) \<and> undisturbed w0 p w)
      (undisturbed w0 p)" for m
    by (intro ensures_wrapE) (auto simp: ensures_def begin_tx_def sql_read_def sql_def effect_def Let_def undisturbed_def split: option.splits)
  have exec: "keeps (undisturbed w0 p) (sql_exec (cl kind key))" for kind key
    using unclassified_updates [OF cl]
    by (auto simp: keeps_def sql_exec_def sql_def effect_def Let_def split: option.splits intro!: undisturbed_db) (simp add: undisturbed_def)
  have rollback: "keeps (undisturbed w0 p) (rollback_tx tx)" "keeps (undisturbed w0 p) (commit_tx tx)"
    if "unclassified tx = unclassified (db w0)" for tx
    using that by (auto simp: keeps_def rollback_tx_def commit_tx_def Let_def split: option.splits intro!: undisturbed_db)
  have key: "keeps (undisturbed w0 p) (idKeyE x)" for x
    unfolding idKeyE_def by (intro keeps_case_option keeps_pure)
  show ?thesis
    unfolding commitClassifications_def tx_stmt_def
    by (intro keeps_if keeps_pure keeps_bind_ensures [OF starts] keeps_bindE keeps_forE keeps_case_prod key keeps_recoverE exec
        keeps_ignoreE rollback keeps_wrapE)
qed

lemma keeps_openDB: "keeps (undisturbed w0 p) (openDB p)"
proof -
  have db_there: "keeps (undisturbed w0 p) (db_file p)" by (simp add: keeps_def db_file_def undisturbed_def)
  have version: "ensures (undisturbed w0 p) (wrapE m (sql_read user_version)) (\<lambda>v w. v = cacheSchemaVersion \<and> undisturbed w0 p w)
      (undisturbed w0 p)" for m
    by (intro ensures_wrapE) (auto simp: ensures_def sql_read_def sql_def effect_def Let_def split: option.splits, simp add: undisturbed_def)
  show ?thesis unfolding openDB_def initDB_def
    by (intro keeps_bindE [OF db_there] keeps_bind_ensures [OF version]) (simp add: keeps_pure cacheSchemaVersion_def)
qed

lemma keeps_write_batches:
  assumes "\<And>batch. keeps I (commitClassifications cl batch)"
  shows "keeps I (write_batches cl batch xs)"
proof (induction xs arbitrary: batch)
  case (Cons x xs)
  show ?case unfolding write_batches.simps Let_def by (intro keeps_if keeps_bindE assms Cons)
qed (simp add: assms)

lemma keeps_persist:
  "cl \<in> {blobClassifier, retainedClassifier} \<Longrightarrow> keeps (undisturbed w0 p) (persistClassifications p cl xs)"
  unfolding persistClassifications_def writeClassifications_def
  by (intro keeps_ignoreE keeps_if keeps_pure keeps_bindE keeps_openDB keeps_write_batches keeps_commitClassifications)

lemma undisturbed_seen:
  "undisturbed w0 p = seen (\<lambda>((ns, ins, next), d, m). (ns, ins, next) = file_side w0 \<and> m = mem w0 \<and>
     unclassified d = unclassified (db w0) \<and> (p = [] \<or> map_of ns p \<noteq> None) \<and> user_version d = cacheSchemaVersion)"
  by (rule ext) (auto simp: undisturbed_def visible_def file_side_def node_at_def)

text \<open>
  C36. Reading the status, whatever fails in it, changes no file, no row and nothing in memory. With
  \<open>-types\<close> and a catalog in place the only change is to the cached classifications of the rows.
\<close>

theorem status_readonly:
  assumes catalog: "types c \<longrightarrow> node_at w (dbPath (cacheVersionDir c)) \<noteq> None \<and> user_version (db w) = cacheSchemaVersion"
    and run: "readStatus cd arrive c w = (r, w')"
  shows "file_side w' = file_side w \<and> mem w' = mem w \<and> unclassified (db w') = unclassified (db w) \<and>
    (\<not> types c \<longrightarrow> db w' = db w)"
proof (cases "types c")
  case True
  let ?J = "\<lambda>((ns, ins, next), d, m). (ns, ins, next) = file_side w \<and> m = mem w \<and> unclassified d = unclassified (db w) \<and>
      (dbPath (cacheVersionDir c) = [] \<or> map_of ns (dbPath (cacheVersionDir c)) \<noteq> None) \<and> user_version d = cacheSchemaVersion"
  have "keeps (seen ?J) (readStatus cd arrive c)"
    by (rule keeps_readStatus, subst undisturbed_seen [symmetric], rule keeps_persist)
  then have "keeps (undisturbed w (dbPath (cacheVersionDir c))) (readStatus cd arrive c)" by (simp only: undisturbed_seen)
  moreover have "undisturbed w (dbPath (cacheVersionDir c)) w" using catalog True by (simp add: undisturbed_def)
  ultimately have "undisturbed w (dbPath (cacheVersionDir c)) w'" using run by (blast dest: keeps_eqD)
  with True show ?thesis by (simp add: undisturbed_def)
next
  case False
  have "keeps (seen (\<lambda>v. v = visible w)) (readStatus cd arrive c)" by (rule keeps_readStatus) (simp add: False)
  then have "visible w' = visible w" using run by (auto dest!: keeps_eqD)
  then show ?thesis by (simp add: visible_def)
qed

section \<open>A status that is not read-only\<close>

text \<open>Effects that succeed and leave what is visible.\<close>

definition reads :: "world \<Rightarrow> 'a io \<Rightarrow> ('a \<Rightarrow> bool) \<Rightarrow> bool" where
  "reads w0 m Q \<longleftrightarrow> (\<forall>w. calm w \<and> visible w = visible w0 \<longrightarrow> (\<exists>x w'. m w = (Inr x, w') \<and> calm w' \<and> visible w' = visible w0 \<and> Q x))"

lemma reads_bindE: "reads w0 m P \<Longrightarrow> (\<And>x. P x \<Longrightarrow> reads w0 (f x) Q) \<Longrightarrow> reads w0 (bindE m f) Q"
  unfolding reads_def
proof (intro allI impI)
  fix w assume m: "\<forall>w. calm w \<and> visible w = visible w0 \<longrightarrow> (\<exists>x w'. m w = (Inr x, w') \<and> calm w' \<and> visible w' = visible w0 \<and> P x)"
    and f: "\<And>x. P x \<Longrightarrow> \<forall>w. calm w \<and> visible w = visible w0 \<longrightarrow> (\<exists>y w'. f x w = (Inr y, w') \<and> calm w' \<and> visible w' = visible w0 \<and> Q y)"
    and w: "calm w \<and> visible w = visible w0"
  obtain x w1 where x: "m w = (Inr x, w1)" "calm w1" "visible w1 = visible w0" "P x" using m w by blast
  then show "\<exists>y w'. bindE m f w = (Inr y, w') \<and> calm w' \<and> visible w' = visible w0 \<and> Q y"
    using f [OF x(4)] by (simp add: bindE_Inr)
qed

lemma reads_mono: "reads w0 m P \<Longrightarrow> (\<And>x. P x \<Longrightarrow> Q x) \<Longrightarrow> reads w0 m Q"
  unfolding reads_def by meson

lemma reads_returnE: "Q x \<Longrightarrow> reads w0 (returnE x) Q"
  by (auto simp: reads_def)

lemma node_at_visible: "visible w = visible w0 \<Longrightarrow> node_at w = node_at w0"
  by (auto simp: visible_def file_side_def node_at_def fun_eq_iff)

lemma info_of_visible: "visible w = visible w0 \<Longrightarrow> info_of w = info_of w0"
  by (auto simp: visible_def file_side_def info_of_def fun_eq_iff split: node.splits)

lemma info_of_ticks: "info_of (w\<lparr>ticks := n\<rparr>) = info_of w"
  by (rule ext) (simp add: info_of_def split: node.split)

lemma reads_stat: "reads w0 (tryE (os_stat p)) (\<lambda>r. r = (case node_at w0 p of None \<Rightarrow> Inl ErrNotExist | Some n \<Rightarrow> Inr (info_of w0 n)))"
  unfolding reads_def
proof (intro allI impI)
  fix w assume w: "calm w \<and> visible w = visible w0"
  then have "node_at w = node_at w0" "info_of w = info_of w0" using node_at_visible info_of_visible by blast+
  then show "\<exists>x w'. tryE (os_stat p) w = (Inr x, w') \<and> calm w' \<and> visible w' = visible w0 \<and>
      x = (case node_at w0 p of None \<Rightarrow> Inl ErrNotExist | Some n \<Rightarrow> Inr (info_of w0 n))"
    using w by (auto simp: tryE_eq os_stat_def sys_def calm_effect info_of_ticks split: option.split)
qed

lemma calm_os_read_file: "calm w \<Longrightarrow> calm (snd (os_read_file p w))"
  by (auto simp: os_read_file_def bindE_def os_open_def file_read_def sys_def calm_effect split: option.splits node.splits)

lemma reads_kind: "reads w0 (retainedFileKind p) (\<lambda>_. True)"
proof -
  have "visible (snd (os_read_file p w)) = visible w0" if "visible w = visible w0" for w
    using keepsD [OF keeps_os_read_file [of "\<lambda>v. v = visible w0" p]] that by simp
  then show ?thesis by (simp add: reads_def retainedFileKind_def bindE_def tryE_eq calm_os_read_file)
qed

lemma reads_visit_all:
  "\<forall>p \<in> set ps. node_at w0 p \<noteq> None \<Longrightarrow>
    reads w0 (visit_all True (\<lambda>_. None) ps s)
      (\<lambda>s'. (rw_classified s \<noteq> [] \<or> (\<exists>p \<in> set ps. file_ext (last p) = ''.go'')) \<longrightarrow> rw_classified s' \<noteq> [])"
proof (induction ps arbitrary: s)
  case (Cons p ps)
  then obtain n where n: "node_at w0 p = Some n" by auto
  have kinds: "reads w0 (bindE (retainedFileKind p) (\<lambda>k. returnE (k, file_ext (last p) = ''.go'')))
      (\<lambda>x. snd x = (file_ext (last p) = ''.go''))"
    by (intro reads_bindE [OF reads_kind] reads_returnE) simp
  have step: "reads w0 (visit_retained True (\<lambda>_. None) p s)
      (\<lambda>s'. (rw_classified s \<noteq> [] \<or> file_ext (last p) = ''.go'') \<longrightarrow> rw_classified s' \<noteq> [])"
    unfolding visit_retained_def
    by (rule reads_bindE [OF reads_stat], simp only: n sum.case Let_def not_True_eq_False if_False option.case,
        rule reads_bindE [OF kinds]) (auto simp: reads_def update_conv' dest: arg_cong [where f = length])
  show ?case unfolding visit_all.simps
    by (rule reads_bindE [OF step], rule reads_mono [OF Cons.IH]) (use Cons.prems in auto)
qed (simp add: reads_returnE del: returnE_eq)

lemma reads_walk:
  "node_at w0 p = Some DirN \<Longrightarrow>
    reads w0 (walk_existing p) (\<lambda>r. r = (p, DirN) # map (\<lambda>q. (q, the (node_at w0 q))) (subtree w0 p))"
  unfolding reads_def
proof (intro allI impI)
  fix w assume p: "node_at w0 p = Some DirN" and w: "calm w \<and> visible w = visible w0"
  have eqs: "node_at w = node_at w0" using node_at_visible w by blast
  moreover have "nodes w = nodes w0" using w by (simp add: visible_def file_side_def)
  ultimately have "subtree w p = subtree w0 p" by (simp add: subtree_def)
  then show "\<exists>x w'. walk_existing p w = (Inr x, w') \<and> calm w' \<and> visible w' = visible w0 \<and>
      x = (p, DirN) # map (\<lambda>q. (q, the (node_at w0 q))) (subtree w0 p)"
    using w p eqs by (simp add: walk_existing_def recoverE_def walk_dir_def sys_def calm_effect subtree_def)
qed

lemma reads_missing_catalog:
  assumes "node_at w0 p = None"
  shows "reads w0 (readCatalogStatus p b) (\<lambda>r. r = (False, no_catalog, []))"
proof -
  have missing: "reads w0 (regularFile p) (\<lambda>present. \<not> present)"
    unfolding regularFile_def by (rule reads_bindE [OF reads_stat], rule reads_returnE) (simp add: assms)
  show ?thesis unfolding readCatalogStatus_def by (rule reads_bindE [OF missing]) (simp add: reads_def)
qed

lemma write_creates:
  assumes "calm w" "node_at w p = None" "is_dir w (butlast p)" "classified \<noteq> []"
  shows "node_at (snd (persistClassifications p cl classified w)) p \<noteq> None"
proof -
  let ?I = "seen (\<lambda>((ns, _), _). p = [] \<or> map_of ns p \<noteq> None)"
  have sql: "keeps ?I (sql_exec u)" "keeps ?I (commit_tx tx)" "keeps ?I (rollback_tx tx)" for u tx
    by (auto simp: keeps_def sql_exec_def sql_def effect_def Let_def commit_tx_def rollback_tx_def visible_def file_side_def split: option.splits)
  have key: "keeps ?I (idKeyE x)" for x unfolding idKeyE_def by (intro keeps_case_option keeps_pure)
  have commit: "keeps ?I (commitClassifications cl batch)" for batch
    unfolding commitClassifications_def tx_stmt_def
    by (intro keeps_if keeps_pure keeps_bindE keeps_forE keeps_case_prod key keeps_recoverE sql keeps_ignoreE keeps_wrapE keeps_reads)
  have init: "keeps ?I initDB" unfolding initDB_def by (intro keeps_bindE keeps_wrapE keeps_if keeps_reads sql keeps_pure)
  obtain w1 where w1: "db_file p w = (Inr (), w1)" "?I w1"
    using assms by (auto simp: db_file_def new_file_def Let_def set_node_def visible_def file_side_def update_conv')
  have "keeps ?I (bindE initDB (\<lambda>_. write_batches cl [] classified))" by (intro keeps_bindE init keeps_write_batches commit)
  then have "?I (snd (bindE initDB (\<lambda>_. write_batches cl [] classified) w1))" using w1(2) by (rule keepsD)
  moreover have "snd (persistClassifications p cl classified w) = snd (bindE initDB (\<lambda>_. write_batches cl [] classified) w1)"
    using assms(4) w1(1) by (simp add: persistClassifications_def writeClassifications_def ignoreE_eq openDB_def bindE_def split: prod.split sum.split)
  ultimately show ?thesis by (auto simp: visible_def file_side_def node_at_def)
qed

lemma after_bindE: "I (snd (m w)) \<Longrightarrow> (\<And>x. keeps I (f x)) \<Longrightarrow> I (snd (bindE m f w))"
  by (auto simp: keeps_def bindE_def split: prod.split sum.split)

lemma reads_Inr: "reads w0 m Q \<Longrightarrow> calm w \<Longrightarrow> visible w = visible w0 \<Longrightarrow> \<exists>x w'. m w = (Inr x, w') \<and> calm w' \<and> visible w' = visible w0 \<and> Q x"
  by (simp add: reads_def)

lemma subtree_present: "q \<in> set (subtree w p) \<Longrightarrow> node_at w q \<noteq> None"
  by (auto simp: subtree_def node_at_def map_of_eq_None_iff simp del: not_None_eq)

lemma in_subtree: "strict_prefix p q \<Longrightarrow> node_at w q \<noteq> None \<Longrightarrow> q \<in> set (subtree w p)"
  by (auto simp: subtree_def node_at_def split: if_splits intro: rev_image_eqI dest: map_of_SomeD)

lemma retained_creates:
  assumes w: "calm w" "visible w = visible w0"
    and db: "node_at w0 p = None" "is_dir w0 (butlast p)"
    and base: "node_at w0 base = Some DirN"
    and src: "strict_prefix base q" "node_at w0 q = Some (FileN i)" "file_ext (last q) = ''.go''"
  shows "node_at (snd (readRetainedStatus p base [] True w)) p \<noteq> None"
proof -
  let ?files = "map fst (filter (\<lambda>(p, n). n \<noteq> DirN) ((base, DirN) # map (\<lambda>q. (q, the (node_at w0 q))) (subtree w0 base)))"
  let ?none = "\<lparr>rw_files = 0, rw_size = 0, rw_byKind = [], rw_classified = []\<rparr> :: retained_walk"
  obtain w1 where w1: "walk_existing base w = (Inr ((base, DirN) # map (\<lambda>q. (q, the (node_at w0 q))) (subtree w0 base)), w1)"
      "calm w1" "visible w1 = visible w0"
    using reads_Inr [OF reads_walk [OF base] w] by blast
  have "\<forall>q \<in> set ?files. node_at w0 q \<noteq> None" using subtree_present by auto
  moreover have "q \<in> set ?files" using in_subtree src(1, 2) by (force simp: image_iff)
  ultimately obtain s w2 where w2: "visit_all True (\<lambda>_. None) ?files ?none w1 = (Inr s, w2)" "calm w2" "visible w2 = visible w0"
      "rw_classified s \<noteq> []"
    using reads_Inr [OF reads_visit_all w1(2, 3), of ?files ?none] src(3) by blast
  have "node_at w2 = node_at w0" using w2(3) node_at_visible by blast
  then have "node_at (snd (persistClassifications p retainedClassifier (rw_classified s) w2)) p \<noteq> None"
    using db by (intro write_creates w2) (simp_all add: is_dir_def)
  moreover have "cached_retained [] = (\<lambda>_. None)" by (simp add: cached_retained_def fun_eq_iff)
  ultimately show ?thesis
    using w1(1) w2(1) by (simp add: readRetainedStatus_def bindE_Inr) (rule after_bindE; simp add: keeps_def)
qed

text \<open>
  C37. With \<open>-types\<close> the status of a cache that has no catalog but a retained Go source creates the
  catalog, to cache the classification of that source in; the help says that \<open>status\<close> inspects
  the cache without modifying it.
\<close>

theorem status_creates_catalog:
  assumes w: "calm w" and types: "types c"
    and cache: "is_dir w (cacheVersionDir c)" "node_at w (dbPath (cacheVersionDir c)) = None"
    and retained: "is_dir w (retainedRoot (cacheVersionDir c))" "strict_prefix (retainedRoot (cacheVersionDir c)) q"
    and source: "node_at w q = Some (FileN i)" "file_ext (last q) = ''.go''"
  shows "node_at (snd (readStatus cd arrive c w)) (dbPath (cacheVersionDir c)) \<noteq> None"
proof -
  let ?v = "cacheVersionDir c"
  let ?I = "seen (\<lambda>((ns, _), _). dbPath ?v = [] \<or> map_of ns (dbPath ?v) \<noteq> None)"
  have I: "?I w \<longleftrightarrow> node_at w (dbPath ?v) \<noteq> None" for w by (simp add: visible_def file_side_def node_at_def)
  obtain w1 where w1: "tryE (os_stat ?v) w = (Inr (Inr (info_of w DirN)), w1)" "calm w1" "visible w1 = visible w"
    using reads_Inr [OF reads_stat [of w ?v] w] cache(1) by (auto simp: is_dir_def)
  obtain w2 where w2: "readCatalogStatus (dbPath ?v) True w1 = (Inr (False, no_catalog, []), w2)" "calm w2" "visible w2 = visible w"
    using reads_Inr [OF reads_missing_catalog [OF cache(2)] w1(2, 3)] by blast
  have blobs: "blobTypeStatuses cd arrive p b [] = returnE []" for p b
    by (rule ext) (simp add: blobTypeStatuses_def classifyBlobTypes_def pending_blobs_def cached_blobs_def bindE_def)
  have created: "?I (snd (readRetainedStatus (dbPath ?v) (retainedRoot ?v) [] True w2))"
    unfolding I using retained source cache by (intro retained_creates [OF w2(2, 3)]) (auto simp: is_dir_def dbPath_def)
  have later: "?I (snd (bindE (readRetainedStatus (dbPath ?v) (retainedRoot ?v) [] True) f w2))"
    if "\<And>x. keeps ?I (f x)" for f :: "_ \<Rightarrow> cacheStatus io"
    using created that by (rule after_bindE [where I = ?I])
  have steps: "bindE (tryE (os_stat ?v)) f w = f (Inr (info_of w DirN)) w1"
      "bindE (readCatalogStatus (dbPath ?v) True) g w1 = g (False, no_catalog, []) w2" "bindE (returnE x) h w2 = h x w2"
    for f :: "_ \<Rightarrow> cacheStatus io" and g :: "_ \<Rightarrow> cacheStatus io" and h :: "blobTypeStatus list \<Rightarrow> cacheStatus io" and x
    by (simp_all only: bindE_def w1(1) w2(1) returnE_def prod.case sum.case)
  have "?I (snd (readStatus cd arrive c w))"
    using types by (simp only: readStatus_def cachePaths_def Let_def prod.case sum.case if_True blobs steps)
      (intro later keeps_bindE keeps_case_prod keeps_stampAge keeps_readLiveStatus keeps_pure)
  then show ?thesis unfolding I .
qed

definition typed_config :: config where
  "typed_config = demo_config\<lparr>types := True\<rparr>"

text \<open>A cache that lost its catalog, with one retained source.\<close>

definition retained_world :: world where
  "retained_world = calm_world\<lparr>nodes := [([''c'', ''v2''], DirN), ([''c'', ''v2'', ''retained''], DirN),
     ([''c'', ''v2'', ''retained'', ''ab.go''], FileN 0)]\<rparr>"

theorem status_creates_catalog_witness:
  "node_at (snd (readStatus plain_codec id typed_config retained_world)) [''c'', ''v2'', ''cache.db''] \<noteq> None"
proof -
  have "calm retained_world" "types typed_config" "cacheVersionDir typed_config = [''c'', ''v2'']"
      "dbPath [''c'', ''v2''] = [''c'', ''v2'', ''cache.db'']" "retainedRoot [''c'', ''v2''] = [''c'', ''v2'', ''retained'']"
    by (simp_all add: retained_world_def calm_def typed_config_def demo_config_def cacheVersionDir_def dbPath_def retainedRoot_def retainedDirName_def)
  then show ?thesis
    using status_creates_catalog [of retained_world typed_config "[''c'', ''v2'', ''retained'', ''ab.go'']" 0 plain_codec id]
    by (simp add: is_dir_def node_at_def retained_world_def strict_prefix_def file_ext_def)
qed

definition cataloged_world :: world where
  "cataloged_world = busy_world\<lparr>db := (db busy_world)\<lparr>user_version := cacheSchemaVersion\<rparr>\<rparr>"

theorem status_readonly_witness:
  "\<exists>r w'. readStatus plain_codec id typed_config cataloged_world = (r, w') \<and>
     file_side w' = file_side cataloged_world \<and> unclassified (db w') = unclassified (db cataloged_world)"
proof -
  obtain r w' where run: "readStatus plain_codec id typed_config cataloged_world = (r, w')"
    by (cases "readStatus plain_codec id typed_config cataloged_world")
  have "types typed_config \<longrightarrow> node_at cataloged_world (dbPath (cacheVersionDir typed_config)) \<noteq> None \<and>
      user_version (db cataloged_world) = cacheSchemaVersion"
    by (simp add: typed_config_def demo_config_def cacheVersionDir_def dbPath_def cataloged_world_def busy_world_def demo_run_def node_at_def)
  from status_readonly [OF this run] run show ?thesis by blast
qed

end
