(* ===== verification/Breakdown_Laws.thy ===== *)
theory Breakdown_Laws
  imports Status_Laws "HOL-Library.Multiset"
begin

text \<open>
  The rows of the breakdown by type. The results of the workers arrive in any order: a locale has
  what counting by kind needs for the order not to matter, and both breakdowns are instances.
\<close>

section \<open>Counting in any order\<close>

text \<open>An entry is counted into the row of its kind; counting two entries commutes.\<close>

locale tally =
  fixes init :: "'k \<Rightarrow> 's" and add :: "'x \<Rightarrow> 's \<Rightarrow> 's"
  assumes add_commute: "add x (add y s) = add y (add x s)"
begin

lemma fold_add_mset: "mset xs = mset ys \<Longrightarrow> fold add xs s = fold add ys s"
  by (rule arg_cong [where f = "\<lambda>f. f s"], rule fold_multiset_equiv) (auto simp: fun_eq_iff add_commute)

lemma row_of_add:
  "map_of (tally_add init add k x m) k' =
    (if k' = k then Some (add x (case map_of m k of None \<Rightarrow> init k | Some s \<Rightarrow> s)) else map_of m k')"
  by (simp add: tally_add_def update_conv')

lemma distinct_add: "distinct (map fst m) \<Longrightarrow> distinct (map fst (tally_add init add k x m))"
  by (simp add: tally_add_def distinct_update)

text \<open>The row of a kind counts exactly the entries of that kind.\<close>

lemma no_entries: "k \<notin> fst ` set kxs \<Longrightarrow> filter (\<lambda>(k', x). k' = k) kxs = []"
  by (force simp: filter_empty_conv)

lemma row_of_fold_from:
  "map_of (fold (\<lambda>(k, x). tally_add init add k x) kxs m) k =
    (if k \<in> fst ` set kxs
     then Some (fold add (map snd (filter (\<lambda>(k', x). k' = k) kxs)) (case map_of m k of None \<Rightarrow> init k | Some s \<Rightarrow> s))
     else map_of m k)"
proof (induction kxs arbitrary: m)
  case (Cons kx kxs)
  show ?case by (cases kx) (auto simp: Cons.IH row_of_add no_entries)
qed simp

lemma row_of_fold:
  "map_of (fold (\<lambda>(k, x). tally_add init add k x) kxs []) k =
    (if k \<in> fst ` set kxs then Some (fold add (map snd (filter (\<lambda>(k', x). k' = k) kxs)) (init k)) else None)"
  by (simp add: row_of_fold_from)

lemma distinct_fold: "distinct (map fst m) \<Longrightarrow> distinct (map fst (fold (\<lambda>(k, x). tally_add init add k x) kxs m))"
  by (induction kxs arbitrary: m) (auto intro: distinct_add)

text \<open>So the rows depend on which entries there are, not on their order.\<close>

lemma rows_any_order:
  assumes same: "mset kxs = mset kxs'"
  shows "set (fold (\<lambda>(k, x). tally_add init add k x) kxs []) =
    (\<lambda>k. (k, fold add (map snd (filter (\<lambda>(k', x). k' = k) kxs')) (init k))) ` fst ` set kxs'"
proof -
  let ?m = "fold (\<lambda>(k, x). tally_add init add k x) kxs []"
  have keys: "fst ` set kxs = fst ` set kxs'" using same by (metis set_mset_mset)
  have sums: "fold add (map snd (filter (\<lambda>(k', x). k' = k) kxs)) s = fold add (map snd (filter (\<lambda>(k', x). k' = k) kxs')) s" for k s
    by (rule fold_add_mset) (simp only: mset_map mset_filter same)
  have "distinct (map fst ?m)" by (rule distinct_fold) simp
  then have "(k, s) \<in> set ?m \<longleftrightarrow> map_of ?m k = Some s" for k s by simp
  then show ?thesis by (force simp: row_of_fold keys sums split: if_splits)
qed

end

lemma i64_add: "i64 (i64 a + b) = i64 (a + b)"
proof -
  have "((a + 9223372036854775808) mod 18446744073709551616 + b) mod 18446744073709551616 =
      (a + b + 9223372036854775808) mod (18446744073709551616 :: int)"
    by (simp add: mod_simps ac_simps)
  then show ?thesis by (simp add: i64_def algebra_simps)
qed

lemma i64_add_commute: "i64 (i64 (a + b) + c) = i64 (i64 (a + c) + b)"
  unfolding i64_add by (simp add: ac_simps)

lemma i64_add_right: "i64 (b + i64 a) = i64 (b + a)"
  using i64_add [of a b] by (simp add: ac_simps)

interpretation blob_tally: tally no_blobs count_blob
  by unfold_locales (simp add: count_blob_def i64_add_commute)

interpretation retained_tally: tally no_retained count_retained
  by unfold_locales (simp add: count_retained_def i64_add_commute)

text \<open>A row: how many, and their sizes in \<open>int64\<close> arithmetic.\<close>

definition blob_row :: "blobTypeKind \<Rightarrow> catalogOutput list \<Rightarrow> blobTypeStatus" where
  "blob_row k outs = \<lparr>bs_kind = k, bs_count = i64 (int (length outs)), bs_size = i64 (sum_list (map co_size outs)),
     bs_compressedSize = i64 (sum_list (map co_compressedSize outs))\<rparr>"

lemma fold_count_blob: "fold count_blob outs (no_blobs k) = blob_row k outs"
proof (induction outs rule: rev_induct)
  case Nil show ?case by (simp add: no_blobs_def blob_row_def i64_def)
next
  case (snoc out outs) then show ?case by (simp add: blob_row_def count_blob_def i64_add_right ac_simps)
qed

section \<open>Classifying blobs\<close>

text \<open>The kind of an output: the cached one, else what its blob decompresses to.\<close>

definition stored_kind :: "codec \<Rightarrow> world \<Rightarrow> path \<Rightarrow> catalogOutput \<Rightarrow> blobTypeKind" where
  "stored_kind cd w base out =
     (case node_at w (blobPath base (co_outputID out)) of
        Some (FileN i) \<Rightarrow> kind_of_stream (decompress cd (ino_data (inodes w i)))
      | _ \<Rightarrow> blobTypeUnreadable)"

definition output_kind :: "codec \<Rightarrow> world \<Rightarrow> path \<Rightarrow> catalogOutput \<Rightarrow> blobTypeKind" where
  "output_kind cd w base out = (case co_blobType out of Some n \<Rightarrow> blob_of_code n | None \<Rightarrow> stored_kind cd w base out)"

text \<open>No failures, and the files as they were.\<close>

abbreviation same_files :: "world \<Rightarrow> world \<Rightarrow> bool" where
  "same_files w0 w \<equiv> calm w \<and> file_side w = file_side w0"

lemma stored_kind_same: "file_side w = file_side w0 \<Longrightarrow> stored_kind cd w = stored_kind cd w0"
  by (auto simp: stored_kind_def file_side_def node_at_def fun_eq_iff split: option.split node.split)

lemma classify_calm:
  assumes w: "same_files w0 w"
  shows "\<exists>w'. classifyCompressedBlob cd (blobPath base (co_outputID out)) w = (Inr (stored_kind cd w0 base out), w') \<and> same_files w0 w'"
proof -
  have "stored_kind cd w0 = stored_kind cd w" using w stored_kind_same [of w w0] by simp
  then show ?thesis using w
    by (auto simp: classifyCompressedBlob_def bindE_def tryE_eq finallyE_eq os_open_def file_read_def file_close_def sys_def calm_effect
        stored_kind_def split: option.split node.split)
qed

lemma keeps_sql_same:
  "keeps (same_files w0) (sql_exec u)" "keeps (same_files w0) (sql_read g)" "keeps (same_files w0) begin_tx"
  "keeps (same_files w0) (commit_tx tx)" "keeps (same_files w0) (rollback_tx tx)"
  by (auto simp: keeps_def sql_exec_def sql_read_def sql_def effect_def Let_def begin_tx_def commit_tx_def rollback_tx_def calm_def
      split: option.splits)

lemma persist_calm:
  assumes "node_at w0 p \<noteq> None" "same_files w0 w"
  shows "\<exists>w'. persistClassifications p cl xs w = (Inr (), w') \<and> same_files w0 w'"
proof -
  have key: "keeps (same_files w0) (idKeyE x)" for x unfolding idKeyE_def by (intro keeps_case_option keeps_pure)
  have commit: "keeps (same_files w0) (commitClassifications cl batch)" for batch
    unfolding commitClassifications_def tx_stmt_def
    by (intro keeps_if keeps_pure keeps_bindE keeps_forE keeps_case_prod key keeps_recoverE keeps_sql_same keeps_ignoreE keeps_wrapE)
  have there: "keeps (same_files w0) (db_file p)"
    using assms(1) by (auto simp: keeps_def db_file_def file_side_def node_at_def)
  have "keeps (same_files w0) (persistClassifications p cl xs)"
    unfolding persistClassifications_def writeClassifications_def openDB_def initDB_def
    by (intro keeps_ignoreE keeps_if keeps_pure keeps_bindE there keeps_wrapE keeps_sql_same keeps_write_batches commit)
  then have "same_files w0 (snd (persistClassifications p cl xs w))" using assms(2) by (rule keepsD)
  then show ?thesis by (simp add: persistClassifications_def ignoreE_eq)
qed

lemma classify_results_calm:
  "node_at w0 p \<noteq> None \<Longrightarrow> same_files w0 w \<Longrightarrow>
    \<exists>w'. classify_results cd p base outs byKind classified w =
      (Inr (fold (\<lambda>out. addBlobType (stored_kind cd w0 base out) out) outs byKind), w') \<and> same_files w0 w'"
proof (induction outs arbitrary: byKind classified w)
  case Nil
  then show ?case using persist_calm [of w0 p w blobClassifier classified] by (auto simp: bindE_def)
next
  case (Cons out outs)
  obtain w1 where w1: "classifyCompressedBlob cd (blobPath base (co_outputID out)) w = (Inr (stored_kind cd w0 base out), w1)" "same_files w0 w1"
    using classify_calm [OF Cons.prems(2)] by blast
  let ?classified = "if stored_kind cd w0 base out \<noteq> blobTypeUnreadable
    then AList.update (co_outputID out) (blob_code (stored_kind cd w0 base out)) classified else classified"
  obtain w2 where w2: "persistClassifications p blobClassifier ?classified w1 = (Inr (), w2)" "same_files w0 w2"
    using persist_calm [OF Cons.prems(1) w1(2)] by blast
  show ?case
  proof (cases "classificationBatch \<le> length ?classified")
    case True
    then show ?thesis using Cons.IH [OF Cons.prems(1) w2(2)] w1(1) w2(1) by (simp add: bindE_Inr Let_def)
  next
    case False
    then show ?thesis using Cons.IH [OF Cons.prems(1) w1(2)] w1(1) by (simp add: bindE_Inr Let_def)
  qed
qed

text \<open>Cached and fresh classifications, counted in the order they come.\<close>

lemma classifyBlobTypes_calm:
  assumes w: "calm w" and catalog: "node_at w p \<noteq> None"
    and arrive: "\<And>xs. mset (arrive xs) = mset xs"
  shows "\<exists>w'. classifyBlobTypes cd arrive p base outs w =
    (Inr (fold (\<lambda>(k, out). addBlobType k out) (map (\<lambda>out. (output_kind cd w base out, out))
       (filter (\<lambda>out. co_blobType out \<noteq> None) outs @ arrive (pending_blobs outs))) []), w')"
proof -
  let ?kind = "output_kind cd w base"
  let ?add = "\<lambda>(k, out). addBlobType k out"
  let ?cached = "filter (\<lambda>out. co_blobType out \<noteq> None) outs"
  have cached: "cached_blobs outs = fold ?add (map (\<lambda>out. (?kind out, out)) ?cached) []"
  proof -
    have "fold (\<lambda>out. case co_blobType out of Some n \<Rightarrow> addBlobType (blob_of_code n) out | None \<Rightarrow> id) outs m =
        fold ?add (map (\<lambda>out. (?kind out, out)) ?cached) m" for m
      by (induction outs arbitrary: m) (auto simp: output_kind_def)
    then show ?thesis by (simp add: cached_blobs_def)
  qed
  have pending: "fold (\<lambda>out. addBlobType (stored_kind cd w base out) out) (arrive (pending_blobs outs)) m =
      fold ?add (map (\<lambda>out. (?kind out, out)) (arrive (pending_blobs outs))) m" for m
  proof -
    have "\<forall>out \<in> set (arrive (pending_blobs outs)). co_blobType out = None"
      using mset_eq_setD [OF arrive [of "pending_blobs outs"]] by (simp add: pending_blobs_def)
    then show ?thesis by (induction "arrive (pending_blobs outs)" arbitrary: m) (auto simp: output_kind_def fold_map comp_def intro: fold_cong)
  qed
  show ?thesis
  proof (cases "pending_blobs outs = []")
    case True
    then have "arrive (pending_blobs outs) = []" using arrive [of "[]"] by simp
    then show ?thesis using True by (simp add: classifyBlobTypes_def cached)
  next
    case False
    then show ?thesis using classify_results_calm [OF catalog, of w cd base "arrive (pending_blobs outs)" "cached_blobs outs" "[]"] w
      by (auto simp: classifyBlobTypes_def cached pending)
  qed
qed

text \<open>
  C35. The breakdown by type is exact, in whatever order the workers deliver: when nothing fails there
  is one row for each kind that occurs, it counts the outputs of that kind, cached or decompressed
  now, and their sizes, and the rows are in order.
\<close>

theorem breakdown_exact:
  assumes w: "calm w" and catalog: "node_at w p \<noteq> None"
    and arrive: "\<And>xs. mset (arrive xs) = mset xs"
  shows "\<exists>rows w'. blobTypeStatuses cd arrive p base outs w = (Inr rows, w') \<and>
    set rows = (\<lambda>k. blob_row k (filter (\<lambda>out. output_kind cd w base out = k) outs)) ` output_kind cd w base ` set outs \<and>
    distinct (map bs_kind rows) \<and> sorted (map blob_order rows)"
proof -
  let ?kind = "output_kind cd w base"
  let ?add = "\<lambda>(k, out). addBlobType k out"
  let ?cached = "filter (\<lambda>out. co_blobType out \<noteq> None) outs"
  let ?kxs = "map (\<lambda>out. (?kind out, out)) (?cached @ arrive (pending_blobs outs))"
  obtain w' where run: "classifyBlobTypes cd arrive p base outs w = (Inr (fold ?add ?kxs []), w')"
    using classifyBlobTypes_calm [OF assms] by blast
  let ?m = "fold ?add ?kxs []"
  have "mset (?cached @ arrive (pending_blobs outs)) = mset outs"
    by (simp add: arrive pending_blobs_def)
  then have same: "mset ?kxs = mset (map (\<lambda>out. (?kind out, out)) outs)" by (simp only: mset_map)
  have rows: "set ?m = (\<lambda>k. (k, blob_row k (filter (\<lambda>out. ?kind out = k) outs))) ` ?kind ` set outs"
    using blob_tally.rows_any_order [OF same] by (simp add: addBlobType_def fold_count_blob filter_map comp_def image_image)
  have keys: "distinct (map fst ?m)" unfolding addBlobType_def by (rule blob_tally.distinct_fold) simp
  have "\<forall>(k, s) \<in> set ?m. bs_kind s = k" unfolding rows by (simp add: blob_row_def)
  then have kinds: "map bs_kind (map snd ?m) = map fst ?m" unfolding map_map comp_def by (intro map_cong refl) fastforce
  let ?rows = "sort_key blob_order (map snd ?m)"
  have "mset (map bs_kind ?rows) = mset (map bs_kind (map snd ?m))" by (simp only: mset_map mset_sort)
  then have "distinct (map bs_kind ?rows)" unfolding kinds using keys mset_eq_imp_distinct_iff by blast
  moreover have "set ?rows = (\<lambda>k. blob_row k (filter (\<lambda>out. ?kind out = k) outs)) ` ?kind ` set outs"
    by (simp only: set_sort set_map rows image_image snd_conv)
  ultimately show ?thesis using run by (simp add: blobTypeStatuses_def bindE_Inr)
qed

definition two_outputs :: "catalogOutput list" where
  "two_outputs =
     [\<lparr>co_outputID = ''ab'', co_size = 3, co_compressedSize = 2, co_blobType = Some 0, co_retainedType = None\<rparr>,
      \<lparr>co_outputID = ''cd'', co_size = 5, co_compressedSize = 4, co_blobType = None, co_retainedType = None\<rparr>]"

theorem breakdown_exact_witness:
  "\<exists>rows w'. blobTypeStatuses plain_codec rev [''c'', ''v2'', ''cache.db''] [''blobs''] two_outputs busy_world = (Inr rows, w') \<and>
    set rows = {blob_row (blob_of_code 0) [two_outputs ! 0], blob_row blobTypeUnreadable [two_outputs ! 1]}"
proof -
  have kinds: "output_kind plain_codec busy_world [''blobs''] (two_outputs ! 0) = blob_of_code 0"
      "output_kind plain_codec busy_world [''blobs''] (two_outputs ! 1) = blobTypeUnreadable" "blob_of_code 0 \<noteq> blobTypeUnreadable"
    by (simp_all add: output_kind_def two_outputs_def stored_kind_def blobPath_def blobDir_def busy_world_def node_at_def demo_run_def
        blob_of_code_def blobKindTable_def)
  have outs: "two_outputs = [two_outputs ! 0, two_outputs ! 1]" by (simp add: two_outputs_def)
  have "calm busy_world" "node_at busy_world [''c'', ''v2'', ''cache.db''] \<noteq> None"
    by (simp_all add: busy_world_def calm_def node_at_def demo_run_def)
  from breakdown_exact [OF this, of rev plain_codec "[''blobs'']" "[two_outputs ! 0, two_outputs ! 1]"] kinds
  show ?thesis by (subst outs) (auto simp: insert_commute)
qed

end
