(* ===== verification/Hits.thy ===== *)
theory Hits
  imports Content
begin

text \<open>
  What a put is for: the get that follows it. A put that succeeded has recorded the action in
  the catalog and the live file in the store's map, so a get of the action answers from them.
\<close>

section \<open>What a put records\<close>

definition recorded :: "bytes \<Rightarrow> bytes \<Rightarrow> int \<Rightarrow> tables \<Rightarrow> bool" where
  "recorded a k sz d \<longleftrightarrow> (\<exists>t. sql_lookup_entry a d = Some (k, sz, t, outputTag k))"

abbreviation catalogued :: "world \<Rightarrow> bool" where
  "catalogued w \<equiv> cat_inv (db w)"

abbreviation anything :: "world \<Rightarrow> bool" where
  "anything w \<equiv> True"

lemma keeps_db_put_files:
  "keeps (\<lambda>w. J (db w)) (createLiveFile st h)" "keeps (\<lambda>w. J (db w)) (installBlobLocked p q)" "keeps (\<lambda>w. J (db w)) (put_open st h)"
  unfolding createLiveFile_def installBlobLocked_def adoptBlob_def put_open_def open_pending_def Let_def
  by (intro keeps_intros)+

lemma keeps_db_copy_put: "keeps (\<lambda>w. J (db w)) (copy_put i buf data d)"
proof -
  have "J (db (snd (copy_put i buf data d w)))" if "J (db w)" for w
    using that
  proof (induction i buf data d w rule: copy_put.induct)
    case (1 i buf data d w)
    obtain out e d' where r: "dec_read d = (out, e, d')" by (metis prod_cases3)
    obtain x w1 where b: "buf_write i buf out w = (x, w1)" by (metis surj_pair)
    have "keeps (\<lambda>w. J (db w)) (buf_write i buf out)" unfolding buf_write_def Let_def by (intro keeps_intros)
    then have w1: "J (db w1)" using b 1(2) by (rule keeps_eqD)
    show ?case
    proof (cases "\<exists>b. x = Inr b \<and> e = None")
      case True
      then obtain b1 where x: "x = Inr b1" "e = None" by blast
      from 1(1) [OF r [symmetric] refl b [symmetric] x w1] r b x show ?thesis by (simp add: copy_put.simps [of i buf])
    next
      case False
      with r b w1 show ?thesis by (cases x; cases e) (auto simp: copy_put.simps [of i buf])
    qed
  qed
  then show ?thesis by (simp add: keeps_def)
qed

lemma keeps_db_stream: "keeps (\<lambda>w. J (db w)) (streamPutBody i b)"
proof -
  have "keeps (\<lambda>w. J (db w)) (copy_body_put i b)"
    unfolding copy_body_put_def by (cases b) (auto intro!: keeps_intros keeps_db_copy_put simp del: returnE_eq)
  then show ?thesis
    unfolding streamPutBody_def by (intro keeps_intros)
qed

lemma ensures_upsert:
  "ensures catalogued (upsertEntry \<lparr>ActionID = hex_encode a, OutputID = hex_encode k, Size = n, CompressedSize = c, CreatedAt = t, AccessedAt = t'\<rparr>)
    (\<lambda>_ w. recorded a k n (db w)) anything"
  unfolding upsertEntry_def
  by (rule ensures_wrapE, rule ensuresI) (auto simp: recorded_def dest!: upsert_recorded)

lemma recording_put_record:
  "ensures catalogued (put_record st req (hex_encode a) (hex_encode k) p q n) (\<lambda>_ w. recorded a k n (db w)) anything"
  unfolding put_record_def setMaterialized_def
  by (rule ensures_step, intro keeps_intros keeps_db_put_files, simp, rule ensures_step, rule keeps_db_modify_mem, simp, rule ensures_step,
      rule keeps_leaves, simp, rule ensures_bindE [OF ensures_upsert])
    (rule ensures_conseq [OF ensures_keeps [OF keeps_bindE [OF keeps_db_modify_mem keeps_pure(1)]]], simp_all)

lemma recording_put_finish:
  "ensures catalogued (put_finish cd st req (hex_encode a) (hex_encode k) fs e data)
    (\<lambda>_ w. recorded a k (rq_BodySize req) (db w)) anything"
proof -
  have recording: "ensures catalogued (if int (length data) \<noteq> rq_BodySize req then failE m
      else put_record st req (hex_encode a) (hex_encode k) p q (int (length data))) (\<lambda>_ w. recorded a k (rq_BodySize req) (db w)) anything"
    for m p q
    using recording_put_record [of st req a k p q "rq_BodySize req"] by (simp add: ensures_def)
  have keep: "keeps (\<lambda>w. J (db w)) (wrapE m (liftE r))" for J m and r :: "err + unit" by (intro keeps_intros)
  obtain p i q j where fs: "fs = (p, i, q, j)" by (cases fs) auto
  show ?thesis
    unfolding put_finish_def fs prod.case
    by (rule ensures_step_try, rule keeps_leaves, rule ensures_step_try, rule keeps_leaves, rule ensures_step_try, rule keeps_leaves)
      (cases e; simp only: option.case; (rule ensures_failE, simp | rule ensures_step [OF keep], simp, rule ensures_step [OF keep], simp,
        rule ensures_step [OF keep], simp, rule recording))
qed

lemma recording_put_body:
  "ensures catalogued (put_body cd st req (hex_encode a) (hex_encode k) b)
    (\<lambda>(r, b') w. case r of Inl _ \<Rightarrow> True | Inr _ \<Rightarrow> recorded a k (rq_BodySize req) (db w)) anything"
proof -
  let ?R = "\<lambda>w. recorded a k (rq_BodySize req) (db w)"
  have finish: "ensures catalogued
      (bindE (tryE (put_finish cd st req (hex_encode a) (hex_encode k) (p, i, q, j) e data)) (\<lambda>r.
         bindE (ignoreE (os_remove q)) (\<lambda>_.
         bindE (case r of Inl e \<Rightarrow> ignoreE (os_remove p) | Inr _ \<Rightarrow> returnE ()) (\<lambda>_.
         returnE (r, if e = None then b' else drainBody b')))))
      (\<lambda>(r, b') w. case r of Inl _ \<Rightarrow> True | Inr _ \<Rightarrow> ?R w) anything" for p i q j e data b'
  proof (rule ensures_bindE)
    show "ensures catalogued (tryE (put_finish cd st req (hex_encode a) (hex_encode k) (p, i, q, j) e data))
        (\<lambda>r w. case r of Inl _ \<Rightarrow> True | Inr _ \<Rightarrow> ?R w) anything"
      by (rule ensures_tryE [OF recording_put_finish]) simp_all
    have remove: "keeps (\<lambda>w. A \<longrightarrow> ?R w) (os_remove q)" for A q
      using keeps_db_outside [OF outside_file_effects(7), of "\<lambda>d. A \<longrightarrow> recorded a k (rq_BodySize req) d" q] .
    show "ensures (\<lambda>w. case r of Inl _ \<Rightarrow> True | Inr _ \<Rightarrow> ?R w) (bindE (ignoreE (os_remove q)) (\<lambda>_.
         bindE (case r of Inl e \<Rightarrow> ignoreE (os_remove p) | Inr _ \<Rightarrow> returnE ()) (\<lambda>_.
         returnE (r, if e = None then b' else drainBody b')))) (\<lambda>(r, b') w. case r of Inl _ \<Rightarrow> True | Inr _ \<Rightarrow> ?R w) anything" for r
      using remove [of True q] by (cases r)
        (auto simp: ensures_def bindE_def ignoreE_eq keeps_def split: prod.split sum.split)
  qed
  show ?thesis
    unfolding put_body_def
  proof (rule ensures_step_try [OF keeps_db_put_files(3)])
    fix opened :: "err + (path \<times> nat \<times> path \<times> nat)"
    show "ensures catalogued (case opened of Inl e \<Rightarrow> returnE (Inl e, drainBody b)
       | Inr (bodyPath, bodyFile, blobTmpPath, blobTmp) \<Rightarrow>
           bindE (streamPutBody bodyFile b) (\<lambda>(copyErr, data, b').
           bindE (tryE (put_finish cd st req (hex_encode a) (hex_encode k) (bodyPath, bodyFile, blobTmpPath, blobTmp) copyErr data)) (\<lambda>r.
           bindE (ignoreE (os_remove blobTmpPath)) (\<lambda>_.
           bindE (case r of Inl e \<Rightarrow> ignoreE (os_remove bodyPath) | Inr _ \<Rightarrow> returnE ()) (\<lambda>_.
           returnE (r, if copyErr = None then b' else drainBody b'))))))
      (\<lambda>(r, b') w. case r of Inl _ \<Rightarrow> True | Inr _ \<Rightarrow> ?R w) anything"
    proof (cases opened)
      case (Inl e)
      then show ?thesis by (simp add: ensures_def)
    next
      case (Inr fs)
      obtain p i q j where fs: "fs = (p, i, q, j)" by (cases fs) auto
      show ?thesis unfolding Inr fs
        by (simp only: sum.case prod.case, rule ensures_step [OF keeps_db_stream], simp, simp only: split_paired_all prod.case, rule finish)
    qed
  qed
qed

lemma put_recorded:
  assumes inv: "cat_inv (db w)" and run: "put cd st req inp fin w = (Inr (Inr res, rest), w')"
  shows "rq_ActionID req \<noteq> [] \<and> recorded (rq_ActionID req) (rq_OutputID req) (rq_BodySize req) (db w')"
proof -
  obtain b b' where ids: "rq_ActionID req \<noteq> []" and
      body: "put_body cd st req (hex_encode (rq_ActionID req)) (hex_encode (rq_OutputID req)) b w = (Inr (Inr res, b'), w')"
    using run by (auto simp: put_def bindE_eq_Inr split: sum.splits prod.splits dest!: idHex_InrD)
  show ?thesis using ids ensures_InrD [OF recording_put_body inv body] by simp
qed

section \<open>The next get\<close>

lemma markEntryAccess_answers: "\<exists>w'. markEntryAccess a h w = (Inr (), w') \<and> file_side w' = file_side w"
proof -
  have "frame file_side (ignoreE flushAccessTimes)"
    unfolding frame_iff_keeps flushAccessTimes_def writeAccessTimes_def q_touchAccessed_def touchAll_def restoreAccessed_def idKeyE_def
    by (auto intro!: keeps_intros)
  then have flush: "file_side (snd (flushAccessTimes w)) = file_side w" for w by (simp add: frame_def ignoreE_eq)
  show ?thesis
    by (auto simp: markEntryAccess_def bindE_def time_now_def modify_mem_def ignoreE_eq flush)
qed

text \<open>
  C7. A put makes the next get a hit: after a put that succeeded, however much failed on the way, a
  get of its action whose reads do not fail answers with the put's output, size and file, and the
  file holds the content of the output.
\<close>

theorem put_then_get:
  assumes l: "layout st" and cd: "\<And>x. decompress cd (compress cd x) = (x, None)" and s: "sound cd C st w" and inv: "cat_inv (db w)"
    and body: "\<And>b data b'. bodyReader inp fin (rq_BodySize req) = Inr b \<Longrightarrow> copy_body b = (data, None, b') \<Longrightarrow>
      int (length data) = rq_BodySize req \<Longrightarrow> data = C (rq_OutputID req)"
    and put: "put cd st req inp fin w = (Inr (Inr res, rest), w1)"
    and next_get: "rq_ActionID again = rq_ActionID req"
  shows "\<exists>t w2. get cd st again (w1\<lparr>fault := \<lambda>_. None\<rparr>) =
      (Inr (no_response\<lparr>rs_ID := rq_ID again, rs_OutputID := rq_OutputID req, rs_Size := rq_BodySize req, rs_Time := Some t,
         rs_DiskPath := rs_DiskPath res\<rparr>), w2) \<and>
    file_data w2 (rs_DiskPath res) = Some (C (rq_OutputID req))"
proof -
  let ?k = "rq_OutputID req" and ?a = "rq_ActionID req" and ?w = "w1\<lparr>fault := \<lambda>_. None\<rparr>"
  have "served (intact cd C) C st [] (hex_encode ?k) (rs_DiskPath res) w1"
    using put_served_intact [OF l cd s _ put] body by blast
  then have m: "map_of (materialized (mem w1)) (hex_encode ?k) = Some (rs_DiskPath res)" and data: "file_data w1 (rs_DiskPath res) = Some (C ?k)"
    by (simp add: served_def, rule served_data)
  obtain t where a: "?a \<noteq> []" and lookup: "sql_lookup_entry ?a (db w1) = Some (?k, rq_BodySize req, t, outputTag ?k)"
    using put_recorded [OF inv put] by (auto simp: recorded_def)
  let ?ent = "\<lparr>ActionID = hex_encode ?a, OutputID = hex_encode ?k, Size = rq_BodySize req, CompressedSize = 0,
      CreatedAt = millisTime t, AccessedAt = 0\<rparr>"
  have found: "lookupEntry (hex_encode ?a) ?w = (Inr ?ent, ?w\<lparr>ticks := Suc (ticks w1)\<rparr>)"
    using lookup by (simp add: lookupEntry_def lookup_program)
  obtain i where i: "node_at w1 (rs_DiskPath res) = Some (FileN i)"
    using data by (auto simp: file_data_def file_inode_def split: option.splits node.splits)
  have path: "get_path cd st (hex_encode ?a) ?ent (?w\<lparr>ticks := Suc (ticks w1)\<rparr>) =
      (Inr (Some (rs_DiskPath res)), ?w\<lparr>ticks := Suc (Suc (ticks w1))\<rparr>)"
    using m i by (simp add: get_path_def getMaterialized_def bindE_def regularFile_def tryE_eq os_stat_def sys_def effect_def Let_def
        node_at_def info_of_def split: if_splits)
  obtain w2 where mark: "markEntryAccess (hex_encode ?a) (hex_encode ?k) (?w\<lparr>ticks := Suc (Suc (ticks w1))\<rparr>) = (Inr (), w2)"
      and files: "file_side w2 = file_side w1"
    using markEntryAccess_answers [of "hex_encode ?a" "hex_encode ?k" "?w\<lparr>ticks := Suc (Suc (ticks w1))\<rparr>"]
    by (auto simp: file_side_def)
  have "file_data w2 p = file_data w1 p" for p
    using files by (simp add: file_data_def file_inode_def file_side_def node_at_def split: option.split node.split)
  moreover have "get cd st again ?w = (Inr (no_response\<lparr>rs_ID := rq_ID again, rs_OutputID := ?k, rs_Size := rq_BodySize req,
      rs_Time := Some (millisTime t), rs_DiskPath := rs_DiskPath res\<rparr>), w2)"
    using a found path mark by (simp add: get_def next_get idHex_def bindE_def tryE_eq idKeyE_def)
  ultimately show ?thesis using data by auto
qed

definition empty_put :: request where
  "empty_put = hello_put\<lparr>rq_BodySize := 0\<rparr>"

lemma put_calm:
  "case fst (put plain_codec sample_store empty_put [] ErrEOF calm_world) of Inr (Inr _, _) \<Rightarrow> True | _ \<Rightarrow> False"
  by code_simp

theorem put_then_get_witness:
  "\<exists>res rest w1 t w2. put plain_codec sample_store empty_put [] ErrEOF calm_world = (Inr (Inr res, rest), w1) \<and>
     get plain_codec sample_store (empty_put\<lparr>rq_ID := 2\<rparr>) (w1\<lparr>fault := \<lambda>_. None\<rparr>) =
      (Inr (no_response\<lparr>rs_ID := 2, rs_OutputID := ''o'', rs_Size := 0, rs_Time := Some t, rs_DiskPath := rs_DiskPath res\<rparr>), w2)"
proof -
  obtain r w1 where run: "put plain_codec sample_store empty_put [] ErrEOF calm_world = (r, w1)" by fastforce
  with put_calm obtain res rest where r: "r = Inr (Inr res, rest)" by (auto split: sum.splits prod.splits)
  have body: "data = []" if "bodyReader [] ErrEOF (rq_BodySize empty_put) = Inr b" "copy_body b = (data, None, b')" for b data b'
    using that by (auto simp: empty_put_def bodyReader_def copy_body_def)
  have "\<exists>t w2. get plain_codec sample_store (empty_put\<lparr>rq_ID := 2\<rparr>) (w1\<lparr>fault := \<lambda>_. None\<rparr>) =
      (Inr (no_response\<lparr>rs_ID := rq_ID (empty_put\<lparr>rq_ID := 2\<rparr>), rs_OutputID := rq_OutputID empty_put, rs_Size := rq_BodySize empty_put,
         rs_Time := Some t, rs_DiskPath := rs_DiskPath res\<rparr>), w2) \<and> file_data w2 (rs_DiskPath res) = Some ((\<lambda>_. []) (rq_OutputID empty_put))"
    by (rule put_then_get [OF layout_sample _ sound_calm_world _ _ run [unfolded r]]) (auto simp: plain_codec_def intro: body)
  then show ?thesis using run r by (auto simp: empty_put_def hello_put_def)
qed

end
