(* ===== verification/Spec2Isabelle.thy ===== *)
theory Spec2Isabelle
  imports Put_Spec Closing Due Serving Setting_Laws Report_Laws Breakdown_Laws Hits
begin

text \<open>
  A model of gocachez, a helper that serves the go command's build cache over
  \<open>GOCACHEPROG\<close>, with the theorems that make it correct.

  \<^bold>\<open>The program.\<close> The go command starts one helper per build (\<open>protocol.go\<close>) and sends it puts and
  gets. A put streams an output into a live file, which the go command reads, and into a
  compressed blob under \<open>blobs/\<close> (\<open>cache.go\<close>); a catalog in SQLite (\<open>catalog.go\<close>, \<open>store.go\<close>)
  maps actions to outputs and remembers when each was used. Any number of helpers share one
  cache directory. Each registers its run: a directory under \<open>live/\<close>, a lock in it, a row in the
  catalog. A helper that exits keeps what the build may still open (\<open>export_archive.go\<close>), takes
  its run down and does the maintenance that is due: reclaiming dead runs, expiring rows by age,
  evicting blobs down to a budget, collecting files that no row names. \<open>clean\<close>, \<open>prune\<close> and
  \<open>status\<close> are commands of their own (\<open>clean.go\<close>, \<open>cache.go\<close>, \<open>status.go\<close>); \<open>config.go\<close> merges
  flags, environment and a config file.

  \<^bold>\<open>The model.\<close> The code is Go with effects, so an operation is a program over an explicit \<open>world\<close>
  (theory World): the file system with hard links, the tables of the catalog, the locks this
  process and others hold, the clock, random names, the store's in-memory maps. Its type is
  \<open>world => (err + 'a) * world\<close>; \<open>bindE\<close> is Go's \<open>if err != nil { return }\<close>, the other combinators its
  wrapped, ignored, deferred and recovered errors. Every effect first consults \<open>fault\<close>, an
  arbitrary plan of failures, so "whatever fails" in a theorem quantifies over every combination of
  failing system calls and SQL statements, a failed write having written a part and a failed commit
  having taken effect or not. \<open>calm\<close> is a world where nothing fails. Integers are \<open>int\<close> with
  every \<open>int64\<close> operation that can wrap written out (\<open>i64\<close>); bytes are characters.

  \<^bold>\<open>The theories\<close>, in the order they build on each other:

  \<^item> Prelude, Go_Bytes, Hex_Ids: errors as trees with \<open>errors.Is\<close>; Go's \<open>bytes\<close>, \<open>strings\<close> and
    \<open>utf8\<close> as far as used; identifiers, shards (\<open>util.go\<close>, \<open>catalog.go\<close>).
  \<^item> Archive, Blob_Type: the package archive format and the classifier of contents
    (\<open>export_archive.go\<close>, \<open>blob_type.go\<close>).
  \<^item> Tables, World, World_Rules, Catalog, Catalog_Frame, Catalog_Props: the tables and the meaning of
    each SQL statement, effects and their rules, the operations of \<open>catalog.go\<close>, and what they
    preserve: the invariant \<open>cat_inv\<close> that every entry points to an output row whose tag it carries.
  \<^item> Put_Spec: the abstract contract, a map from actions to outputs (locale \<open>action_cache\<close>), and
    the proof that the catalog refines it.
  \<^item> Expiry, Eviction, Orphans: the three ways things leave the cache (\<open>catalog.go\<close>, \<open>cache.go\<close>). The
    locale \<open>cursor_pages\<close> is the contract of a listing by pages, for both listings of the code.
  \<^item> Store_State, File_Rules, Triples: the configuration, the layout of the directory, locks with
    their cleanup; single-file invariants; partial correctness triples \<open>ensures\<close>.
  \<^item> Body_Stream: the reader that decodes a put's body from the JSON stream.
  \<^item> Builds, Content, Hits: \<open>put\<close> and \<open>get\<close> in full; the invariant \<open>sound\<close> that each blob and live
    file has the content of the output it is named after; and what a put means for the next get.
  \<^item> Retained, Runs, Maintenance, Live_Runs, Closing, Due: opening and closing stores, all maintenance
    and \<open>clean\<close>. The locales \<open>file_passes\<close> and \<open>catalog_passes\<close> are what a clean-up pass may assume;
    they are interpreted for a run that another process holds, which every pass has to spare.
  \<^item> Protocol, Serving: the messages, and the loop with its concurrent gets as the step relation
    \<open>serve_step\<close>, with history variables for what was accepted and answered.
  \<^item> Numbers, Number_Laws, Settings, Setting_Laws: sizes and ages through \<open>float64\<close> as rationals
    rounded to even; flags, environment, file and defaults; choosing the command.
  \<^item> Breakdown, Breakdown_Laws, Status, Status_Laws, Report, Report_Laws: the status. The locale \<open>tally\<close>
    is counting by kind in an arbitrary order, interpreted for blobs and for retained files.

  Definitions have the names of the code's functions; where one function is several definitions, its
  parts are named after what they do (\<open>put_open\<close>, \<open>put_finish\<close>, \<open>put_record\<close>).

  \<^bold>\<open>What the theorems show.\<close> A put that succeeds is found by a lookup and served by a get (C1, C7), is
  all or nothing (C2), and gets never hand out a file with the wrong content, over any interleaving
  of a connection and any failures (C5, C6, C27); in C5 the blobs may be damaged in any way that
  their decompression or their size shows. Lookups and removals refine the abstract map, and a
  lookup checks the tag on any catalog (C3, C4). Bodies survive the stream, and a put that names its
  action and output leaves it in step whatever fails (C8, C16). Eviction takes exactly the least
  recently used, and of what was used meanwhile neither row nor blob (C9, C10); expiry takes exactly
  the stale rows (C14, C15, C21); orphan collection spares what is in the inventory and, unless one
  of its own effects fails, what is recent (C11 to C13). Nothing another helper does touches a
  running build, and under one a clean leaves blobs and catalog alone (C17 to C20). Every request is
  answered once and the loop ends (C24 to C26). Settings follow their precedence, stay in
  range, and each flag sets the setting it is named for (C29, C30, C32 to C34). The status counts exactly, changes nothing but its own cached
  classifications, and prints aligned tables that always come to an end (C35, C36, C38 to C40).
  C22, C28, C31 and C37 show behaviours that are surely not intended: an age near the largest
  duration, a failed write that closes the store under a get, the least \<open>int64\<close> as a size, and a
  status that creates a catalog.

  \<^bold>\<open>Termination.\<close> No definition has fuel. Loops whose ends are not structural have a termination
  measure: the bytes left of a stream, the attempts left of a retry (\<open>catalogPutAttempts\<close>) or of a
  random name (10000), the rows above a cursor. The one recursion that may not end, \<open>formatSize\<close>, is a
  partial function, whose domain C31 gives. \<open>ageMaxBatches\<close> is the code's own bound. The loop of the
  protocol is a relation; C25 bounds its length by the input.

  \<^bold>\<open>Parameters.\<close> What is not in the repository is an argument: the zstd codec (a frame that decodes to
  what was encoded is the only hypothesis), \<open>encoding/json\<close> for a request line, a response and the
  config file, the environment and directories of the host, the conversion of a float that no \<open>int64\<close>
  holds (left to the machine by the Go specification), the order in which workers deliver, and the
  failures of a writer. Locks of other processes are the arbitrary predicate \<open>busy\<close>.

  \<^bold>\<open>Abstractions and what is not modelled.\<close> A directory walk sees one state; a get of a connection is one
  atomic step, and other processes act between the operations of a theorem, not inside them, except
  where the operation itself re-reads the world. A blocking lock is acquired. SQLite is its tables and
  transactions: no WAL, no prepared statements, no handle to close. The error paths of getting a zstd
  encoder or decoder from its pool are folded: \<open>materialize_into\<close> treats a decoder that cannot be had
  as a failure to decompress, \<open>put_body\<close> always has its encoder. \<open>flag_parse\<close> is Go's standard \<open>flag\<close>
  package as \<open>config.go\<close> uses it; only the table \<open>bindFlags\<close> it is driven by is code of the repository. Log lines, the help texts,
  CPU and memory profiles, the handling of signals, the pools of encoders and buffers, permissions
  and symbolic links are left out. \<open>filepath.Glob\<close> is modelled for a directory without pattern
  characters.
\<close>

end
